(* ===== verification/Prelude.thy ===== *)
theory Prelude
  imports Main "HOL-Library.AList" "HOL-Library.Sublist"
begin

text \<open>
  Shared by every theory of the development: the lemma collections the proofs rewrite
  with, and generic facts about lists, association lists and options that the library
  does not have in the form the components need.
\<close>

text \<open>
  \<open>world_frame\<close>: which parts of the world an environment call leaves unchanged.
  \<open>path_simps\<close>: how paths of the shape the program builds normalise and resolve.
\<close>

named_theorems world_frame "what an environment call leaves unchanged in the world"
named_theorems path_simps "how the paths built by the program normalise"

subsection \<open>Lists\<close>

lemma takeWhile_neq_id: "d \<notin> set xs \<Longrightarrow> takeWhile (\<lambda>c. c \<noteq> d) xs = xs"
  by (induction xs) auto

lemma dropWhile_eq_id: "d \<notin> set xs \<Longrightarrow> dropWhile (\<lambda>c. c = d) xs = xs"
  by (cases xs) auto

lemma takeWhile_neq_notin: "d \<notin> set (takeWhile (\<lambda>c. c \<noteq> d) xs)"
  by (induction xs) auto

lemma set_dropWhile_sub: "x \<in> set (dropWhile P xs) \<Longrightarrow> x \<in> set xs"
  by (induction xs) (auto split: if_splits)

subsection \<open>Association lists\<close>

lemma map_of_in_fst: "map_of al k \<noteq> None \<longleftrightarrow> k \<in> fst ` set al"
  by (simp add: map_of_eq_None_iff)

end
