(* ===== verification/GoStrings.thy ===== *)
theory GoStrings
  imports Prelude
begin

text \<open>
  The parts of Go's standard packages \<open>strings\<close>, \<open>strconv\<close> and \<open>fmt\<close> that the program
  uses. A Go string is a sequence of bytes: here a list of \<open>char\<close>.
\<close>

subsection \<open>Package strings\<close>

definition has_prefix :: "string \<Rightarrow> string \<Rightarrow> bool" where
  "has_prefix s p \<longleftrightarrow> prefix p s"

definition has_suffix :: "string \<Rightarrow> string \<Rightarrow> bool" where
  "has_suffix s q \<longleftrightarrow> suffix q s"

fun contains :: "string \<Rightarrow> string \<Rightarrow> bool" where
  "contains [] q \<longleftrightarrow> q = []"
| "contains (c # cs) q \<longleftrightarrow> prefix q (c # cs) \<or> contains cs q"

definition trim_right_char :: "char \<Rightarrow> string \<Rightarrow> string" where
  "trim_right_char d s = rev (dropWhile (\<lambda>c. c = d) (rev s))"

definition trim_prefix :: "string \<Rightarrow> string \<Rightarrow> string" where
  "trim_prefix s p = (if prefix p s then drop (length p) s else s)"

fun join_with :: "string \<Rightarrow> string list \<Rightarrow> string" where
  "join_with sep [] = []"
| "join_with sep [x] = x"
| "join_with sep (x # y # ys) = x @ sep @ join_with sep (y # ys)"

fun split_on :: "char \<Rightarrow> string \<Rightarrow> string list" where
  "split_on d [] = [[]]"
| "split_on d (c # cs) =
     (if c = d then [] # split_on d cs
      else (case split_on d cs of [] \<Rightarrow> [[c]] | x # xs \<Rightarrow> (c # x) # xs))"

lemma split_on_nonempty [simp]: "split_on d s \<noteq> []"
  by (cases s) (auto split: list.splits)

lemma split_on_no_sep: "d \<notin> set s \<Longrightarrow> split_on d s = [s]"
  by (induction s) auto

lemma split_on_elems: "x \<in> set (split_on d s) \<Longrightarrow> d \<notin> set x"
  by (induction s arbitrary: x) (auto split: if_splits list.splits)

lemma split_on_append_sep: "split_on d (s @ d # t) = split_on d s @ split_on d t"
proof (induction s)
  case Nil
  show ?case by simp
next
  case (Cons c s)
  obtain x xs where s: "split_on d s = x # xs"
    by (cases "split_on d s") auto
  show ?case
  proof (cases "c = d")
    case True
    with Cons.IH show ?thesis by simp
  next
    case False
    with Cons.IH s show ?thesis by simp
  qed
qed

lemma join_with_Cons:
  "xs \<noteq> [] \<Longrightarrow> join_with sep (x # xs) = x @ sep @ join_with sep xs"
  by (cases xs) auto

lemma split_join:
  "xs \<noteq> [] \<Longrightarrow> \<forall>x\<in>set xs. d \<notin> set x \<Longrightarrow> split_on d (join_with [d] xs) = xs"
proof (induction xs)
  case Nil
  then show ?case by simp
next
  case (Cons x xs)
  show ?case
  proof (cases xs)
    case Nil
    with Cons.prems show ?thesis by (simp add: split_on_no_sep)
  next
    case (Cons y ys)
    then have "split_on d (join_with [d] xs) = xs"
      using Cons.IH Cons.prems by simp
    moreover have "join_with [d] (x # xs) = x @ d # join_with [d] xs"
      using Cons by simp
    ultimately show ?thesis
      using Cons.prems by (simp add: split_on_append_sep split_on_no_sep)
  qed
qed

lemma join_with_append:
  "xs \<noteq> [] \<Longrightarrow> ys \<noteq> [] \<Longrightarrow> join_with sep (xs @ ys) = join_with sep xs @ sep @ join_with sep ys"
proof (induction xs)
  case Nil
  then show ?case by simp
next
  case (Cons x xs)
  then show ?case by (cases "xs = []") (simp_all add: join_with_Cons)
qed

lemma contains_iff: "contains s q \<longleftrightarrow> (\<exists>u v. s = u @ q @ v)"
proof (induction s)
  case Nil
  show ?case by simp
next
  case (Cons c cs)
  show ?case
  proof
    assume "contains (c # cs) q"
    then consider "prefix q (c # cs)" | "contains cs q" by auto
    then show "\<exists>u v. c # cs = u @ q @ v"
    proof cases
      case 1
      then show ?thesis by (metis prefix_def append_Nil)
    next
      case 2
      with Cons.IH obtain u v where "cs = u @ q @ v" by blast
      then have "c # cs = (c # u) @ q @ v" by simp
      then show ?thesis by blast
    qed
  next
    assume "\<exists>u v. c # cs = u @ q @ v"
    then obtain u v where uv: "c # cs = u @ q @ v" by blast
    show "contains (c # cs) q"
    proof (cases u)
      case Nil
      with uv have "prefix q (c # cs)" by (auto simp: prefix_def)
      then show ?thesis by simp
    next
      case (Cons d u')
      with uv have "cs = u' @ q @ v" by simp
      with Cons.IH show ?thesis by auto
    qed
  qed
qed

lemma contains_self: "contains s s"
  by (auto simp: contains_iff intro: exI[of _ "[]"])

lemma trim_right_char_last:
  "trim_right_char d s = [] \<or> last (trim_right_char d s) \<noteq> d"
proof (cases "dropWhile (\<lambda>c. c = d) (rev s) = []")
  case True
  then show ?thesis by (simp add: trim_right_char_def)
next
  case False
  then have "hd (dropWhile (\<lambda>c. c = d) (rev s)) \<noteq> d"
    by (rule hd_dropWhile)
  with False show ?thesis by (simp add: trim_right_char_def last_rev)
qed

lemma trim_right_char_decomp: "\<exists>n. s = trim_right_char d s @ replicate n d"
proof -
  let ?t = "takeWhile (\<lambda>c. c = d) (rev s)"
  have "s = rev (?t @ dropWhile (\<lambda>c. c = d) (rev s))" by simp
  then have "s = trim_right_char d s @ rev ?t"
    by (simp only: trim_right_char_def rev_append)
  moreover have "?t = replicate (length ?t) d"
    by (rule replicate_eqI) (auto dest: set_takeWhileD)
  ultimately show ?thesis by (metis rev_replicate)
qed

subsection \<open>Numbers as text: strconv.Atoi and the verbs of fmt\<close>

definition digit_char :: "nat \<Rightarrow> char" where
  "digit_char n = char_of (48 + n)"

fun show_nat :: "nat \<Rightarrow> string" where
  "show_nat n = (if n < 10 then [digit_char n] else show_nat (n div 10) @ [digit_char (n mod 10)])"

declare show_nat.simps [simp del]

definition show_int :: "int \<Rightarrow> string" where
  "show_int i = (if i < 0 then CHR ''-'' # show_nat (nat (- i)) else show_nat (nat i))"

definition is_digit :: "char \<Rightarrow> bool" where
  "is_digit c \<longleftrightarrow> (48 :: nat) \<le> of_char c \<and> of_char c \<le> (57 :: nat)"

definition digit_val :: "char \<Rightarrow> nat" where
  "digit_val c = of_char c - 48"

definition read_nat :: "string \<Rightarrow> nat option" where
  "read_nat s =
     (if s \<noteq> [] \<and> list_all is_digit s then Some (foldl (\<lambda>n c. 10 * n + digit_val c) 0 s)
      else None)"

text \<open>
  \<open>strconv.Atoi\<close>: an optional sign, then at least one digit, and the value fits a 64-bit
  signed integer; anything else is an error.
\<close>

definition atoi :: "string \<Rightarrow> int option" where
  "atoi s =
     (let (sgn, ds) =
        (case s of [] \<Rightarrow> (1, [])
         | c # cs \<Rightarrow> if c = CHR ''-'' then (- 1, cs) else if c = CHR ''+'' then (1, cs) else (1, s))
      in case read_nat ds of
           None \<Rightarrow> None
         | Some n \<Rightarrow>
             (let i = sgn * int n in if - (2 ^ 63) \<le> i \<and> i < 2 ^ 63 then Some i else None))"

lemma digit_char_digit: "n < 10 \<Longrightarrow> is_digit (digit_char n) \<and> digit_val (digit_char n) = n"
  by (simp add: is_digit_def digit_char_def digit_val_def)

lemma show_nat_digits: "list_all is_digit (show_nat n) \<and> show_nat n \<noteq> []"
proof (induction n rule: show_nat.induct)
  case (1 n)
  then show ?case
    by (subst (1 2) show_nat.simps) (simp add: digit_char_digit)
qed

lemma foldl_show_nat: "foldl (\<lambda>n c. 10 * n + digit_val c) 0 (show_nat n) = n"
proof (induction n rule: show_nat.induct)
  case (1 n)
  then show ?case
    by (subst show_nat.simps) (simp add: digit_char_digit)
qed

lemma read_show_nat [simp]: "read_nat (show_nat n) = Some n"
  by (simp add: read_nat_def show_nat_digits foldl_show_nat)

lemma show_nat_hd: "c # cs = show_nat n \<Longrightarrow> is_digit c"
  using show_nat_digits[of n] by (metis list.pred_inject(2))

lemma atoi_show_int:
  assumes "- (2 ^ 63) \<le> i" and "i < 2 ^ 63"
  shows "atoi (show_int i) = Some i"
proof (cases "i < 0")
  case True
  with assms show ?thesis by (simp add: atoi_def show_int_def)
next
  case False
  obtain c cs where s: "show_nat (nat i) = c # cs"
    using show_nat_digits[of "nat i"] by (cases "show_nat (nat i)") auto
  have "is_digit c" using show_nat_hd s by metis
  then have "c \<noteq> CHR ''-''" and "c \<noteq> CHR ''+''"
    by (auto simp: is_digit_def)
  with False s assms read_show_nat[of "nat i"] show ?thesis
    by (simp add: atoi_def show_int_def)
qed

subsection \<open>The verb q of fmt: strconv.Quote\<close>

text \<open>
  Exact on ASCII. A byte of 0x80 or more passes unchanged, as Go leaves a printable rune;
  Go would write an unprintable rune or an invalid byte as an escape.
\<close>

definition hex_digit :: "nat \<Rightarrow> char" where
  "hex_digit n = (if n < 10 then char_of (48 + n) else char_of (87 + n))"

definition quote_char :: "char \<Rightarrow> string" where
  "quote_char c =
     (let n = of_char c :: nat in
      if n = 0x22 then [CHR 0x5C, CHR 0x22]
      else if n = 0x5C then [CHR 0x5C, CHR 0x5C]
      else if n = 0x07 then [CHR 0x5C, CHR ''a'']
      else if n = 0x08 then [CHR 0x5C, CHR ''b'']
      else if n = 0x0C then [CHR 0x5C, CHR ''f'']
      else if n = 0x0A then [CHR 0x5C, CHR ''n'']
      else if n = 0x0D then [CHR 0x5C, CHR ''r'']
      else if n = 0x09 then [CHR 0x5C, CHR ''t'']
      else if n = 0x0B then [CHR 0x5C, CHR ''v'']
      else if n < 0x20 \<or> n = 0x7F then [CHR 0x5C, CHR ''x'', hex_digit (n div 16), hex_digit (n mod 16)]
      else [c])"

definition go_quote :: "string \<Rightarrow> string" where
  "go_quote s = [CHR 0x22] @ concat (map quote_char s) @ [CHR 0x22]"

end
