(* ===== verification/GoPath.thy ===== *)
theory GoPath
  imports GoStrings
begin

text \<open>
  Go's \<open>path/filepath\<close> on Unix: \<open>Clean\<close>, \<open>Base\<close>, \<open>Join\<close> and \<open>IsAbs\<close>, as functions on the
  text of a path, and the list of components a path resolves to from the root directory.
\<close>

abbreviation slash :: char where
  "slash \<equiv> CHR ''/''"

subsection \<open>Definitions\<close>

definition is_abs :: "string \<Rightarrow> bool" where
  "is_abs p \<longleftrightarrow> has_prefix p ''/''"

text \<open>One component read left to right; the stack holds the components kept, top first.\<close>

definition clean_step :: "bool \<Rightarrow> string list \<Rightarrow> string \<Rightarrow> string list" where
  "clean_step rooted st c =
     (if c = '''' \<or> c = ''.'' then st
      else if c = ''..'' then
        (case st of
           [] \<Rightarrow> if rooted then [] else [c]
         | t # ts \<Rightarrow> if t = ''..'' then c # st else ts)
      else c # st)"

definition clean_comps :: "bool \<Rightarrow> string list \<Rightarrow> string list" where
  "clean_comps rooted cs = rev (foldl (clean_step rooted) [] cs)"

definition clean :: "string \<Rightarrow> string" where
  "clean p =
     (if p = '''' then ''.''
      else let cs = clean_comps (is_abs p) (split_on slash p)
           in if is_abs p then ''/'' @ join_with ''/'' cs
              else if cs = [] then ''.'' else join_with ''/'' cs)"

definition base :: "string \<Rightarrow> string" where
  "base p =
     (if p = '''' then ''.''
      else let q = trim_right_char slash p;
               e = rev (takeWhile (\<lambda>c. c \<noteq> slash) (rev q))
           in if e = '''' then ''/'' else e)"

definition join2 :: "string \<Rightarrow> string \<Rightarrow> string" where
  "join2 d n =
     (if d \<noteq> '''' then clean (d @ ''/'' @ n)
      else if n \<noteq> '''' then clean n else '''')"

text \<open>
  Where the kernel ends up when it follows a path from the root: the daemon's working
  directory is the root, and symbolic links are not modelled.
\<close>

definition resolve :: "string \<Rightarrow> string list" where
  "resolve p = clean_comps True (split_on slash p)"

definition path_string :: "string list \<Rightarrow> string" where
  "path_string cs = ''/'' @ join_with ''/'' cs"

text \<open>A component as it can occur in a resolved path, and a resolved path.\<close>

definition comp_ok :: "string \<Rightarrow> bool" where
  "comp_ok c \<longleftrightarrow> c \<noteq> '''' \<and> c \<noteq> ''.'' \<and> c \<noteq> ''..'' \<and> slash \<notin> set c"

definition comps_ok :: "string list \<Rightarrow> bool" where
  "comps_ok cs \<longleftrightarrow> list_all comp_ok cs"

subsection \<open>Cleaning\<close>

lemma clean_step_ok: "comp_ok c \<Longrightarrow> clean_step r st c = c # st"
  by (simp add: clean_step_def comp_ok_def)

lemma foldl_clean_ok: "comps_ok cs \<Longrightarrow> foldl (clean_step r) st cs = rev cs @ st"
  by (induction cs arbitrary: st) (auto simp: comps_ok_def clean_step_ok)

lemma clean_comps_ok [path_simps]: "comps_ok cs \<Longrightarrow> clean_comps r cs = cs"
  by (simp add: clean_comps_def foldl_clean_ok)

lemma clean_comps_snoc:
  "clean_comps r (cs @ [c]) = rev (clean_step r (rev (clean_comps r cs)) c)"
  by (simp add: clean_comps_def)

lemma clean_step_Nil [simp]: "clean_step r st [] = st"
  by (simp add: clean_step_def)

lemma clean_comps_append_ok:
  "comp_ok c \<Longrightarrow> clean_comps r (cs @ [c]) = clean_comps r cs @ [c]"
  by (simp add: clean_comps_snoc clean_step_ok)

lemma clean_rooted_ok:
  assumes "\<forall>c\<in>set cs. slash \<notin> set c" and "comps_ok st"
  shows "comps_ok (foldl (clean_step True) st cs)"
  using assms
proof (induction cs arbitrary: st)
  case Nil
  then show ?case by simp
next
  case (Cons c cs)
  have "comps_ok (clean_step True st c)"
    using Cons.prems
    by (auto simp: clean_step_def comps_ok_def comp_ok_def split: list.splits)
  with Cons show ?case by simp
qed

lemma resolve_ok [simp]: "comps_ok (resolve p)"
proof -
  have "comps_ok (foldl (clean_step True) [] (split_on slash p))"
    by (rule clean_rooted_ok) (auto simp: comps_ok_def dest: split_on_elems)
  then show ?thesis by (simp add: resolve_def clean_comps_def comps_ok_def list_all_rev)
qed

lemma is_abs_Cons: "is_abs p \<longleftrightarrow> (\<exists>q. p = slash # q)"
  by (auto simp: is_abs_def has_prefix_def prefix_def)

lemma is_abs_path_string [simp]: "is_abs (path_string cs)"
  by (simp add: is_abs_Cons path_string_def)

lemma split_path_string:
  "comps_ok cs \<Longrightarrow> split_on slash (path_string cs) = '''' # (if cs = [] then [''''] else cs)"
  by (auto simp: path_string_def comps_ok_def comp_ok_def list_all_iff split_join)

lemma resolve_path_string [path_simps]: "comps_ok cs \<Longrightarrow> resolve (path_string cs) = cs"
  by (auto simp: resolve_def split_path_string clean_comps_def foldl_clean_ok)

lemma path_string_inj:
  "comps_ok cs \<Longrightarrow> comps_ok ds \<Longrightarrow> path_string cs = path_string ds \<Longrightarrow> cs = ds"
  by (metis resolve_path_string)

lemma clean_abs: "is_abs p \<Longrightarrow> clean p = path_string (resolve p)"
  by (auto simp: clean_def path_string_def resolve_def is_abs_Cons)

lemma clean_path_string [path_simps]: "comps_ok cs \<Longrightarrow> clean (path_string cs) = path_string cs"
  by (simp add: clean_abs resolve_path_string)

text \<open>A relative path stays relative: cleaning never makes the first byte a slash.\<close>

lemma clean_rel_comps:
  assumes "\<forall>c\<in>set cs. slash \<notin> set c" and "\<forall>c\<in>set st. slash \<notin> set c \<and> c \<noteq> ''''"
  shows "\<forall>c\<in>set (foldl (clean_step False) st cs). slash \<notin> set c \<and> c \<noteq> ''''"
  using assms
proof (induction cs arbitrary: st)
  case Nil
  then show ?case by simp
next
  case (Cons c cs)
  have "\<forall>x\<in>set (clean_step False st c). slash \<notin> set x \<and> x \<noteq> ''''"
    using Cons.prems by (auto simp: clean_step_def split: list.splits)
  moreover have "\<forall>x\<in>set cs. slash \<notin> set x"
    using Cons.prems(1) by simp
  ultimately show ?case
    unfolding foldl.simps by (intro Cons.IH)
qed

lemma is_abs_join: "c \<noteq> '''' \<Longrightarrow> slash \<notin> set c \<Longrightarrow> \<not> is_abs (join_with ''/'' (c # cs))"
  by (cases c; cases cs) (auto simp: is_abs_Cons)

lemma is_abs_clean [simp]: "is_abs (clean p) = is_abs p"
proof (cases "is_abs p")
  case True
  then show ?thesis by (simp add: clean_abs)
next
  case False
  let ?cs = "clean_comps False (split_on slash p)"
  have ok: "\<forall>c\<in>set ?cs. slash \<notin> set c \<and> c \<noteq> ''''"
    using clean_rel_comps[of "split_on slash p" "[]"]
    by (auto simp: clean_comps_def dest: split_on_elems)
  have "\<not> is_abs (join_with ''/'' ?cs)" if "?cs \<noteq> []"
    using that ok is_abs_join by (metis list.set_intros(1) neq_Nil_conv)
  moreover have "\<not> is_abs ''.''" by (simp add: is_abs_Cons)
  ultimately show ?thesis using False by (simp add: clean_def Let_def)
qed

lemma clean_idem_abs: "is_abs p \<Longrightarrow> clean (clean p) = clean p"
  by (simp add: clean_abs resolve_path_string)

lemma resolve_clean_abs [path_simps]: "is_abs p \<Longrightarrow> resolve (clean p) = resolve p"
  by (simp add: clean_abs resolve_path_string resolve_ok)

subsection \<open>Base and Join\<close>

lemma base_notin: "p \<noteq> '''' \<Longrightarrow> slash \<notin> set p \<Longrightarrow> base p = p"
  by (simp add: base_def trim_right_char_def dropWhile_eq_id takeWhile_neq_id)

lemma base_result: "base p = ''/'' \<or> (base p \<noteq> '''' \<and> slash \<notin> set (base p))"
  using takeWhile_neq_notin[of slash "rev (trim_right_char slash p)"]
  by (auto simp: base_def Let_def)

text \<open>Which strings are their own base: the root, and every non-empty name without a slash.\<close>

lemma base_eq_iff: "base p = p \<longleftrightarrow> p = ''/'' \<or> (p \<noteq> '''' \<and> slash \<notin> set p)"
proof
  assume "base p = p"
  with base_result[of p] show "p = ''/'' \<or> (p \<noteq> '''' \<and> slash \<notin> set p)" by simp
next
  assume "p = ''/'' \<or> (p \<noteq> '''' \<and> slash \<notin> set p)"
  then show "base p = p"
  proof
    assume "p = ''/''"
    then show ?thesis by (simp add: base_def trim_right_char_def)
  next
    assume "p \<noteq> '''' \<and> slash \<notin> set p"
    then show ?thesis by (simp add: base_notin)
  qed
qed

lemma is_abs_append: "is_abs d \<Longrightarrow> is_abs (d @ s)"
  by (auto simp: is_abs_Cons)

lemma is_abs_nonempty: "is_abs d \<Longrightarrow> d \<noteq> ''''"
  by (auto simp: is_abs_Cons)

lemma resolve_slash_name:
  "comp_ok n \<Longrightarrow> resolve (d @ slash # n) = resolve d @ [n]"
  by (simp add: resolve_def split_on_append_sep split_on_no_sep comp_ok_def clean_comps_append_ok)

lemma join2_abs: "is_abs d \<Longrightarrow> join2 d n = path_string (resolve (d @ slash # n))"
  using clean_abs[of "d @ slash # n"]
  by (simp add: join2_def is_abs_append is_abs_nonempty)

lemma join2_name [path_simps]:
  "is_abs d \<Longrightarrow> comp_ok n \<Longrightarrow> join2 d n = path_string (resolve d @ [n])"
  by (simp add: join2_abs resolve_slash_name)

lemma comps_ok_snoc [simp]: "comps_ok (cs @ [c]) \<longleftrightarrow> comps_ok cs \<and> comp_ok c"
  by (simp add: comps_ok_def)

lemma comps_ok_Nil [simp]: "comps_ok []"
  by (simp add: comps_ok_def)

lemma resolve_join2_name [path_simps]:
  "is_abs d \<Longrightarrow> comp_ok n \<Longrightarrow> resolve (join2 d n) = resolve d @ [n]"
  by (simp add: join2_name resolve_path_string resolve_ok)

text \<open>Appending to the text of a path extends its last component.\<close>

lemma path_string_snoc_append:
  "path_string (cs @ [n]) @ s = path_string (cs @ [n @ s])"
  by (cases "cs = []") (simp_all add: path_string_def join_with_append)

lemma comp_ok_extend: "comp_ok n \<Longrightarrow> slash \<notin> set s \<Longrightarrow> length s > 2 \<Longrightarrow> comp_ok (n @ s)"
  by (auto simp: comp_ok_def append_eq_Cons_conv)

end
