(* ===== verification/GoErrors.thy ===== *)
theory GoErrors
  imports GoStrings
begin

text \<open>
  Go's error values and their texts. \<open>ErrMsg\<close> is an error made by \<open>fmt.Errorf\<close> without
  the verb w, \<open>ErrWrap\<close> one made with it (the text before the wrapped error, and that
  error); \<open>PathError\<close>, \<open>LinkError\<close> and \<open>ErrnoErr\<close> are the errors of packages os and
  syscall. The operations of the model return \<open>None\<close> for a nil error.
\<close>

datatype errno =
    ENOENT | EEXIST | ENOTDIR | EISDIR | EACCES | EPERM | EIO | ENOSPC
  | ENOTEMPTY | EBUSY | EINVAL | EROFS | EMFILE | EADDRINUSE | EAFNOSUPPORT | ENODEV | ENOTTY

fun errno_text :: "errno \<Rightarrow> string" where
  "errno_text ENOENT = ''no such file or directory''"
| "errno_text EEXIST = ''file exists''"
| "errno_text ENOTDIR = ''not a directory''"
| "errno_text EISDIR = ''is a directory''"
| "errno_text EACCES = ''permission denied''"
| "errno_text EPERM = ''operation not permitted''"
| "errno_text EIO = ''input/output error''"
| "errno_text ENOSPC = ''no space left on device''"
| "errno_text ENOTEMPTY = ''directory not empty''"
| "errno_text EBUSY = ''device or resource busy''"
| "errno_text EINVAL = ''invalid argument''"
| "errno_text EROFS = ''read-only file system''"
| "errno_text EMFILE = ''too many open files''"
| "errno_text EADDRINUSE = ''address already in use''"
| "errno_text EAFNOSUPPORT = ''address family not supported by protocol''"
| "errno_text ENODEV = ''no such device''"
| "errno_text ENOTTY = ''inappropriate ioctl for device''"

datatype go_error =
    ErrMsg string
  | ErrWrap string go_error
  | PathError string string errno
  | LinkError string string string errno
  | ErrnoErr errno

fun error_text :: "go_error \<Rightarrow> string" where
  "error_text (ErrMsg s) = s"
| "error_text (ErrWrap s e) = s @ error_text e"
| "error_text (PathError opn p e) = opn @ '' '' @ p @ '': '' @ errno_text e"
| "error_text (LinkError opn p q e) = opn @ '' '' @ p @ '' '' @ q @ '': '' @ errno_text e"
| "error_text (ErrnoErr e) = errno_text e"

text \<open>\<open>os.IsNotExist\<close> looks at the error itself and not through a wrapping.\<close>

fun is_not_exist :: "go_error \<Rightarrow> bool" where
  "is_not_exist (PathError opn p e) \<longleftrightarrow> e = ENOENT"
| "is_not_exist (LinkError opn p q e) \<longleftrightarrow> e = ENOENT"
| "is_not_exist (ErrnoErr e) \<longleftrightarrow> e = ENOENT"
| "is_not_exist (ErrMsg s) \<longleftrightarrow> False"
| "is_not_exist (ErrWrap s e) \<longleftrightarrow> False"

text \<open>\<open>strconv.Atoi\<close> with its error.\<close>

definition go_atoi :: "string \<Rightarrow> go_error + int" where
  "go_atoi s =
     (case atoi s of
        Some i \<Rightarrow> Inr i
      | None \<Rightarrow>
          Inl (ErrMsg (''strconv.Atoi: parsing '' @ go_quote s @ '': '' @
            (if (case s of [] \<Rightarrow> None
                 | c # cs \<Rightarrow> read_nat (if c = CHR ''-'' \<or> c = CHR ''+'' then cs else s)) = None
             then ''invalid syntax'' else ''value out of range''))))"

lemma go_atoi_show_int:
  "- (2 ^ 63) \<le> i \<Longrightarrow> i < 2 ^ 63 \<Longrightarrow> go_atoi (show_int i) = Inr i"
  by (simp add: go_atoi_def atoi_show_int)

text \<open>The first of two errors, as a decoder that goes on after an error reports it.\<close>

fun first_err :: "go_error option \<Rightarrow> go_error option \<Rightarrow> go_error option" where
  "first_err None e = e"
| "first_err (Some e) _ = Some e"

lemma first_err_None [simp]: "first_err a b = None \<longleftrightarrow> a = None \<and> b = None"
  by (cases a) auto

end
