(* ===== verification/GoJson.thy ===== *)
theory GoJson
  imports GoErrors "HOL-Library.Word"
begin

text \<open>
  JSON values and the part of Go's \<open>encoding/json\<close> that moves them into and out of typed
  data. A number keeps its literal text, because Go converts it only when it meets the
  type of the target. A decoder gets the value and what the target holds before, and
  returns what it holds afterwards and the error: Go goes on after a value of the wrong
  type, leaves that target as it was and reports the first such error at the end.
\<close>

datatype json =
    JNull
  | JBool bool
  | JNum string
  | JStr string
  | JArr "json list"
  | JObj "(string \<times> json) list"

type_synonym 'a decoder = "json \<Rightarrow> 'a \<Rightarrow> 'a \<times> go_error option"

fun value_desc :: "json \<Rightarrow> string" where
  "value_desc JNull = ''null''"
| "value_desc (JBool b) = ''bool''"
| "value_desc (JNum n) = ''number''"
| "value_desc (JStr s) = ''string''"
| "value_desc (JArr js) = ''array''"
| "value_desc (JObj ms) = ''object''"

definition type_error :: "string \<Rightarrow> string \<Rightarrow> string \<Rightarrow> go_error" where
  "type_error val at ty =
     ErrMsg (''json: cannot unmarshal '' @ val @ '' into '' @ at @ '' of type '' @ ty)"

subsection \<open>Basic types\<close>

fun dec_string :: "string \<Rightarrow> string \<Rightarrow> string decoder" where
  "dec_string at ty JNull v = (v, None)"
| "dec_string at ty (JStr s) v = (s, None)"
| "dec_string at ty j v = (v, Some (type_error (value_desc j) at ty))"

fun dec_bool :: "string \<Rightarrow> bool decoder" where
  "dec_bool at JNull v = (v, None)"
| "dec_bool at (JBool b) v = (b, None)"
| "dec_bool at j v = (v, Some (type_error (value_desc j) at ''bool''))"

text \<open>\<open>strconv.ParseUint\<close> with 32 bits takes digits only; the value must fit.\<close>

fun dec_uint32 :: "string \<Rightarrow> 32 word decoder" where
  "dec_uint32 at JNull v = (v, None)"
| "dec_uint32 at (JNum n) v =
     (case read_nat n of
        Some k \<Rightarrow> if k < 2 ^ 32 then (of_nat k, None)
                  else (v, Some (type_error (''number '' @ n) at ''uint32''))
      | None \<Rightarrow> (v, Some (type_error (''number '' @ n) at ''uint32'')))"
| "dec_uint32 at j v = (v, Some (type_error (value_desc j) at ''uint32''))"

text \<open>
  A JSON number never starts with a plus sign, so \<open>strconv.ParseInt\<close> with 64 bits agrees
  with \<open>atoi\<close> on it.
\<close>

fun dec_int64 :: "string \<Rightarrow> string \<Rightarrow> int decoder" where
  "dec_int64 at ty JNull v = (v, None)"
| "dec_int64 at ty (JNum n) v =
     (case atoi n of
        Some i \<Rightarrow> (i, None)
      | None \<Rightarrow> (v, Some (type_error (''number '' @ n) at ty)))"
| "dec_int64 at ty j v = (v, Some (type_error (value_desc j) at ty))"

subsection \<open>Structs\<close>

text \<open>
  The name of a member selects the field with exactly that name and otherwise the first
  one whose name agrees with it under case folding. The long s (bytes C5 BF) and the
  Kelvin sign (bytes E2 84 AA) fold to the letters S and K; no other character outside
  ASCII folds to an ASCII letter.
\<close>

definition upper :: "char \<Rightarrow> char" where
  "upper c =
     (let n = of_char c :: nat in if 97 \<le> n \<and> n \<le> 122 then char_of (n - 32) else c)"

function fold_name :: "string \<Rightarrow> string" where
  "fold_name [] = []"
| "fold_name (c # cs) =
     (if prefix [CHR 0xC5, CHR 0xBF] (c # cs) then CHR ''S'' # fold_name (drop 1 cs)
      else if prefix [CHR 0xE2, CHR 0x84, CHR 0xAA] (c # cs) then CHR ''K'' # fold_name (drop 2 cs)
      else upper c # fold_name cs)"
  by pat_completeness auto
termination
  by (relation "measure length") auto

type_synonym 'a fields = "(string \<times> 'a decoder) list"

definition find_field :: "'a fields \<Rightarrow> string \<Rightarrow> 'a decoder option" where
  "find_field fs k =
     (case map_of fs k of
        Some d \<Rightarrow> Some d
      | None \<Rightarrow> map_option snd (find (\<lambda>f. fold_name (fst f) = fold_name k) fs))"

fun dec_members :: "'a fields \<Rightarrow> (string \<times> json) list \<Rightarrow> 'a \<Rightarrow> 'a \<times> go_error option" where
  "dec_members fs [] v = (v, None)"
| "dec_members fs ((k, j) # ms) v =
     (case find_field fs k of
        None \<Rightarrow> dec_members fs ms v
      | Some d \<Rightarrow>
          (let (v1, e1) = d j v; (v2, e2) = dec_members fs ms v1 in (v2, first_err e1 e2)))"

fun dec_struct :: "string \<Rightarrow> string \<Rightarrow> 'a fields \<Rightarrow> 'a decoder" where
  "dec_struct at ty fs JNull v = (v, None)"
| "dec_struct at ty fs (JObj ms) v = dec_members fs ms v"
| "dec_struct at ty fs j v = (v, Some (type_error (value_desc j) at ty))"

text \<open>A field of a struct: how to read it, and how to write it back.\<close>

definition field :: "('a \<Rightarrow> 'b) \<Rightarrow> ('b \<Rightarrow> 'a \<Rightarrow> 'a) \<Rightarrow> 'b decoder \<Rightarrow> 'a decoder" where
  "field get put d j r = (let (x, e) = d j (get r) in (put x r, e))"

subsection \<open>Slices\<close>

text \<open>A slice of values decoded into a nil slice: every element starts from the zero value.\<close>

fun dec_elems :: "'a decoder \<Rightarrow> 'a \<Rightarrow> json list \<Rightarrow> 'a list \<times> go_error option" where
  "dec_elems d z [] = ([], None)"
| "dec_elems d z (j # js) =
     (let (x, e1) = d j z; (xs, e2) = dec_elems d z js in (x # xs, first_err e1 e2))"

fun dec_list :: "string \<Rightarrow> string \<Rightarrow> 'a decoder \<Rightarrow> 'a \<Rightarrow> json \<Rightarrow> 'a list \<times> go_error option" where
  "dec_list at ty d z (JArr js) = dec_elems d z js"
| "dec_list at ty d z JNull = ([], None)"
| "dec_list at ty d z j = ([], Some (type_error (value_desc j) at ty))"

lemma dec_elems_map:
  "(\<And>x. x \<in> set xs \<Longrightarrow> d (enc x) z = (x, None)) \<Longrightarrow> dec_elems d z (map enc xs) = (xs, None)"
  by (induction xs) auto

subsection \<open>Encoding\<close>

definition enc_nat :: "nat \<Rightarrow> json" where
  "enc_nat n = JNum (show_nat n)"

definition enc_int :: "int \<Rightarrow> json" where
  "enc_int i = JNum (show_int i)"

text \<open>A member that the option omitempty drops when it holds the zero value of its type.\<close>

definition omit_if :: "bool \<Rightarrow> string \<Rightarrow> json \<Rightarrow> (string \<times> json) list" where
  "omit_if z k j = (if z then [] else [(k, j)])"

lemma dec_uint32_enc [simp]: "dec_uint32 at (enc_nat (unat w)) v = (w, None)"
proof -
  have "unat w < 2 ^ 32" using unsigned_less[of w] by simp
  then show ?thesis by (simp add: enc_nat_def)
qed

lemma dec_int64_enc [simp]:
  "- (2 ^ 63) \<le> i \<Longrightarrow> i < 2 ^ 63 \<Longrightarrow> dec_int64 at ty (enc_int i) v = (i, None)"
  by (simp add: enc_int_def atoi_show_int)

text \<open>Members whose name no field has, under case folding either, are ignored.\<close>

lemma find_field_fold:
  "(\<And>f. f \<in> set fs \<Longrightarrow> fold_name (fst f) \<noteq> fold_name k) \<Longrightarrow> find_field fs k = None"
  by (force simp: find_field_def find_None_iff map_of_eq_None_iff split: option.split)

lemma dec_members_append:
  "dec_members fs (ms @ ns) v =
     (let (v1, e1) = dec_members fs ms v; (v2, e2) = dec_members fs ns v1
      in (v2, first_err e1 e2))"
proof (induction ms arbitrary: v)
  case Nil
  show ?case by simp
next
  case (Cons m ms)
  obtain k j where m: "m = (k, j)" by (cases m)
  have assoc: "first_err (first_err a b) c = first_err a (first_err b c)" for a b c
    by (cases a) auto
  show ?case
    by (cases "find_field fs k") (simp_all add: m Cons.IH Let_def assoc split: prod.splits)
qed

end
