(* ===== verification/Protocol.thy ===== *)
theory Protocol
  imports GoJson
begin

text \<open>
  The wire protocol (pkg/protocol.go): message types, the envelope, the payloads, and how
  a payload is put into an envelope and read back. A Go string type is open, so message
  types and lifecycle states are strings with named constants. A raw message is the JSON
  value it holds; \<open>None\<close> is the nil slice.
\<close>

subsection \<open>Message types and lifecycle states\<close>

type_synonym message_type = string

definition msg_ping :: message_type where "msg_ping = ''ping''"
definition msg_inject_secret :: message_type where "msg_inject_secret = ''inject_secret''"
definition msg_mount :: message_type where "msg_mount = ''mount''"
definition msg_shutdown :: message_type where "msg_shutdown = ''shutdown''"
definition msg_set_config :: message_type where "msg_set_config = ''set_config''"
definition msg_inject_ssh_key :: message_type where "msg_inject_ssh_key = ''inject_ssh_key''"
definition msg_pong :: message_type where "msg_pong = ''pong''"
definition msg_lifecycle :: message_type where "msg_lifecycle = ''lifecycle''"
definition msg_ack :: message_type where "msg_ack = ''ack''"
definition msg_get_health :: message_type where "msg_get_health = ''get_health''"
definition msg_health :: message_type where "msg_health = ''health''"

lemmas msg_defs = msg_ping_def msg_inject_secret_def msg_mount_def msg_shutdown_def
  msg_set_config_def msg_inject_ssh_key_def msg_pong_def msg_lifecycle_def msg_ack_def
  msg_get_health_def msg_health_def

type_synonym lifecycle_state = string

definition state_booting :: lifecycle_state where "state_booting = ''booting''"
definition state_ready :: lifecycle_state where "state_ready = ''ready''"
definition state_healthy :: lifecycle_state where "state_healthy = ''healthy''"
definition state_degraded :: lifecycle_state where "state_degraded = ''degraded''"
definition state_shutdown :: lifecycle_state where "state_shutdown = ''shutdown''"

lemmas state_defs = state_booting_def state_ready_def state_healthy_def state_degraded_def
  state_shutdown_def

subsection \<open>Envelope and payloads\<close>

record envelope =
  env_type :: message_type
  env_payload :: "json option"

record lifecycle_payload =
  lp_state :: lifecycle_state
  lp_message :: string

record secret_payload =
  sp_name :: string
  sp_value :: string
  sp_mode :: "32 word"

record mount_payload =
  mp_tag :: string
  mp_guest_path :: string
  mp_fs_type :: string
  mp_read_only :: bool

record ack_payload =
  ap_reply_to :: message_type
  ap_ok :: bool
  ap_error :: string

record agent_status =
  as_name :: string
  as_running :: bool
  as_session :: string
  as_restarts :: int
  as_error :: string

record health_payload =
  hp_state :: lifecycle_state
  hp_agents :: "agent_status list"
  hp_uptime :: int

record shutdown_payload =
  sd_reason :: string

record config_payload =
  cp_content :: string

record ssh_key_payload =
  kp_user :: string
  kp_public_key :: string

text \<open>The zero value of each type that is decoded into.\<close>

definition zero_envelope :: envelope where
  "zero_envelope = \<lparr>env_type = '''', env_payload = None\<rparr>"

definition zero_secret :: secret_payload where
  "zero_secret = \<lparr>sp_name = '''', sp_value = '''', sp_mode = 0\<rparr>"

definition zero_mount :: mount_payload where
  "zero_mount = \<lparr>mp_tag = '''', mp_guest_path = '''', mp_fs_type = '''', mp_read_only = False\<rparr>"

definition zero_agent :: agent_status where
  "zero_agent = \<lparr>as_name = '''', as_running = False, as_session = '''', as_restarts = 0, as_error = ''''\<rparr>"

definition zero_shutdown :: shutdown_payload where
  "zero_shutdown = \<lparr>sd_reason = ''''\<rparr>"

definition zero_config :: config_payload where
  "zero_config = \<lparr>cp_content = ''''\<rparr>"

definition zero_ssh_key :: ssh_key_payload where
  "zero_ssh_key = \<lparr>kp_user = '''', kp_public_key = ''''\<rparr>"

subsection \<open>Marshalling\<close>

definition enc_envelope :: "envelope \<Rightarrow> json" where
  "enc_envelope e =
     JObj ((''type'', JStr (env_type e)) #
           (case env_payload e of None \<Rightarrow> [] | Some j \<Rightarrow> [(''payload'', j)]))"

definition enc_lifecycle :: "lifecycle_payload \<Rightarrow> json" where
  "enc_lifecycle p =
     JObj ([(''state'', JStr (lp_state p))] @
           omit_if (lp_message p = '''') ''message'' (JStr (lp_message p)))"

definition enc_secret :: "secret_payload \<Rightarrow> json" where
  "enc_secret p =
     JObj ([(''name'', JStr (sp_name p)), (''value'', JStr (sp_value p))] @
           omit_if (sp_mode p = 0) ''mode'' (enc_nat (unat (sp_mode p))))"

definition enc_mount :: "mount_payload \<Rightarrow> json" where
  "enc_mount p =
     JObj ([(''tag'', JStr (mp_tag p)), (''guest_path'', JStr (mp_guest_path p)),
            (''fs_type'', JStr (mp_fs_type p))] @
           omit_if (\<not> mp_read_only p) ''read_only'' (JBool (mp_read_only p)))"

definition enc_ack :: "ack_payload \<Rightarrow> json" where
  "enc_ack p =
     JObj ([(''reply_to'', JStr (ap_reply_to p)), (''ok'', JBool (ap_ok p))] @
           omit_if (ap_error p = '''') ''error'' (JStr (ap_error p)))"

definition enc_agent :: "agent_status \<Rightarrow> json" where
  "enc_agent p =
     JObj ([(''name'', JStr (as_name p)), (''running'', JBool (as_running p))] @
           omit_if (as_session p = '''') ''session'' (JStr (as_session p)) @
           [(''restarts'', enc_int (as_restarts p))] @
           omit_if (as_error p = '''') ''error'' (JStr (as_error p)))"

definition enc_health :: "health_payload \<Rightarrow> json" where
  "enc_health p =
     JObj ([(''state'', JStr (hp_state p))] @
           omit_if (hp_agents p = []) ''agents'' (JArr (map enc_agent (hp_agents p))) @
           [(''uptime_seconds'', enc_int (hp_uptime p))])"

definition enc_shutdown :: "shutdown_payload \<Rightarrow> json" where
  "enc_shutdown p = JObj (omit_if (sd_reason p = '''') ''reason'' (JStr (sd_reason p)))"

definition enc_config :: "config_payload \<Rightarrow> json" where
  "enc_config p = JObj [(''content'', JStr (cp_content p))]"

definition enc_ssh_key :: "ssh_key_payload \<Rightarrow> json" where
  "enc_ssh_key p =
     JObj [(''user'', JStr (kp_user p)), (''public_key'', JStr (kp_public_key p))]"

subsection \<open>Unmarshalling\<close>

definition go_field :: "string \<Rightarrow> string \<Rightarrow> string" where
  "go_field st f = ''Go struct field '' @ st @ ''.'' @ f"

definition go_value :: string where
  "go_value = ''Go value''"

definition dec_envelope :: "envelope decoder" where
  "dec_envelope = dec_struct go_value ''stereosd.Envelope''
     [(''type'', field env_type (\<lambda>x. env_type_update (\<lambda>_. x))
         (dec_string (go_field ''Envelope'' ''type'') ''stereosd.MessageType'')),
      (''payload'', \<lambda>j e. (e\<lparr>env_payload := Some j\<rparr>, None))]"

definition dec_secret :: "secret_payload decoder" where
  "dec_secret = dec_struct go_value ''stereosd.SecretPayload''
     [(''name'', field sp_name (\<lambda>x. sp_name_update (\<lambda>_. x))
         (dec_string (go_field ''SecretPayload'' ''name'') ''string'')),
      (''value'', field sp_value (\<lambda>x. sp_value_update (\<lambda>_. x))
         (dec_string (go_field ''SecretPayload'' ''value'') ''string'')),
      (''mode'', field sp_mode (\<lambda>x. sp_mode_update (\<lambda>_. x))
         (dec_uint32 (go_field ''SecretPayload'' ''mode'')))]"

definition dec_mount :: "mount_payload decoder" where
  "dec_mount = dec_struct go_value ''stereosd.MountPayload''
     [(''tag'', field mp_tag (\<lambda>x. mp_tag_update (\<lambda>_. x))
         (dec_string (go_field ''MountPayload'' ''tag'') ''string'')),
      (''guest_path'', field mp_guest_path (\<lambda>x. mp_guest_path_update (\<lambda>_. x))
         (dec_string (go_field ''MountPayload'' ''guest_path'') ''string'')),
      (''fs_type'', field mp_fs_type (\<lambda>x. mp_fs_type_update (\<lambda>_. x))
         (dec_string (go_field ''MountPayload'' ''fs_type'') ''string'')),
      (''read_only'', field mp_read_only (\<lambda>x. mp_read_only_update (\<lambda>_. x))
         (dec_bool (go_field ''MountPayload'' ''read_only'')))]"

definition dec_agent :: "agent_status decoder" where
  "dec_agent = dec_struct go_value ''stereosd.AgentStatusPayload''
     [(''name'', field as_name (\<lambda>x. as_name_update (\<lambda>_. x))
         (dec_string (go_field ''AgentStatusPayload'' ''name'') ''string'')),
      (''running'', field as_running (\<lambda>x. as_running_update (\<lambda>_. x))
         (dec_bool (go_field ''AgentStatusPayload'' ''running''))),
      (''session'', field as_session (\<lambda>x. as_session_update (\<lambda>_. x))
         (dec_string (go_field ''AgentStatusPayload'' ''session'') ''string'')),
      (''restarts'', field as_restarts (\<lambda>x. as_restarts_update (\<lambda>_. x))
         (dec_int64 (go_field ''AgentStatusPayload'' ''restarts'') ''int'')),
      (''error'', field as_error (\<lambda>x. as_error_update (\<lambda>_. x))
         (dec_string (go_field ''AgentStatusPayload'' ''error'') ''string''))]"

definition dec_shutdown :: "shutdown_payload decoder" where
  "dec_shutdown = dec_struct go_value ''stereosd.ShutdownPayload''
     [(''reason'', field sd_reason (\<lambda>x. sd_reason_update (\<lambda>_. x))
         (dec_string (go_field ''ShutdownPayload'' ''reason'') ''string''))]"

definition dec_config :: "config_payload decoder" where
  "dec_config = dec_struct go_value ''stereosd.ConfigPayload''
     [(''content'', field cp_content (\<lambda>x. cp_content_update (\<lambda>_. x))
         (dec_string (go_field ''ConfigPayload'' ''content'') ''string''))]"

definition dec_ssh_key :: "ssh_key_payload decoder" where
  "dec_ssh_key = dec_struct go_value ''stereosd.SSHKeyPayload''
     [(''user'', field kp_user (\<lambda>x. kp_user_update (\<lambda>_. x))
         (dec_string (go_field ''SSHKeyPayload'' ''user'') ''string'')),
      (''public_key'', field kp_public_key (\<lambda>x. kp_public_key_update (\<lambda>_. x))
         (dec_string (go_field ''SSHKeyPayload'' ''public_key'') ''string''))]"

subsection \<open>NewEnvelope and DecodePayload\<close>

text \<open>
  \<open>new_envelope t p\<close>: \<open>p\<close> is \<open>None\<close> for a nil payload and otherwise what marshalling the
  payload gives. The payload types of the program all marshal (\<open>Inr\<close>).
\<close>

definition new_envelope :: "message_type \<Rightarrow> (go_error + json) option \<Rightarrow> go_error + envelope" where
  "new_envelope t p =
     (case p of
        None \<Rightarrow> Inr \<lparr>env_type = t, env_payload = None\<rparr>
      | Some (Inl e) \<Rightarrow> Inl (ErrWrap (''marshal payload for '' @ t @ '': '') e)
      | Some (Inr j) \<Rightarrow> Inr \<lparr>env_type = t, env_payload = Some j\<rparr>)"

definition decode_payload :: "'a decoder \<Rightarrow> envelope \<Rightarrow> 'a \<Rightarrow> 'a \<times> go_error option" where
  "decode_payload d e target =
     (case env_payload e of
        None \<Rightarrow> (target, Some (ErrMsg (''envelope '' @ env_type e @ '' has no payload'')))
      | Some j \<Rightarrow> d j target)"

subsection \<open>Round trips\<close>

lemmas dec_defs = dec_envelope_def dec_secret_def dec_mount_def dec_agent_def dec_shutdown_def
  dec_config_def dec_ssh_key_def

lemmas enc_defs = enc_envelope_def enc_secret_def enc_mount_def enc_agent_def enc_shutdown_def
  enc_config_def enc_ssh_key_def

lemmas zero_defs = zero_envelope_def zero_secret_def zero_mount_def zero_agent_def
  zero_shutdown_def zero_config_def zero_ssh_key_def

lemma dec_enc_envelope: "dec_envelope (enc_envelope e) zero_envelope = (e, None)"
  by (cases e) (simp add: dec_defs enc_defs zero_defs find_field_def field_def split: option.split)

lemma dec_enc_secret: "dec_secret (enc_secret p) zero_secret = (p, None)"
  by (cases p) (simp add: dec_defs enc_defs zero_defs find_field_def field_def omit_if_def)

lemma dec_enc_mount: "dec_mount (enc_mount p) zero_mount = (p, None)"
  by (cases p) (simp add: dec_defs enc_defs zero_defs find_field_def field_def omit_if_def)

lemma dec_enc_agent:
  "- (2 ^ 63) \<le> as_restarts p \<Longrightarrow> as_restarts p < 2 ^ 63 \<Longrightarrow>
   dec_agent (enc_agent p) zero_agent = (p, None)"
  by (cases p) (simp add: dec_defs enc_defs zero_defs find_field_def field_def omit_if_def)

lemma dec_enc_shutdown: "dec_shutdown (enc_shutdown p) zero_shutdown = (p, None)"
  by (cases p) (simp add: dec_defs enc_defs zero_defs find_field_def field_def omit_if_def)

lemma dec_enc_config: "dec_config (enc_config p) zero_config = (p, None)"
  by (cases p) (simp add: dec_defs enc_defs zero_defs find_field_def field_def)

lemma dec_enc_ssh_key: "dec_ssh_key (enc_ssh_key p) zero_ssh_key = (p, None)"
  by (cases p) (simp add: dec_defs enc_defs zero_defs find_field_def field_def)

end
