(* ===== verification/GoOS.thy ===== *)
theory GoOS
  imports GoPath Protocol "HOL-Library.Char_ord" "HOL-Library.List_Lexorder"
begin

unbundle bit_operations_syntax

text \<open>
  The world outside the program: the file system, the user and group databases, the clock,
  the commands that were run and the signals and messages that were sent. Every call into
  it may fail: the field \<open>w_faults\<close> says what happens to the n-th call, and a theorem that
  holds for every value of it holds for every pattern of failures. Symbolic links, hard
  links and mount points are not modelled, and the daemon runs as the user whose ids the
  world holds, with the root directory as its working directory.
\<close>

subsection \<open>Files\<close>

record meta =
  m_mode :: "32 word"
  m_uid :: int
  m_gid :: int

datatype node = File meta string | Dir meta

fun node_meta :: "node \<Rightarrow> meta" where
  "node_meta (File m c) = m"
| "node_meta (Dir m) = m"

fun set_meta :: "meta \<Rightarrow> node \<Rightarrow> node" where
  "set_meta m (File m' c) = File m c"
| "set_meta m (Dir m') = Dir m"

fun is_dir :: "node option \<Rightarrow> bool" where
  "is_dir (Some (Dir m)) \<longleftrightarrow> True"
| "is_dir _ \<longleftrightarrow> False"

type_synonym path = "string list"
type_synonym fsys = "(path \<times> node) list"

definition lookup :: "fsys \<Rightarrow> path \<Rightarrow> node option" where
  "lookup f p = map_of f p"

definition put :: "path \<Rightarrow> node \<Rightarrow> fsys \<Rightarrow> fsys" where
  "put p n f = AList.update p n f"

definition del :: "path \<Rightarrow> fsys \<Rightarrow> fsys" where
  "del p f = AList.delete p f"

definition child_entries :: "fsys \<Rightarrow> path \<Rightarrow> (string \<times> node) list" where
  "child_entries f p =
     map (\<lambda>(q, n). (last q, n)) (filter (\<lambda>(q, n). q \<noteq> [] \<and> butlast q = p) f)"

text \<open>
  Well-formed: one entry per path, the root is a directory, the directory of every entry
  is a directory, and the components are names.
\<close>

definition fs_ok :: "fsys \<Rightarrow> bool" where
  "fs_ok f \<longleftrightarrow> distinct (map fst f) \<and> is_dir (lookup f []) \<and>
     (\<forall>(q, n) \<in> set f. comps_ok q \<and> is_dir (lookup f (butlast q)))"

subsection \<open>The world\<close>

text \<open>
  A fault of a call: the error number, and how many bytes a failing write got onto the
  device before it failed.
\<close>

datatype fault = Fault errno nat

datatype event =
    Cmd "string list"
  | Signal int int
  | Push envelope

record user_entry =
  ue_uid :: string
  ue_gid :: string
  ue_home :: string

record world =
  w_fs :: fsys
  w_hist :: "fsys list"
  w_umask :: "32 word"
  w_uid :: int
  w_gid :: int
  w_users :: "(string \<times> user_entry) list"
  w_groups :: "(string \<times> string) list"
  w_clock :: int
  w_tick :: nat
  w_faults :: "nat \<Rightarrow> fault option"
  w_trace :: "event list"

text \<open>A world in which nothing fails, at its start: the umask is 022 and root runs the daemon.\<close>

definition quiet_world :: "fsys \<Rightarrow> world" where
  "quiet_world f =
     \<lparr>w_fs = f, w_hist = [], w_umask = 0x12, w_uid = 0, w_gid = 0, w_users = [], w_groups = [],
      w_clock = 0, w_tick = 0, w_faults = \<lambda>n. None, w_trace = []\<rparr>"

text \<open>One call into the environment: its fault, and the world with the call counted.\<close>

definition call :: "world \<Rightarrow> fault option \<times> world" where
  "call w = (w_faults w (w_tick w), w\<lparr>w_tick := Suc (w_tick w)\<rparr>)"

text \<open>
  Every change of the file system goes through \<open>set_fs\<close>, which also records the file
  system another process can see from then on.
\<close>

definition set_fs :: "fsys \<Rightarrow> world \<Rightarrow> world" where
  "set_fs f w = w\<lparr>w_fs := f, w_hist := w_hist w @ [f]\<rparr>"

definition emit :: "event \<Rightarrow> world \<Rightarrow> world" where
  "emit e w = w\<lparr>w_trace := w_trace w @ [e]\<rparr>"

text \<open>The commands of a trace, in order, each with its arguments.\<close>

fun cmds_of :: "event list \<Rightarrow> string list list" where
  "cmds_of [] = []"
| "cmds_of (Cmd c # es) = c # cmds_of es"
| "cmds_of (_ # es) = cmds_of es"

definition cmds :: "world \<Rightarrow> string list list" where
  "cmds w = cmds_of (w_trace w)"

lemma cmds_of_append [simp]: "cmds_of (a @ b) = cmds_of a @ cmds_of b"
  by (induction a rule: cmds_of.induct) auto

subsection \<open>Modes\<close>

text \<open>
  The mode bits of an \<open>os.FileMode\<close> that reach the kernel: nine permission bits, and
  set-user-id, set-group-id and sticky, which Go keeps in bits 23, 22 and 20.
\<close>

definition syscall_mode :: "32 word \<Rightarrow> 32 word" where
  "syscall_mode m =
     (m AND 0x1FF) OR (if bit m 23 then 0x800 else 0) OR (if bit m 22 then 0x400 else 0)
       OR (if bit m 20 then 0x200 else 0)"

definition create_mode :: "32 word \<Rightarrow> world \<Rightarrow> 32 word" where
  "create_mode m w = syscall_mode m AND NOT (w_umask w)"

subsection \<open>System calls\<close>

text \<open>
  Following a path: the error of the first proper prefix that is not a directory.
\<close>

fun walk_error :: "fsys \<Rightarrow> path \<Rightarrow> path \<Rightarrow> errno option" where
  "walk_error f done [] = None"
| "walk_error f done [c] = (case lookup f done of
       None \<Rightarrow> Some ENOENT | Some (File m t) \<Rightarrow> Some ENOTDIR | Some (Dir m) \<Rightarrow> None)"
| "walk_error f done (c # d # cs) = (case lookup f done of
       None \<Rightarrow> Some ENOENT | Some (File m t) \<Rightarrow> Some ENOTDIR
     | Some (Dir m) \<Rightarrow> walk_error f (done @ [c]) (d # cs))"

type_synonym outcome = "go_error option \<times> world"

text \<open>\<open>os.WriteFile\<close>: open with truncation, write, close.\<close>

definition open_trunc :: "string \<Rightarrow> 32 word \<Rightarrow> world \<Rightarrow> outcome" where
  "open_trunc p perm w0 =
     (case call w0 of
        (Some (Fault e k), w) \<Rightarrow> (Some (PathError ''open'' p e), w)
      | (None, w) \<Rightarrow>
          (case walk_error (w_fs w) [] (resolve p) of
             Some e \<Rightarrow> (Some (PathError ''open'' p e), w)
           | None \<Rightarrow>
               (case lookup (w_fs w) (resolve p) of
                  Some (Dir m) \<Rightarrow> (Some (PathError ''open'' p EISDIR), w)
                | Some (File m t) \<Rightarrow> (None, set_fs (put (resolve p) (File m []) (w_fs w)) w)
                | None \<Rightarrow>
                    (None, set_fs (put (resolve p)
                       (File \<lparr>m_mode = create_mode perm w, m_uid = w_uid w, m_gid = w_gid w\<rparr> [])
                       (w_fs w)) w))))"

definition set_content :: "path \<Rightarrow> string \<Rightarrow> world \<Rightarrow> world" where
  "set_content p s w =
     (case lookup (w_fs w) p of
        Some (File m t) \<Rightarrow> set_fs (put p (File m s) (w_fs w)) w
      | _ \<Rightarrow> w)"

definition write_close :: "string \<Rightarrow> string \<Rightarrow> world \<Rightarrow> outcome" where
  "write_close p s w0 =
     (let (f1, w1) = call w0;
          w2 = set_content (resolve p) (case f1 of None \<Rightarrow> s | Some (Fault e k) \<Rightarrow> take k s) w1;
          (f2, w3) = call w2
      in (case f1 of
            Some (Fault e k) \<Rightarrow> (Some (PathError ''write'' p e), w3)
          | None \<Rightarrow>
              (case f2 of
                 Some (Fault e k) \<Rightarrow> (Some (PathError ''close'' p e), w3)
               | None \<Rightarrow> (None, w3))))"

definition os_write_file :: "string \<Rightarrow> string \<Rightarrow> 32 word \<Rightarrow> world \<Rightarrow> outcome" where
  "os_write_file p s perm w =
     (case open_trunc p perm w of
        (Some e, w') \<Rightarrow> (Some e, w')
      | (None, w') \<Rightarrow> write_close p s w')"

text \<open>
  \<open>os.Rename\<close> of a file. Go refuses a directory as the new name before it asks the kernel.
  The program renames files only; a directory as the old name is refused in the model.
\<close>

definition os_rename :: "string \<Rightarrow> string \<Rightarrow> world \<Rightarrow> outcome" where
  "os_rename p q w0 =
     (case call w0 of
        (Some (Fault e k), w) \<Rightarrow> (Some (LinkError ''rename'' p q e), w)
      | (None, w) \<Rightarrow>
          (let a = resolve p; b = resolve q; f = w_fs w in
           case walk_error f [] a of
             Some e \<Rightarrow> (Some (LinkError ''rename'' p q e), w)
           | None \<Rightarrow>
          (case lookup f a of
             None \<Rightarrow> (Some (LinkError ''rename'' p q ENOENT), w)
           | Some n \<Rightarrow>
          (if is_dir (lookup f b) then (Some (LinkError ''rename'' p q EEXIST), w)
           else if is_dir (Some n) then (Some (LinkError ''rename'' p q EINVAL), w)
           else case walk_error f [] b of
             Some e \<Rightarrow> (Some (LinkError ''rename'' p q e), w)
           | None \<Rightarrow> (None, set_fs (put b n (del a f)) w)))))"

text \<open>\<open>os.Remove\<close>: a file, or an empty directory.\<close>

definition os_remove :: "string \<Rightarrow> world \<Rightarrow> outcome" where
  "os_remove p w0 =
     (case call w0 of
        (Some (Fault e k), w) \<Rightarrow> (Some (PathError ''remove'' p e), w)
      | (None, w) \<Rightarrow>
          (let a = resolve p; f = w_fs w in
           case walk_error f [] a of
             Some e \<Rightarrow> (Some (PathError ''remove'' p e), w)
           | None \<Rightarrow>
          (case lookup f a of
             None \<Rightarrow> (Some (PathError ''remove'' p ENOENT), w)
           | Some (File m t) \<Rightarrow> (None, set_fs (del a f) w)
           | Some (Dir m) \<Rightarrow>
               (if a = [] then (Some (PathError ''remove'' p EBUSY), w)
                else if child_entries f a \<noteq> [] then (Some (PathError ''remove'' p ENOTEMPTY), w)
                else (None, set_fs (del a f) w)))))"

text \<open>\<open>os.MkdirAll\<close>: the missing directories on the way, from the top.\<close>

fun mkdirs :: "path \<Rightarrow> path \<Rightarrow> 32 word \<Rightarrow> world \<Rightarrow> outcome" where
  "mkdirs done [] perm w = (None, w)"
| "mkdirs done (c # cs) perm w =
     (let p = done @ [c] in
      case lookup (w_fs w) p of
        Some (Dir m) \<Rightarrow> mkdirs p cs perm w
      | Some (File m t) \<Rightarrow> (Some (PathError ''mkdir'' (path_string p) ENOTDIR), w)
      | None \<Rightarrow>
          (case call w of
             (Some (Fault e k), w') \<Rightarrow> (Some (PathError ''mkdir'' (path_string p) e), w')
           | (None, w') \<Rightarrow>
               mkdirs p cs perm
                 (set_fs (put p (Dir \<lparr>m_mode = create_mode perm w', m_uid = w_uid w', m_gid = w_gid w'\<rparr>)
                    (w_fs w')) w')))"

definition os_mkdir_all :: "string \<Rightarrow> 32 word \<Rightarrow> world \<Rightarrow> outcome" where
  "os_mkdir_all p perm w = mkdirs [] (resolve p) perm w"

text \<open>Calls that change only the attributes of what a path names.\<close>

definition change_meta :: "string \<Rightarrow> string \<Rightarrow> (meta \<Rightarrow> meta) \<Rightarrow> world \<Rightarrow> outcome" where
  "change_meta opn p g w0 =
     (case call w0 of
        (Some (Fault e k), w) \<Rightarrow> (Some (PathError opn p e), w)
      | (None, w) \<Rightarrow>
          (case walk_error (w_fs w) [] (resolve p) of
             Some e \<Rightarrow> (Some (PathError opn p e), w)
           | None \<Rightarrow>
          (case lookup (w_fs w) (resolve p) of
             None \<Rightarrow> (Some (PathError opn p ENOENT), w)
           | Some n \<Rightarrow> (None, set_fs (put (resolve p) (set_meta (g (node_meta n)) n) (w_fs w)) w))))"

definition os_chmod :: "string \<Rightarrow> 32 word \<Rightarrow> world \<Rightarrow> outcome" where
  "os_chmod p mode w = change_meta ''chmod'' p (\<lambda>m. m\<lparr>m_mode := syscall_mode mode\<rparr>) w"

definition os_chown :: "string \<Rightarrow> int \<Rightarrow> int \<Rightarrow> world \<Rightarrow> outcome" where
  "os_chown p uid gid w =
     change_meta ''chown'' p
       (\<lambda>m. m\<lparr>m_uid := (if uid = - 1 then m_uid m else uid),
              m_gid := (if gid = - 1 then m_gid m else gid)\<rparr>) w"

text \<open>\<open>os.ReadDir\<close>: name and kind of every entry, sorted by name.\<close>

definition os_read_dir :: "string \<Rightarrow> world \<Rightarrow> (go_error + (string \<times> bool) list) \<times> world" where
  "os_read_dir p w0 =
     (case call w0 of
        (Some (Fault e k), w) \<Rightarrow> (Inl (PathError ''open'' p e), w)
      | (None, w) \<Rightarrow>
          (case walk_error (w_fs w) [] (resolve p) of
             Some e \<Rightarrow> (Inl (PathError ''open'' p e), w)
           | None \<Rightarrow>
          (case lookup (w_fs w) (resolve p) of
             None \<Rightarrow> (Inl (PathError ''open'' p ENOENT), w)
           | Some (File m t) \<Rightarrow> (Inl (PathError ''fdopendir'' p ENOTDIR), w)
           | Some (Dir m) \<Rightarrow>
               (Inr (sort_key fst
                  (map (\<lambda>(n, d). (n, is_dir (Some d))) (child_entries (w_fs w) (resolve p)))), w))))"

text \<open>
  A command run to its end: it is recorded with its arguments, and the world says whether
  it fails. What the command does to the system is not modelled.
\<close>

definition exec_run :: "string \<Rightarrow> string list \<Rightarrow> world \<Rightarrow> outcome" where
  "exec_run name args w0 =
     (case call (emit (Cmd (name # args)) w0) of
        (Some (Fault e k), w) \<Rightarrow> (Some (ErrMsg (''exit status '' @ show_nat k)), w)
      | (None, w) \<Rightarrow> (None, w))"

definition sys_kill :: "int \<Rightarrow> int \<Rightarrow> world \<Rightarrow> outcome" where
  "sys_kill pid sig w0 =
     (case call (emit (Signal pid sig) w0) of
        (Some (Fault e k), w) \<Rightarrow> (Some (ErrnoErr e), w)
      | (None, w) \<Rightarrow> (None, w))"

text \<open>
  The statement \<open>if err := call; err != nil { undo; return fmt.Errorf(msg, err) }\<close> in front of
  the rest of a function.
\<close>

definition or_fail ::
  "outcome \<Rightarrow> string \<Rightarrow> (world \<Rightarrow> world) \<Rightarrow> (world \<Rightarrow> outcome) \<Rightarrow> outcome" where
  "or_fail r msg undo k =
     (case r of (Some e, w) \<Rightarrow> (Some (ErrWrap msg e), undo w) | (None, w) \<Rightarrow> k w)"

lemma or_fail_None: "or_fail r msg undo k = (None, w') \<longleftrightarrow> (\<exists>u. r = (None, u) \<and> k u = (None, w'))"
  by (auto simp: or_fail_def split: prod.split option.split)

lemma or_fail_ok: "fst r = None \<Longrightarrow> or_fail r msg undo k = k (snd r)"
  by (auto simp: or_fail_def split: prod.split option.split)

lemma or_fail_post:
  assumes "\<And>e u. r = (Some e, u) \<Longrightarrow> Q (Some (ErrWrap msg e), undo u)"
    and "\<And>u. r = (None, u) \<Longrightarrow> Q (k u)"
  shows "Q (or_fail r msg undo k)"
  using assms by (auto simp: or_fail_def split: prod.split option.split)

lemma or_fail_inv:
  assumes "I (snd r)" and "\<And>e u. I u \<Longrightarrow> Q (Some (ErrWrap msg e), undo u)"
    and "\<And>u. r = (None, u) \<Longrightarrow> I u \<Longrightarrow> Q (k u)"
  shows "Q (or_fail r msg undo k)"
  by (rule or_fail_post) (use assms in auto)

subsection \<open>The store behind the file system\<close>

text \<open>
  What the calls need of the store they work on: reading after writing and after deleting.
\<close>

locale path_store =
  fixes look :: "'f \<Rightarrow> path \<Rightarrow> node option"
    and store :: "path \<Rightarrow> node \<Rightarrow> 'f \<Rightarrow> 'f"
    and drop_at :: "path \<Rightarrow> 'f \<Rightarrow> 'f"
  assumes look_store: "look (store p n f) = (look f)(p \<mapsto> n)"
    and look_drop: "look (drop_at p f) = (look f)(p := None)"
begin

text \<open>Moving an entry over another one, as a rename does.\<close>

lemma look_move: "look (store b n (drop_at a f)) q = (if q = b then Some n else if q = a then None else look f q)"
  by (simp add: look_store look_drop)

lemma look_store_idem: "look f p = Some n \<Longrightarrow> look (store p n f) = look f"
  by (auto simp: look_store)

lemma look_store_twice: "look (store p n (store p m f)) = look (store p n f)"
  by (simp add: look_store)

lemma look_drop_store: "look f p = None \<Longrightarrow> look (drop_at p (store p n f)) = look f"
  by (auto simp: look_store look_drop)

end

interpretation afs: path_store lookup put del
  by unfold_locales (auto simp: fun_eq_iff lookup_def put_def del_def update_conv' delete_conv')

declare afs.look_store [simp] afs.look_drop [simp]

lemma distinct_put [simp]: "distinct (map fst f) \<Longrightarrow> distinct (map fst (put p n f))"
  by (simp add: put_def distinct_update)

lemma distinct_del [simp]: "distinct (map fst f) \<Longrightarrow> distinct (map fst (del p f))"
  by (simp add: del_def distinct_delete)

subsection \<open>Well-formed file systems\<close>

lemma fs_ok_alt:
  "fs_ok f \<longleftrightarrow> distinct (map fst f) \<and> is_dir (lookup f []) \<and>
     (\<forall>q n. lookup f q = Some n \<longrightarrow> comps_ok q \<and> is_dir (lookup f (butlast q)))"
proof (cases "distinct (map fst f)")
  case True
  then have "(q, n) \<in> set f \<longleftrightarrow> lookup f q = Some n" for q n
    by (simp add: lookup_def map_of_eq_Some_iff)
  then show ?thesis by (simp add: fs_ok_def Ball_def split_paired_all)
next
  case False
  then show ?thesis by (simp add: fs_ok_def)
qed

lemma fs_ok_root [simp]: "fs_ok f \<Longrightarrow> is_dir (lookup f [])"
  by (simp add: fs_ok_alt)

lemma fs_ok_parent: "fs_ok f \<Longrightarrow> lookup f q = Some n \<Longrightarrow> is_dir (lookup f (butlast q))"
  by (simp add: fs_ok_alt)

lemma is_dir_Some: "is_dir x \<longleftrightarrow> (\<exists>m. x = Some (Dir m))"
  by (cases x rule: is_dir.cases) auto

lemma fs_ok_prefix: "fs_ok f \<Longrightarrow> lookup f (a @ b) \<noteq> None \<Longrightarrow> b \<noteq> [] \<Longrightarrow> is_dir (lookup f a)"
proof (induction b rule: rev_induct)
  case Nil
  then show ?case by simp
next
  case (snoc c b)
  then have "is_dir (lookup f (a @ b))"
    using fs_ok_parent[of f "a @ b @ [c]"] by (auto simp: butlast_append)
  with snoc show ?case by (cases "b = []") (auto simp: is_dir_Some)
qed

lemma fs_ok_no_child:
  assumes "fs_ok f" and "\<not> is_dir (lookup f p)" and "lookup f q = Some n"
  shows "butlast q \<noteq> p"
  using assms by (auto dest: fs_ok_parent)

lemma walk_error_None: "walk_error f d cs = None \<Longrightarrow> cs \<noteq> [] \<Longrightarrow> is_dir (lookup f (d @ butlast cs))"
  by (induction f d cs rule: walk_error.induct)
     (auto simp: is_dir_Some split: option.splits node.splits)

lemma walk_error_dir:
  assumes "fs_ok f" and "is_dir (lookup f (d @ butlast cs))"
  shows "walk_error f d cs = None"
  using assms
proof (induction f d cs rule: walk_error.induct)
  case (3 f d c c' cs)
  have "is_dir (lookup f d)"
    using "3.prems" fs_ok_prefix[of f d "butlast (c # c' # cs)"] by (auto simp: is_dir_Some)
  then obtain m where m: "lookup f d = Some (Dir m)" by (auto simp: is_dir_Some)
  have "walk_error f (d @ [c]) (c' # cs) = None"
    using "3.IH"[OF m] "3.prems" by simp
  with m show ?case by simp
qed (auto simp: is_dir_Some)

lemma fs_ok_walk: "fs_ok f \<Longrightarrow> lookup f p = Some n \<Longrightarrow> walk_error f [] p = None"
  using walk_error_dir[of f "[]" p] fs_ok_parent[of f p] by simp

lemma fs_ok_put_leaf:
  assumes ok: "fs_ok f" and p: "comps_ok p" "is_dir (lookup f (butlast p))"
    and leaf: "\<not> is_dir (lookup f p)"
  shows "fs_ok (put p n f)"
proof -
  have "p \<noteq> []" using ok leaf fs_ok_root by blast
  then have "butlast p \<noteq> p" by (metis append_butlast_last_id append_self_conv not_Cons_self2)
  then show ?thesis
    using ok p leaf fs_ok_no_child[OF ok leaf] \<open>p \<noteq> []\<close>
    by (auto simp: fs_ok_alt)
qed

lemma is_dir_set_meta [simp]: "is_dir (Some (set_meta m n)) = is_dir (Some n)"
  by (cases n) auto

lemma fs_ok_put_same_kind:
  assumes "fs_ok f" and "lookup f p = Some n" and "is_dir (Some n') = is_dir (Some n)"
  shows "fs_ok (put p n' f)"
  using assms by (auto simp: fs_ok_alt)

lemma child_entries_Nil:
  "distinct (map fst f) \<Longrightarrow> child_entries f p = [] \<longleftrightarrow> (\<forall>q n. lookup f q = Some n \<longrightarrow> q \<noteq> [] \<longrightarrow> butlast q \<noteq> p)"
  by (fastforce simp: child_entries_def filter_empty_conv lookup_def dest: map_of_SomeD)

lemma fs_ok_del:
  assumes ok: "fs_ok f" and p: "p \<noteq> []"
    and leaf: "\<And>q n. lookup f q = Some n \<Longrightarrow> q \<noteq> [] \<Longrightarrow> butlast q \<noteq> p"
  shows "fs_ok (del p f)"
proof -
  have "is_dir (lookup (del p f) (butlast q))" if "lookup (del p f) q = Some n" for q n
  proof -
    from that have q: "lookup f q = Some n" by (auto split: if_splits)
    then have "is_dir (lookup f (butlast q))" by (rule fs_ok_parent[OF ok])
    moreover have "butlast q \<noteq> p" using leaf[OF q] p by (cases "q = []") auto
    ultimately show ?thesis by simp
  qed
  then show ?thesis using ok p by (auto simp: fs_ok_alt)
qed

end
