(* ===== verification/GoOSFacts.thy ===== *)
theory GoOSFacts
  imports GoOS
begin

text \<open>
  What each call into the world keeps: the part of the world that is not the file system
  (\<open>env_of\<close>), well-formedness of every file system another process can see on the way
  (\<open>observed fs_ok\<close>), and the entries away from the path it names (\<open>agree_off\<close>). Then what a
  call has done when it succeeds, and when it succeeds.
\<close>

subsection \<open>Notions\<close>

definition env_of :: "world \<Rightarrow> world" where
  "env_of w = w\<lparr>w_fs := [], w_hist := [], w_tick := 0\<rparr>"

definition no_faults :: "world \<Rightarrow> bool" where
  "no_faults w \<longleftrightarrow> (\<forall>n. w_faults w n = None)"

text \<open>
  From \<open>w\<close> to \<open>w'\<close> only file systems with \<open>Q\<close> became visible, and the last of them is the
  current one.
\<close>

definition observed :: "(fsys \<Rightarrow> bool) \<Rightarrow> world \<Rightarrow> world \<Rightarrow> bool" where
  "observed Q w w' \<longleftrightarrow>
     (\<exists>hs. w_hist w' = w_hist w @ hs \<and> list_all Q hs \<and>
           w_fs w' = (if hs = [] then w_fs w else last hs))"

definition agree_off :: "path set \<Rightarrow> fsys \<Rightarrow> fsys \<Rightarrow> bool" where
  "agree_off P f g \<longleftrightarrow> (\<forall>q. q \<notin> P \<longrightarrow> lookup g q = lookup f q)"

abbreviation touches :: "path set \<Rightarrow> world \<Rightarrow> world \<Rightarrow> bool" where
  "touches P w w' \<equiv> observed (agree_off P (w_fs w)) w w'"

subsection \<open>Rules for them\<close>

lemma env_of_D:
  assumes "env_of w' = env_of w"
  shows "w_trace w' = w_trace w" and "w_umask w' = w_umask w" and "w_uid w' = w_uid w"
    and "w_gid w' = w_gid w" and "w_users w' = w_users w" and "w_groups w' = w_groups w"
    and "w_clock w' = w_clock w" and "w_faults w' = w_faults w"
  using assms[THEN arg_cong, of w_trace] assms[THEN arg_cong, of w_umask]
    assms[THEN arg_cong, of w_uid] assms[THEN arg_cong, of w_gid]
    assms[THEN arg_cong, of w_users] assms[THEN arg_cong, of w_groups]
    assms[THEN arg_cong, of w_clock] assms[THEN arg_cong, of w_faults]
  by (simp_all add: env_of_def)

lemma env_of_cmds: "env_of w' = env_of w \<Longrightarrow> cmds w' = cmds w"
  unfolding cmds_def by (drule env_of_D(1)) simp

lemma env_of_no_faults: "env_of w' = env_of w \<Longrightarrow> no_faults w' = no_faults w"
  unfolding no_faults_def by (drule env_of_D(8)) simp

lemma env_of_tick [simp]: "env_of (w\<lparr>w_tick := n\<rparr>) = env_of w"
  by (simp add: env_of_def)

lemma env_of_set_fs [simp]: "env_of (set_fs f w) = env_of w"
  by (simp add: env_of_def set_fs_def)

lemma set_fs_sel [simp]: "w_fs (set_fs f w) = f" "w_hist (set_fs f w) = w_hist w @ [f]"
  by (simp_all add: set_fs_def)

lemma observed_refl [simp]: "observed Q w w"
  by (simp add: observed_def)

lemma observed_same: "w_fs w' = w_fs w \<Longrightarrow> w_hist w' = w_hist w \<Longrightarrow> observed Q w w'"
  by (simp add: observed_def)

lemma observed_tick [simp]: "observed Q w (w\<lparr>w_tick := n\<rparr>)"
  by (simp add: observed_same)

lemma observed_from_tick [simp]: "observed Q (w\<lparr>w_tick := n\<rparr>) u = observed Q w u"
  by (simp add: observed_def)

lemma observed_to_tick [simp]: "observed Q w (u\<lparr>w_tick := n\<rparr>) = observed Q w u"
  by (simp add: observed_def)

lemma observed_set_tick [simp]: "Q f \<Longrightarrow> observed Q w (set_fs f (w\<lparr>w_tick := n\<rparr>))"
  by (simp add: observed_def)

lemma observed_set [simp]: "Q f \<Longrightarrow> observed Q w (set_fs f w)"
  by (simp add: observed_def)

lemma observed_trans:
  assumes "observed Q w v" and "observed Q v u"
  shows "observed Q w u"
proof -
  from assms(1) obtain hs where hs: "w_hist v = w_hist w @ hs" "list_all Q hs"
    "w_fs v = (if hs = [] then w_fs w else last hs)" by (auto simp: observed_def)
  from assms(2) obtain ks where ks: "w_hist u = w_hist v @ ks" "list_all Q ks"
    "w_fs u = (if ks = [] then w_fs v else last ks)" by (auto simp: observed_def)
  have "w_hist u = w_hist w @ (hs @ ks) \<and> list_all Q (hs @ ks) \<and>
      w_fs u = (if hs @ ks = [] then w_fs w else last (hs @ ks))"
    using hs ks by simp
  then show ?thesis unfolding observed_def by blast
qed

lemma observed_mono: "observed Q w w' \<Longrightarrow> (\<And>f. Q f \<Longrightarrow> R f) \<Longrightarrow> observed R w w'"
  by (force simp: observed_def list_all_iff)

lemma observed_conj: "observed Q w w' \<Longrightarrow> observed R w w' \<Longrightarrow> observed (\<lambda>f. Q f \<and> R f) w w'"
  by (auto simp: observed_def list_all_iff)

lemma observed_now: "observed Q w w' \<Longrightarrow> Q (w_fs w) \<Longrightarrow> Q (w_fs w')"
  by (auto simp: observed_def list_all_iff split: if_splits)

lemma observed_extends: "observed Q w w' \<Longrightarrow> prefix (w_hist w) (w_hist w')"
  by (auto simp: observed_def)

lemma observed_visible:
  "observed Q w w' \<Longrightarrow> w_fs w' \<noteq> w_fs w \<Longrightarrow> w_fs w' \<in> set (drop (length (w_hist w)) (w_hist w'))"
  by (auto simp: observed_def split: if_splits)

lemma agree_off_refl [simp]: "agree_off P f f"
  by (simp add: agree_off_def)

lemma agree_off_put [simp]: "p \<in> P \<Longrightarrow> agree_off P f (put p n f)"
  by (auto simp: agree_off_def)

lemma agree_off_del [simp]: "p \<in> P \<Longrightarrow> agree_off P f (del p f)"
  by (auto simp: agree_off_def)

lemma agree_off_trans: "agree_off P f g \<Longrightarrow> agree_off Q g h \<Longrightarrow> agree_off (P \<union> Q) f h"
  by (auto simp: agree_off_def)

lemma touches_now: "touches P w w' \<Longrightarrow> q \<notin> P \<Longrightarrow> lookup (w_fs w') q = lookup (w_fs w) q"
  using observed_now[of "agree_off P (w_fs w)" w w'] by (simp add: agree_off_def)

lemma touches_mono: "touches P w w' \<Longrightarrow> P \<subseteq> Q \<Longrightarrow> touches Q w w'"
  by (erule observed_mono) (auto simp: agree_off_def)

lemma touches_trans:
  assumes "touches P w v" and "touches P v u"
  shows "touches P w u"
proof -
  have "agree_off P (w_fs w) (w_fs v)"
    using observed_now[OF assms(1)] by simp
  then have "observed (agree_off P (w_fs w)) v u"
    using assms(2) by (auto elim!: observed_mono dest: agree_off_trans)
  with assms(1) show ?thesis by (rule observed_trans)
qed

text \<open>What a process that reads one path sees.\<close>

lemma touches_observed:
  assumes "touches P w w'" and "q \<notin> P"
  shows "observed (\<lambda>f. lookup f q = lookup (w_fs w) q) w w'"
  by (rule observed_mono[OF assms(1)]) (use assms(2) in \<open>simp add: agree_off_def\<close>)

subsection \<open>The environment is unchanged\<close>

lemmas call_unfold = call_def Let_def

lemma env_open_trunc [world_frame]: "env_of (snd (open_trunc p m w)) = env_of w"
  by (simp add: open_trunc_def call_unfold split: option.split fault.split node.split)

lemma env_set_content [world_frame]: "env_of (set_content p s w) = env_of w"
  by (simp add: set_content_def split: option.split node.split)

lemma env_write_close [world_frame]: "env_of (snd (write_close p s w)) = env_of w"
  by (simp add: write_close_def call_unfold env_set_content split: option.split fault.split)

lemma env_write_file [world_frame]: "env_of (snd (os_write_file p s m w)) = env_of w"
proof (cases "open_trunc p m w")
  case (Pair r v)
  have "env_of v = env_of w" using env_open_trunc[of p m w] Pair by simp
  then show ?thesis
    using env_write_close[of p s v] by (simp add: os_write_file_def Pair split: option.split)
qed

lemma env_rename [world_frame]: "env_of (snd (os_rename p q w)) = env_of w"
  by (simp add: os_rename_def call_unfold split: option.split fault.split)

lemma env_remove [world_frame]: "env_of (snd (os_remove p w)) = env_of w"
  by (simp add: os_remove_def call_unfold split: option.split fault.split node.split)

lemma env_mkdirs [world_frame]: "env_of (snd (mkdirs d cs m w)) = env_of w"
  by (induction d cs m w rule: mkdirs.induct)
     (auto simp: call_unfold split: option.split fault.split node.split)

lemma env_mkdir_all [world_frame]: "env_of (snd (os_mkdir_all p m w)) = env_of w"
  by (simp add: os_mkdir_all_def env_mkdirs)

lemma env_change_meta: "env_of (snd (change_meta opn p g w)) = env_of w"
  by (simp add: change_meta_def call_unfold split: option.split fault.split)

lemma env_chmod [world_frame]: "env_of (snd (os_chmod p m w)) = env_of w"
  by (simp add: os_chmod_def env_change_meta)

lemma env_chown [world_frame]: "env_of (snd (os_chown p u g w)) = env_of w"
  by (simp add: os_chown_def env_change_meta)

subsection \<open>Only the named path is touched\<close>

lemma touches_open_trunc: "touches {resolve p} w (snd (open_trunc p m w))"
  by (simp add: open_trunc_def call_unfold split: option.split fault.split node.split)

lemma touches_set_content: "touches {p} w (set_content p s w)"
  by (simp add: set_content_def split: option.split node.split)

lemma touches_write_close: "touches {resolve p} w (snd (write_close p s w))"
proof -
  have "touches {resolve p} w ((set_content (resolve p) s' (w\<lparr>w_tick := n\<rparr>))\<lparr>w_tick := k\<rparr>)"
    (is "touches _ w (?v\<lparr>w_tick := k\<rparr>)") for s' n k
  proof -
    have "touches {resolve p} (w\<lparr>w_tick := n\<rparr>) ?v" by (rule touches_set_content)
    then show ?thesis by simp
  qed
  then show ?thesis
    by (simp add: write_close_def call_unfold split: option.split fault.split)
qed

lemma touches_write_file: "touches {resolve p} w (snd (os_write_file p s m w))"
proof (cases "open_trunc p m w")
  case (Pair r v)
  have "touches {resolve p} w v" using touches_open_trunc[of p w m] Pair by simp
  then show ?thesis
    using touches_trans[OF _ touches_write_close[of p v s]]
    by (simp add: os_write_file_def Pair split: option.split)
qed

lemma touches_rename: "touches {resolve p, resolve q} w (snd (os_rename p q w))"
proof -
  have "agree_off {a, b} f (put b n (del a f))" for a b n f
    by (auto simp: agree_off_def)
  then show ?thesis
    by (simp add: os_rename_def call_unfold split: option.split fault.split)
qed

lemma touches_remove: "touches {resolve p} w (snd (os_remove p w))"
  by (simp add: os_remove_def call_unfold split: option.split fault.split node.split)

lemma touches_change_meta: "touches {resolve p} w (snd (change_meta opn p g w))"
  by (simp add: change_meta_def call_unfold split: option.split fault.split)

lemma touches_chmod: "touches {resolve p} w (snd (os_chmod p m w))"
  by (simp add: os_chmod_def touches_change_meta)

lemma touches_chown: "touches {resolve p} w (snd (os_chown p u g w))"
  by (simp add: os_chown_def touches_change_meta)

subsection \<open>Every visible file system is well-formed\<close>

lemma fs_ok_create:
  assumes "fs_ok f" and "walk_error f [] p = None" and "comps_ok p" and "\<not> is_dir (lookup f p)"
  shows "fs_ok (put p n f)"
proof -
  have "p \<noteq> []" using assms(1,4) fs_ok_root by blast
  then have "is_dir (lookup f (butlast p))" using walk_error_None[OF assms(2)] by simp
  with assms show ?thesis by (intro fs_ok_put_leaf)
qed

lemma ok_open_trunc: "fs_ok (w_fs w) \<Longrightarrow> observed fs_ok w (snd (open_trunc p m w))"
  by (simp add: open_trunc_def call_unfold fs_ok_create split: option.split fault.split node.split)

lemma ok_set_content: "fs_ok (w_fs w) \<Longrightarrow> observed fs_ok w (set_content p s w)"
  by (simp add: set_content_def fs_ok_put_same_kind split: option.split node.split)

lemma ok_write_close: "fs_ok (w_fs w) \<Longrightarrow> observed fs_ok w (snd (write_close p s w))"
  using ok_set_content[of "w\<lparr>w_tick := n\<rparr>" "resolve p" s' for n s']
  by (simp add: write_close_def call_unfold split: option.split fault.split)

lemma ok_write_file:
  assumes "fs_ok (w_fs w)"
  shows "observed fs_ok w (snd (os_write_file p s m w))"
proof (cases "open_trunc p m w")
  case (Pair r v)
  have "observed fs_ok w v" using ok_open_trunc[OF assms, of p m] Pair by simp
  moreover then have "fs_ok (w_fs v)" using assms by (rule observed_now)
  ultimately show ?thesis
    using observed_trans[OF _ ok_write_close[of v p s]]
    by (simp add: os_write_file_def Pair split: option.split)
qed

lemma fs_ok_move:
  assumes ok: "fs_ok f" and a: "lookup f a = Some n" "\<not> is_dir (Some n)"
    and b: "comps_ok b" "\<not> is_dir (lookup f b)" "is_dir (lookup f (butlast b))"
  shows "fs_ok (put b n (del a f))"
proof -
  have na: "\<not> is_dir (lookup f a)" using a by simp
  then have "a \<noteq> []" using ok by auto
  then have "fs_ok (del a f)"
    by (rule fs_ok_del[OF ok]) (rule fs_ok_no_child[OF ok na])
  moreover have "butlast b \<noteq> a" using na b(3) by auto
  ultimately show ?thesis
    using b by (intro fs_ok_put_leaf) auto
qed

lemma ok_rename:
  assumes ok: "fs_ok (w_fs w)"
  shows "observed fs_ok w (snd (os_rename p q w))"
proof -
  have "fs_ok (put b n (del a f))"
    if f: "f = w_fs w" and h: "lookup f a = Some n" "\<not> is_dir (Some n)" "comps_ok b"
      "\<not> is_dir (lookup f b)" "walk_error f [] b = None" for a b n f
  proof -
    have "b \<noteq> []" using h(4) ok f fs_ok_root by blast
    then have "is_dir (lookup f (butlast b))" using walk_error_None[OF h(5)] by simp
    with h ok f show ?thesis by (intro fs_ok_move) auto
  qed
  then show ?thesis
    by (simp add: os_rename_def call_unfold split: option.split fault.split)
qed

lemma ok_remove:
  assumes ok: "fs_ok (w_fs w)"
  shows "observed fs_ok w (snd (os_remove p w))"
proof -
  let ?f = "w_fs w"
  have plain: "fs_ok (del a ?f)" if h: "\<not> is_dir (lookup ?f a)" for a
  proof -
    have "a \<noteq> []" using h ok fs_ok_root by blast
    then show ?thesis using fs_ok_no_child[OF ok h] by (intro fs_ok_del[OF ok]) auto
  qed
  have hollow: "fs_ok (del a ?f)" if "child_entries ?f a = []" "a \<noteq> []" for a
    using that ok by (intro fs_ok_del[OF ok]) (auto simp: child_entries_Nil fs_ok_alt)
  show ?thesis
    by (simp add: os_remove_def call_unfold plain hollow split: option.split fault.split node.split)
qed

lemma ok_mkdirs:
  "fs_ok (w_fs w) \<Longrightarrow> comps_ok (d @ cs) \<Longrightarrow> is_dir (lookup (w_fs w) d) \<Longrightarrow>
   observed fs_ok w (snd (mkdirs d cs m w))"
proof (induction d cs m w rule: mkdirs.induct)
  case (1 d m w)
  show ?case by simp
next
  case (2 d c cs m w)
  let ?p = "d @ [c]"
  show ?case
  proof (cases "lookup (w_fs w) ?p")
    case (Some n)
    show ?thesis
    proof (cases n)
      case (File m' t)
      with Some show ?thesis by simp
    next
      case (Dir m')
      have "observed fs_ok w (snd (mkdirs ?p cs m w))"
        by (rule "2.IH"(2)[OF refl Some Dir]) (use "2.prems" Some Dir in simp_all)
      with Some Dir show ?thesis by simp
    qed
  next
    case None
    obtain r v where v: "call w = (r, v)" by (cases "call w")
    then have eq: "w_fs v = w_fs w" "w_hist v = w_hist w" by (auto simp: call_def)
    show ?thesis
    proof (cases r)
      case (Some x)
      then show ?thesis using None v eq by (cases x) (simp add: observed_same)
    next
      case r: None
      let ?u = "set_fs (put ?p (Dir \<lparr>m_mode = create_mode m v, m_uid = w_uid v, m_gid = w_gid v\<rparr>) (w_fs v)) v"
      have "fs_ok (w_fs ?u)"
        using "2.prems" None eq by (auto intro!: fs_ok_put_leaf simp: comps_ok_def)
      moreover then have "observed fs_ok w ?u" using eq by (simp add: observed_def)
      moreover have "observed fs_ok ?u (snd (mkdirs ?p cs m ?u))"
        by (rule "2.IH"(1)[OF refl None _ r]) (use "2.prems" calculation v in simp_all)
      ultimately have "observed fs_ok w (snd (mkdirs ?p cs m ?u))"
        by (blast intro: observed_trans)
      with None v r show ?thesis by (simp add: Let_def)
    qed
  qed
qed

lemma ok_mkdir_all: "fs_ok (w_fs w) \<Longrightarrow> observed fs_ok w (snd (os_mkdir_all p m w))"
  unfolding os_mkdir_all_def by (rule ok_mkdirs) auto

lemma fs_ok_put_meta: "lookup f p = Some n \<Longrightarrow> fs_ok f \<Longrightarrow> fs_ok (put p (set_meta m n) f)"
  by (rule fs_ok_put_same_kind) auto

lemma ok_change_meta: "fs_ok (w_fs w) \<Longrightarrow> observed fs_ok w (snd (change_meta opn p g w))"
  by (simp add: change_meta_def call_unfold fs_ok_put_meta split: option.split fault.split)

lemma ok_chmod: "fs_ok (w_fs w) \<Longrightarrow> observed fs_ok w (snd (os_chmod p m w))"
  by (simp add: os_chmod_def ok_change_meta)

lemma ok_chown: "fs_ok (w_fs w) \<Longrightarrow> observed fs_ok w (snd (os_chown p u g w))"
  by (simp add: os_chown_def ok_change_meta)

subsection \<open>What a call has done when it succeeds\<close>

text \<open>A file that was there keeps its mode and owner; a new one gets them from the call.\<close>

definition file_meta :: "node option \<Rightarrow> 32 word \<Rightarrow> world \<Rightarrow> meta" where
  "file_meta n m w =
     (case n of
        Some (File b t) \<Rightarrow> b
      | _ \<Rightarrow> \<lparr>m_mode = create_mode m w, m_uid = w_uid w, m_gid = w_gid w\<rparr>)"

lemma open_trunc_Some:
  "open_trunc p m w = (None, w') \<Longrightarrow>
   lookup (w_fs w') (resolve p) = Some (File (file_meta (lookup (w_fs w) (resolve p)) m w) [])"
  by (auto simp: open_trunc_def call_unfold create_mode_def file_meta_def
        split: option.splits fault.splits node.splits)

lemma write_close_Some:
  "write_close p s w = (None, w') \<Longrightarrow> lookup (w_fs w) (resolve p) = Some (File a t) \<Longrightarrow>
   lookup (w_fs w') (resolve p) = Some (File a s)"
  by (auto simp: write_close_def call_unfold set_content_def split: option.splits fault.splits)

lemma write_file_Some:
  assumes "os_write_file p s m w = (None, w')"
  shows "lookup (w_fs w') (resolve p) = Some (File (file_meta (lookup (w_fs w) (resolve p)) m w) s)"
proof -
  from assms obtain v where v: "open_trunc p m w = (None, v)" "write_close p s v = (None, w')"
    by (auto simp: os_write_file_def split: prod.splits option.splits)
  from write_close_Some[OF v(2) open_trunc_Some[OF v(1)]] show ?thesis .
qed

lemma write_close_partial:
  assumes "write_close p s w = (r, w')" and "lookup (w_fs w) (resolve p) = Some (File a t)"
  shows "\<exists>j. lookup (w_fs w') (resolve p) = Some (File a (take j s))"
proof (cases "w_faults w (w_tick w)")
  case None
  then have "lookup (w_fs w') (resolve p) = Some (File a (take (length s) s))"
    using assms by (auto simp: write_close_def call_unfold set_content_def split: option.splits fault.splits)
  then show ?thesis by blast
next
  case (Some f)
  obtain e k where f: "f = Fault e k" by (cases f)
  have "lookup (w_fs w') (resolve p) = Some (File a (take k s))"
    using assms Some f by (auto simp: write_close_def call_unfold set_content_def)
  then show ?thesis by blast
qed

lemma write_file_error:
  assumes "os_write_file p s m w = (Some e, w')"
  shows "w_fs w' = w_fs w \<or> (\<exists>a j. lookup (w_fs w') (resolve p) = Some (File a (take j s)))"
proof (cases "open_trunc p m w")
  case (Pair r v)
  show ?thesis
  proof (cases r)
    case (Some x)
    then show ?thesis
      using assms Pair
      by (auto simp: os_write_file_def open_trunc_def call_unfold split: option.splits fault.splits node.splits)
  next
    case None
    then have c: "write_close p s v = (Some e, w')" using assms Pair by (simp add: os_write_file_def)
    obtain a where a: "lookup (w_fs v) (resolve p) = Some (File a [])"
      using open_trunc_Some[of p m w v] Pair None by blast
    show ?thesis using write_close_partial[OF c a] by blast
  qed
qed

lemma rename_Some:
  assumes "os_rename p q w = (None, w')" and "resolve p \<noteq> resolve q"
  shows "lookup (w_fs w') (resolve q) = lookup (w_fs w) (resolve p)"
    and "lookup (w_fs w') (resolve p) = None"
    and "w_hist w' = w_hist w @ [w_fs w']"
    and "\<exists>a t. lookup (w_fs w) (resolve p) = Some (File a t)"
  using assms
  by (auto simp: os_rename_def call_unfold is_dir_Some split: option.splits fault.splits if_splits)
     (metis node.exhaust)

lemma rename_fail: "os_rename p q w = (Some e, w') \<Longrightarrow> w_fs w' = w_fs w \<and> w_hist w' = w_hist w"
  by (auto simp: os_rename_def call_unfold split: option.splits fault.splits if_splits)

lemma remove_Some: "os_remove p w = (None, w') \<Longrightarrow> lookup (w_fs w') (resolve p) = None"
  by (auto simp: os_remove_def call_unfold split: option.splits fault.splits node.splits if_splits)

lemma remove_fail: "os_remove p w = (Some e, w') \<Longrightarrow> w_fs w' = w_fs w \<and> w_hist w' = w_hist w"
  by (auto simp: os_remove_def call_unfold split: option.splits fault.splits node.splits if_splits)

lemma change_meta_Some:
  "change_meta opn p g w = (None, w') \<Longrightarrow>
   \<exists>n. lookup (w_fs w) (resolve p) = Some n \<and>
       lookup (w_fs w') (resolve p) = Some (set_meta (g (node_meta n)) n)"
  by (auto simp: change_meta_def call_unfold split: option.splits fault.splits)

lemma change_meta_fail:
  "change_meta opn p g w = (Some e, w') \<Longrightarrow> w_fs w' = w_fs w \<and> w_hist w' = w_hist w"
  by (auto simp: change_meta_def call_unfold split: option.splits fault.splits)

text \<open>The state after a call, as rewrite rules.\<close>

lemma fs_ok_now: "observed fs_ok w w' \<Longrightarrow> fs_ok (w_fs w) \<Longrightarrow> fs_ok (w_fs w')"
  by (rule observed_now)

lemma fs_ok_after:
  assumes "fs_ok (w_fs w)"
  shows "fs_ok (w_fs (snd (os_write_file p s m w)))" and "fs_ok (w_fs (snd (os_rename p q w)))"
    and "fs_ok (w_fs (snd (os_remove p w)))" and "fs_ok (w_fs (snd (os_chmod p m w)))"
    and "fs_ok (w_fs (snd (os_chown p i j w)))" and "fs_ok (w_fs (snd (os_mkdir_all p m w)))"
  by (rule fs_ok_now[OF ok_write_file[OF assms] assms] fs_ok_now[OF ok_rename[OF assms] assms]
      fs_ok_now[OF ok_remove[OF assms] assms] fs_ok_now[OF ok_chmod[OF assms] assms]
      fs_ok_now[OF ok_chown[OF assms] assms] fs_ok_now[OF ok_mkdir_all[OF assms] assms])+

lemma no_faults_after:
  "no_faults (snd (os_write_file p s m w)) = no_faults w" "no_faults (snd (os_rename p q w)) = no_faults w"
  "no_faults (snd (os_remove p w)) = no_faults w" "no_faults (snd (os_chmod p m w)) = no_faults w"
  "no_faults (snd (os_chown p i j w)) = no_faults w" "no_faults (snd (os_mkdir_all p m w)) = no_faults w"
  by (rule env_of_no_faults, rule world_frame)+

text \<open>The ids a file has after a chown; an id of -1 asks for no change.\<close>

definition owned :: "int \<Rightarrow> int \<Rightarrow> meta \<Rightarrow> bool" where
  "owned i j m \<longleftrightarrow> (i \<noteq> - 1 \<longrightarrow> m_uid m = i) \<and> (j \<noteq> - 1 \<longrightarrow> m_gid m = j)"

lemma chown_owned:
  "os_chown p i j w = (None, w') \<Longrightarrow>
   \<exists>n m. lookup (w_fs w) (resolve p) = Some n \<and> lookup (w_fs w') (resolve p) = Some (set_meta m n) \<and>
     owned i j m \<and> m_mode m = m_mode (node_meta n)"
proof -
  assume c: "os_chown p i j w = (None, w')"
  then obtain n where n: "lookup (w_fs w) (resolve p) = Some n"
    and m: "lookup (w_fs w') (resolve p) = Some (set_meta ((node_meta n)\<lparr>
        m_uid := (if i = - 1 then m_uid (node_meta n) else i),
        m_gid := (if j = - 1 then m_gid (node_meta n) else j)\<rparr>) n)" (is "_ = Some (set_meta ?m n)")
    unfolding os_chown_def using change_meta_Some by blast
  have "owned i j ?m \<and> m_mode ?m = m_mode (node_meta n)" by (simp add: owned_def)
  with n m show ?thesis by blast
qed

lemma chmod_mode:
  "os_chmod p k w = (None, w') \<Longrightarrow>
   \<exists>n m. lookup (w_fs w) (resolve p) = Some n \<and> lookup (w_fs w') (resolve p) = Some (set_meta m n) \<and>
     m_mode m = syscall_mode k"
proof -
  assume c: "os_chmod p k w = (None, w')"
  then obtain n where n: "lookup (w_fs w) (resolve p) = Some n"
    and m: "lookup (w_fs w') (resolve p) = Some (set_meta ((node_meta n)\<lparr>m_mode := syscall_mode k\<rparr>) n)"
    (is "_ = Some (set_meta ?m n)")
    unfolding os_chmod_def using change_meta_Some by blast
  have "m_mode ?m = syscall_mode k" by simp
  with n m show ?thesis by blast
qed

subsection \<open>When a call succeeds\<close>

lemma call_no_faults: "no_faults w \<Longrightarrow> call w = (None, w\<lparr>w_tick := Suc (w_tick w)\<rparr>)"
  by (simp add: call_def no_faults_def)

lemma no_faults_tick [simp]: "no_faults (w\<lparr>w_tick := n\<rparr>) = no_faults w"
  by (simp add: no_faults_def)

lemma no_faults_set_content [simp]: "no_faults (set_content p s w) = no_faults w"
  by (rule env_of_no_faults) (rule env_set_content)

lemma open_trunc_ok:
  assumes "no_faults w" and "fs_ok (w_fs w)" and "is_dir (lookup (w_fs w) (butlast (resolve p)))"
    and "\<not> is_dir (lookup (w_fs w) (resolve p))"
  shows "fst (open_trunc p m w) = None"
  using assms walk_error_dir[of "w_fs w" "[]" "resolve p"]
  by (auto simp: open_trunc_def call_no_faults split: option.split node.split)

lemma write_close_ok: "no_faults w \<Longrightarrow> fst (write_close p s w) = None"
  by (simp add: write_close_def call_no_faults)

lemma write_file_ok:
  assumes "no_faults w" and "fs_ok (w_fs w)" and "is_dir (lookup (w_fs w) (butlast (resolve p)))"
    and "\<not> is_dir (lookup (w_fs w) (resolve p))"
  shows "fst (os_write_file p s m w) = None"
proof -
  obtain v where v: "open_trunc p m w = (None, v)"
    using open_trunc_ok[OF assms, of m] by (metis fst_conv surj_pair)
  then have "no_faults v"
    using env_of_no_faults[OF env_open_trunc[of p m w]] assms(1) by simp
  then show ?thesis by (simp add: os_write_file_def v write_close_ok)
qed

lemma rename_ok:
  assumes "no_faults w" and "fs_ok (w_fs w)" and "lookup (w_fs w) (resolve p) = Some (File a t)"
    and "is_dir (lookup (w_fs w) (butlast (resolve q)))" and "\<not> is_dir (lookup (w_fs w) (resolve q))"
  shows "fst (os_rename p q w) = None"
  using assms fs_ok_walk[OF assms(2,3)] walk_error_dir[of "w_fs w" "[]" "resolve q"]
  by (simp add: os_rename_def call_no_faults)

lemma remove_ok:
  assumes "no_faults w" and "fs_ok (w_fs w)" and "lookup (w_fs w) (resolve p) = Some (File a t)"
  shows "fst (os_remove p w) = None"
  using assms fs_ok_walk[OF assms(2,3)] by (simp add: os_remove_def call_no_faults)

lemma change_meta_ok:
  assumes "no_faults w" and "fs_ok (w_fs w)" and "lookup (w_fs w) (resolve p) = Some n"
  shows "fst (change_meta opn p g w) = None"
  using assms fs_ok_walk[OF assms(2,3)] by (simp add: change_meta_def call_no_faults)

lemma chmod_ok:
  "no_faults w \<Longrightarrow> fs_ok (w_fs w) \<Longrightarrow> lookup (w_fs w) (resolve p) = Some n \<Longrightarrow> fst (os_chmod p m w) = None"
  unfolding os_chmod_def by (rule change_meta_ok)

lemma chown_ok:
  "no_faults w \<Longrightarrow> fs_ok (w_fs w) \<Longrightarrow> lookup (w_fs w) (resolve p) = Some n \<Longrightarrow> fst (os_chown p i j w) = None"
  unfolding os_chown_def by (rule change_meta_ok)

subsection \<open>Reading a directory\<close>

lemma read_dir_result:
  assumes "fs_ok (w_fs w)" and "os_read_dir p w = (Inr es, w')"
  shows "sorted (map fst es)" and "distinct (map fst es)"
    and "(n, b) \<in> set es \<longleftrightarrow> (\<exists>d. lookup (w_fs w) (resolve p @ [n]) = Some d \<and> b = is_dir (Some d))"
    and "w_fs w' = w_fs w"
proof -
  let ?es = "map (\<lambda>(n, d). (n, is_dir (Some d))) (child_entries (w_fs w) (resolve p))"
  have es: "es = sort_key fst ?es" and "w_fs w' = w_fs w"
    using assms(2) by (auto simp: os_read_dir_def call_unfold split: option.splits fault.splits node.splits)
  then show "sorted (map fst es)" "w_fs w' = w_fs w" by simp_all
  have dist: "distinct (map fst (w_fs w))" using assms(1) by (simp add: fs_ok_def)
  then have "distinct (map (last \<circ> fst) (filter (\<lambda>(q, n). q \<noteq> [] \<and> butlast q = resolve p) (w_fs w)))"
    by (force simp: distinct_map inj_on_def intro!: distinct_filter dest: append_butlast_last_id)
  moreover have "map fst ?es = map (last \<circ> fst)
      (filter (\<lambda>(q, n). q \<noteq> [] \<and> butlast q = resolve p) (w_fs w))"
    by (simp add: child_entries_def comp_def case_prod_beta)
  ultimately have "distinct (map fst ?es)" by simp
  then show "distinct (map fst es)" by (subst es) (simp only: distinct_map distinct_sort set_sort)
  show "(n, b) \<in> set es \<longleftrightarrow> (\<exists>d. lookup (w_fs w) (resolve p @ [n]) = Some d \<and> b = is_dir (Some d))"
  proof -
    have "set es = set ?es" by (subst es) (simp only: set_sort)
    then have "(n, b) \<in> set es \<longleftrightarrow>
        (\<exists>q d. (q, d) \<in> set (w_fs w) \<and> q \<noteq> [] \<and> butlast q = resolve p \<and> n = last q \<and> b = is_dir (Some d))"
      by (force simp: child_entries_def image_iff)
    also have "\<dots> \<longleftrightarrow> (\<exists>d. (resolve p @ [n], d) \<in> set (w_fs w) \<and> b = is_dir (Some d))"
      by (metis append_butlast_last_id butlast_snoc last_snoc snoc_eq_iff_butlast)
    finally show ?thesis using dist by (simp add: lookup_def map_of_eq_Some_iff)
  qed
qed

subsection \<open>Making directories\<close>

lemma mkdirs_touches:
  "touches {q. prefix q (d @ cs) \<and> lookup (w_fs w) q = None} w (snd (mkdirs d cs m w))"
proof (induction d cs m w rule: mkdirs.induct)
  case (1 d m w)
  show ?case by simp
next
  case (2 d c cs m w)
  let ?p = "d @ [c]" and ?S = "{q. prefix q (d @ c # cs) \<and> lookup (w_fs w) q = None}"
  show ?case
  proof (cases "lookup (w_fs w) ?p")
    case (Some n)
    show ?thesis
    proof (cases n)
      case (File m' t)
      with Some show ?thesis by simp
    next
      case (Dir m')
      from "2.IH"(2)[OF refl Some Dir] Some Dir show ?thesis by simp
    qed
  next
    case None
    obtain r v where v: "call w = (r, v)" by (cases "call w")
    then have eq: "w_fs v = w_fs w" "w_hist v = w_hist w" by (auto simp: call_def)
    show ?thesis
    proof (cases r)
      case (Some x)
      then show ?thesis using None v eq by (cases x) (simp add: observed_same)
    next
      case r: None
      let ?u = "set_fs (put ?p (Dir \<lparr>m_mode = create_mode m v, m_uid = w_uid v, m_gid = w_gid v\<rparr>) (w_fs v)) v"
      have "?p \<in> ?S" using None by simp
      then have "touches ?S w ?u" using eq by (simp add: observed_def)
      moreover have "touches ?S ?u (snd (mkdirs ?p cs m ?u))"
        by (rule touches_mono[OF "2.IH"(1)[OF refl None _ r]]) (use v eq in \<open>auto split: if_splits\<close>)
      ultimately have "touches ?S w (snd (mkdirs ?p cs m ?u))" by (rule touches_trans)
      with None v r show ?thesis by (simp add: Let_def)
    qed
  qed
qed

lemma mkdirs_Some:
  "mkdirs d cs m w = (None, w') \<Longrightarrow> is_dir (lookup (w_fs w) d) \<Longrightarrow> is_dir (lookup (w_fs w') (d @ cs))"
proof (induction d cs m w rule: mkdirs.induct)
  case (1 d m w)
  then show ?case by simp
next
  case (2 d c cs m w)
  obtain r v where v: "call w = (r, v)" by (cases "call w")
  show ?case
    using "2.prems" "2.IH"(1)[OF refl _ v[symmetric]] "2.IH"(2)[OF refl]
    by (auto simp: Let_def v split: option.splits node.splits fault.splits)
qed

lemma mkdirs_ok:
  "no_faults w \<Longrightarrow> (\<And>q t a. prefix q (d @ cs) \<Longrightarrow> lookup (w_fs w) q \<noteq> Some (File a t)) \<Longrightarrow>
   fst (mkdirs d cs m w) = None"
proof (induction d cs m w rule: mkdirs.induct)
  case (1 d m w)
  show ?case by simp
next
  case (2 d c cs m w)
  let ?p = "d @ [c]" and ?v = "w\<lparr>w_tick := Suc (w_tick w)\<rparr>"
  have c: "call w = (None, ?v)" using "2.prems"(1) by (rule call_no_faults)
  have nofile: "lookup (w_fs w) ?p \<noteq> Some (File a t)" for a t
    by (rule "2.prems"(2)) simp
  show ?case
  proof (cases "lookup (w_fs w) ?p")
    case (Some n)
    then obtain a where "n = Dir a" using nofile by (cases n) auto
    with Some "2.IH"(2)[OF refl Some] "2.prems" show ?thesis by simp
  next
    case None
    let ?u = "set_fs (put ?p (Dir \<lparr>m_mode = create_mode m ?v, m_uid = w_uid ?v, m_gid = w_gid ?v\<rparr>) (w_fs ?v)) ?v"
    have "fst (mkdirs ?p cs m ?u) = None"
    proof (rule "2.IH"(1)[OF refl None _ refl])
      show "(None, ?v) = call w" using c by simp
      show "no_faults ?u" using "2.prems"(1) by (simp add: no_faults_def set_fs_def)
      show "lookup (w_fs ?u) q \<noteq> Some (File a t)" if "prefix q (?p @ cs)" for q a t
        using "2.prems"(2)[of q a t] that by simp
    qed
    with None c show ?thesis by (simp add: Let_def)
  qed
qed

lemma touches_mkdir_all:
  "touches {q. prefix q (resolve p) \<and> lookup (w_fs w) q = None} w (snd (os_mkdir_all p m w))"
  using mkdirs_touches[of "[]" "resolve p" w m] by (simp add: os_mkdir_all_def)

lemma mkdir_all_keeps:
  "lookup (w_fs w) q = Some n \<Longrightarrow> lookup (w_fs (snd (os_mkdir_all p m w))) q = Some n"
  using touches_now[OF touches_mkdir_all[of p w m], of q] by simp

lemma mkdir_all_Some:
  "os_mkdir_all p m w = (None, w') \<Longrightarrow> fs_ok (w_fs w) \<Longrightarrow> is_dir (lookup (w_fs w') (resolve p))"
  using mkdirs_Some[of "[]" "resolve p" m w w'] by (simp add: os_mkdir_all_def)

lemma mkdir_all_ok:
  "no_faults w \<Longrightarrow> (\<And>q t a. prefix q (resolve p) \<Longrightarrow> lookup (w_fs w) q \<noteq> Some (File a t)) \<Longrightarrow>
   fst (os_mkdir_all p m w) = None"
  using mkdirs_ok[of w "[]" "resolve p" m] by (simp add: os_mkdir_all_def)

subsection \<open>Relations every call keeps\<close>

text \<open>
  A few facts are wanted of every operation made of calls: it leaves the environment alone,
  it touches the paths it names only, no file system that becomes visible on the way is
  ill-formed, and calls on files make no directories. The interface says what a relation
  between worlds needs to hold of every such operation; an operation's lemma is proved once
  inside it and holds for each of the relations.
\<close>

locale file_effects =
  fixes R :: "path set \<Rightarrow> world \<Rightarrow> world \<Rightarrow> bool"
  assumes R_refl: "R P w w"
    and R_trans: "R P w v \<Longrightarrow> R P v u \<Longrightarrow> R P w u"
    and R_mono: "R P w v \<Longrightarrow> P \<subseteq> Q \<Longrightarrow> R Q w v"
    and R_tick: "R P w (w\<lparr>w_tick := n\<rparr>)"
    and R_write_file: "R {resolve p} w (snd (os_write_file p s m w))"
    and R_rename: "R {resolve p, resolve q} w (snd (os_rename p q w))"
    and R_remove: "R {resolve p} w (snd (os_remove p w))"
    and R_chmod: "R {resolve p} w (snd (os_chmod p m w))"
    and R_chown: "R {resolve p} w (snd (os_chown p i j w))"
begin

lemma R_write: "os_write_file p s m w = (r, w') \<Longrightarrow> resolve p \<in> P \<Longrightarrow> R P w w'"
  using R_mono[OF R_write_file[of p w s m], of P] by simp

lemma R_move: "os_rename p q w = (r, w') \<Longrightarrow> resolve p \<in> P \<Longrightarrow> resolve q \<in> P \<Longrightarrow> R P w w'"
  using R_mono[OF R_rename[of p q w], of P] by simp

lemma R_unlink: "os_remove p w = (r, w') \<Longrightarrow> resolve p \<in> P \<Longrightarrow> R P w w'"
  using R_mono[OF R_remove[of p w], of P] by simp

text \<open>Extending a run by one more call.\<close>

lemma R_then:
  assumes "R P w u"
  shows "resolve p \<in> P \<Longrightarrow> R P w (snd (os_write_file p s m u))"
    and "resolve p \<in> P \<Longrightarrow> resolve q \<in> P \<Longrightarrow> R P w (snd (os_rename p q u))"
    and "resolve p \<in> P \<Longrightarrow> R P w (snd (os_remove p u))"
    and "resolve p \<in> P \<Longrightarrow> R P w (snd (os_chmod p m u))"
    and "resolve p \<in> P \<Longrightarrow> R P w (snd (os_chown p i j u))"
  using R_trans[OF assms R_mono[OF R_write_file[of p u s m]]] R_trans[OF assms R_mono[OF R_rename[of p q u]]]
    R_trans[OF assms R_mono[OF R_remove[of p u]]] R_trans[OF assms R_mono[OF R_chmod[of p u m]]]
    R_trans[OF assms R_mono[OF R_chown[of p u i j]]]
  by simp_all

lemma R_or_fail:
  assumes "R P w (snd r)" and "\<And>u. R P w u \<Longrightarrow> R P w (undo u)"
    and "\<And>u. R P w u \<Longrightarrow> R P w (snd (k u))"
  shows "R P w (snd (or_fail r msg undo k))"
  by (rule or_fail_inv[where I = "R P w"]) (use assms in auto)

end

text \<open>With calls that make directories.\<close>

locale call_effects = file_effects +
  assumes R_mkdir_all: "R {q. prefix q (resolve p)} w (snd (os_mkdir_all p m w))"
begin

lemma R_then_dirs:
  assumes "R P w u" and "{q. prefix q (resolve p)} \<subseteq> P"
  shows "R P w (snd (os_mkdir_all p m u))"
  using R_trans[OF assms(1) R_mono[OF R_mkdir_all[of p u m] assms(2)]] .

end

interpretation env: call_effects "\<lambda>P w w'. env_of w' = env_of w"
  by unfold_locales (simp_all add: world_frame)

interpretation touch: call_effects touches
  by unfold_locales
     (auto intro: touches_trans touches_mono touches_write_file touches_rename touches_remove
        touches_chmod touches_chown touches_mono[OF touches_mkdir_all])

interpretation wf: call_effects "\<lambda>P w w'. fs_ok (w_fs w) \<longrightarrow> observed fs_ok w w'"
  by unfold_locales
     (auto intro: observed_trans dest: observed_now ok_write_file ok_rename ok_remove
        ok_chmod ok_chown ok_mkdir_all)

text \<open>No path becomes a directory.\<close>

abbreviation no_new_dir :: "world \<Rightarrow> world \<Rightarrow> bool" where
  "no_new_dir w w' \<equiv> \<forall>q. is_dir (lookup (w_fs w') q) \<longrightarrow> is_dir (lookup (w_fs w) q)"

lemma no_new_dir_open: "no_new_dir w (snd (open_trunc p m w))"
  by (simp add: open_trunc_def call_unfold split: option.split fault.split node.split)

lemma no_new_dir_content: "no_new_dir w (set_content p s w)"
  by (simp add: set_content_def split: option.split node.split)

lemma no_new_dir_close: "no_new_dir w (snd (write_close p s w))"
  using no_new_dir_content[of "resolve p" s' "w\<lparr>w_tick := n\<rparr>" for n s']
  by (simp add: write_close_def call_unfold split: option.split fault.split)

lemma no_new_dir_write: "no_new_dir w (snd (os_write_file p s m w))"
proof (cases "open_trunc p m w")
  case (Pair r v)
  then show ?thesis
    using no_new_dir_open[of p m w] no_new_dir_close[of p s v]
    by (simp add: os_write_file_def split: option.split)
qed

lemma no_new_dir_rename: "no_new_dir w (snd (os_rename p q w))"
  by (simp add: os_rename_def call_unfold split: option.split fault.split)

lemma no_new_dir_remove: "no_new_dir w (snd (os_remove p w))"
  by (simp add: os_remove_def call_unfold split: option.split fault.split node.split)

lemma no_new_dir_meta: "no_new_dir w (snd (change_meta opn p g w))"
  by (simp add: change_meta_def call_unfold split: option.split fault.split)

lemma no_new_dir_chmod: "no_new_dir w (snd (os_chmod p m w))"
  unfolding os_chmod_def by (rule no_new_dir_meta)

lemma no_new_dir_chown: "no_new_dir w (snd (os_chown p i j w))"
  unfolding os_chown_def by (rule no_new_dir_meta)

interpretation calm: file_effects "\<lambda>P. no_new_dir"
  by unfold_locales
     (rule no_new_dir_write no_new_dir_rename no_new_dir_remove no_new_dir_chmod no_new_dir_chown
       | blast | simp)+

end
