(* ===== verification/Lifecycle.thy ===== *)
theory Lifecycle
  imports GoOSFacts
begin

text \<open>
  The lifecycle manager (pkg/lifecycle.go): the state reported to the host, the boot time,
  the cached agent statuses, and the callback that pushes state changes. Each operation
  holds the mutex for all of its accesses to the fields, so it is one step.
\<close>

record lifecycle_manager =
  lm_state :: lifecycle_state
  lm_message :: string
  lm_boot_time :: int
  lm_agents :: "agent_status list"
  lm_send :: "(envelope \<Rightarrow> world \<Rightarrow> world) option"

definition new_lifecycle_manager :: "world \<Rightarrow> lifecycle_manager" where
  "new_lifecycle_manager w =
     \<lparr>lm_state = state_booting, lm_message = '''', lm_boot_time = w_clock w, lm_agents = [],
      lm_send = None\<rparr>"

definition set_vsock_sender ::
  "(envelope \<Rightarrow> world \<Rightarrow> world) option \<Rightarrow> lifecycle_manager \<Rightarrow> lifecycle_manager" where
  "set_vsock_sender f lm = lm\<lparr>lm_send := f\<rparr>"

definition transition ::
  "lifecycle_state \<Rightarrow> string \<Rightarrow> lifecycle_manager \<Rightarrow> world \<Rightarrow> lifecycle_manager \<times> world" where
  "transition st msg lm w =
     (let lm' = lm\<lparr>lm_state := st, lm_message := msg\<rparr> in
      case lm_send lm of
        None \<Rightarrow> (lm', w)
      | Some send \<Rightarrow>
          (case new_envelope msg_lifecycle
                  (Some (Inr (enc_lifecycle \<lparr>lp_state = st, lp_message = msg\<rparr>))) of
             Inl e \<Rightarrow> (lm', w)
           | Inr env \<Rightarrow> (lm', send env w)))"

definition current_state :: "lifecycle_manager \<Rightarrow> lifecycle_state" where
  [simp]: "current_state lm = lm_state lm"

text \<open>Durations are nanoseconds; seconds are truncated towards zero.\<close>

definition trunc_seconds :: "int \<Rightarrow> int" where
  "trunc_seconds d = sgn d * (\<bar>d\<bar> div 1000000000)"

definition uptime :: "lifecycle_manager \<Rightarrow> world \<Rightarrow> int" where
  "uptime lm w = w_clock w - lm_boot_time lm"

fun upsert_agent :: "agent_status \<Rightarrow> agent_status list \<Rightarrow> agent_status list" where
  "upsert_agent st [] = [st]"
| "upsert_agent st (x # xs) = (if as_name x = as_name st then st # xs else x # upsert_agent st xs)"

definition update_agent_status :: "agent_status \<Rightarrow> lifecycle_manager \<Rightarrow> lifecycle_manager" where
  "update_agent_status st lm = lm\<lparr>lm_agents := upsert_agent st (lm_agents lm)\<rparr>"

definition replace_agent_statuses :: "agent_status list \<Rightarrow> lifecycle_manager \<Rightarrow> lifecycle_manager" where
  "replace_agent_statuses as lm = lm\<lparr>lm_agents := as\<rparr>"

definition health :: "lifecycle_manager \<Rightarrow> world \<Rightarrow> health_payload" where
  "health lm w =
     \<lparr>hp_state = lm_state lm, hp_agents = lm_agents lm, hp_uptime = trunc_seconds (uptime lm w)\<rparr>"

subsection \<open>Lemmas\<close>

lemma transition_fields [simp]:
  "lm_state (fst (transition st msg lm w)) = st"
  "lm_message (fst (transition st msg lm w)) = msg"
  "lm_boot_time (fst (transition st msg lm w)) = lm_boot_time lm"
  "lm_agents (fst (transition st msg lm w)) = lm_agents lm"
  "lm_send (fst (transition st msg lm w)) = lm_send lm"
  by (simp_all add: transition_def Let_def split: option.split sum.split)

lemma transition_no_sender [simp]:
  "lm_send lm = None \<Longrightarrow> snd (transition st msg lm w) = w"
  by (simp add: transition_def)

lemma transition_sends:
  "lm_send lm = Some send \<Longrightarrow>
   snd (transition st msg lm w) =
     send \<lparr>env_type = msg_lifecycle,
           env_payload = Some (enc_lifecycle \<lparr>lp_state = st, lp_message = msg\<rparr>)\<rparr> w"
  by (simp add: transition_def new_envelope_def)

lemma upsert_agent_names:
  "map as_name (upsert_agent st xs) =
     (if as_name st \<in> as_name ` set xs then map as_name xs else map as_name xs @ [as_name st])"
  by (induction xs) auto

lemma upsert_agent_find:
  "find (\<lambda>x. as_name x = n) (upsert_agent st xs) =
     (if n = as_name st then Some st else find (\<lambda>x. as_name x = n) xs)"
  by (induction xs) auto

text \<open>Updating the status of an agent keeps one entry per agent name, in the order in
  which the names first appeared: an agent that is already there is overwritten in place,
  a new one goes to the end, and looking up any name afterwards finds the new status for the
  updated agent and the old answer for every other.\<close>

theorem update_agent_status_upserts:
  "map as_name (lm_agents (update_agent_status st lm)) =
     (if as_name st \<in> as_name ` set (lm_agents lm) then map as_name (lm_agents lm)
      else map as_name (lm_agents lm) @ [as_name st]) \<and>
   find (\<lambda>x. as_name x = n) (lm_agents (update_agent_status st lm)) =
     (if n = as_name st then Some st else find (\<lambda>x. as_name x = n) (lm_agents lm))"
  by (simp add: update_agent_status_def upsert_agent_names upsert_agent_find)

end
