(* ===== verification/GoJsonText.thy ===== *)
theory GoJsonText
  imports GoJson
begin

text \<open>
  JSON text: what \<open>json.Unmarshal\<close> and \<open>json.Decoder\<close> accept, and what \<open>json.Encoder\<close>
  writes. Strings are UTF-8: a byte that is not part of a valid encoding is read as U+FFFD
  and written as the escape for it, and the encoder escapes the characters of HTML. Nesting
  is limited to 10000. The texts of syntax errors are not modelled: a reader returns
  \<open>None\<close>.
\<close>

subsection \<open>UTF-8\<close>

definition byte_of :: "char \<Rightarrow> nat" where
  "byte_of c = of_char c"

definition between :: "nat \<Rightarrow> char \<Rightarrow> nat \<Rightarrow> bool" where
  "between a c b \<longleftrightarrow> a \<le> byte_of c \<and> byte_of c \<le> b"

text \<open>The second byte of an encoding of three or four bytes has a range of its own.\<close>

definition rune3 :: "char \<Rightarrow> char \<Rightarrow> char \<Rightarrow> bool" where
  "rune3 a b c \<longleftrightarrow>
     between (if byte_of a = 0xE0 then 0xA0 else 0x80) b (if byte_of a = 0xED then 0x9F else 0xBF) \<and>
     between 0x80 c 0xBF"

definition rune4 :: "char \<Rightarrow> char \<Rightarrow> char \<Rightarrow> char \<Rightarrow> bool" where
  "rune4 a b c d \<longleftrightarrow>
     between (if byte_of a = 0xF0 then 0x90 else 0x80) b (if byte_of a = 0xF4 then 0x8F else 0xBF) \<and>
     between 0x80 c 0xBF \<and> between 0x80 d 0xBF"

text \<open>\<open>utf8.DecodeRune\<close>: the length of the encoding at the front, \<open>None\<close> for an invalid one.\<close>

definition rune_len :: "string \<Rightarrow> nat option" where
  "rune_len s =
     (case s of
        [] \<Rightarrow> None
      | a # r \<Rightarrow>
          if byte_of a < 0x80 then Some 1
          else if between 0xC2 a 0xDF then
            (case r of b # _ \<Rightarrow> if between 0x80 b 0xBF then Some 2 else None | _ \<Rightarrow> None)
          else if between 0xE0 a 0xEF then
            (case r of b # c # _ \<Rightarrow> if rune3 a b c then Some 3 else None | _ \<Rightarrow> None)
          else if between 0xF0 a 0xF4 then
            (case r of b # c # d # _ \<Rightarrow> if rune4 a b c d then Some 4 else None | _ \<Rightarrow> None)
          else None)"

definition utf8_enc :: "nat \<Rightarrow> string" where
  "utf8_enc n =
     (if n < 0x80 then [char_of n]
      else if n < 0x800 then [char_of (0xC0 + n div 64), char_of (0x80 + n mod 64)]
      else if n < 0x10000 then
        [char_of (0xE0 + n div 4096), char_of (0x80 + n div 64 mod 64), char_of (0x80 + n mod 64)]
      else
        [char_of (0xF0 + n div 262144), char_of (0x80 + n div 4096 mod 64),
         char_of (0x80 + n div 64 mod 64), char_of (0x80 + n mod 64)])"

definition replacement :: string where
  "replacement = utf8_enc 0xFFFD"

subsection \<open>Reading strings\<close>

definition hex_val :: "char \<Rightarrow> nat option" where
  "hex_val c =
     (if between 48 c 57 then Some (byte_of c - 48)
      else if between 97 c 102 then Some (byte_of c - 87)
      else if between 65 c 70 then Some (byte_of c - 55) else None)"

definition hex4 :: "string \<Rightarrow> (nat \<times> string) option" where
  "hex4 s =
     (case s of
        a # b # c # d # r \<Rightarrow>
          (case (hex_val a, hex_val b, hex_val c, hex_val d) of
             (Some i, Some j, Some k, Some l) \<Rightarrow> Some (((i * 16 + j) * 16 + k) * 16 + l, r)
           | _ \<Rightarrow> None)
      | _ \<Rightarrow> None)"

text \<open>The text of an escaped code unit; the second half of a surrogate pair is read with it.\<close>

definition unescape_unit :: "nat \<Rightarrow> string \<Rightarrow> string \<times> string" where
  "unescape_unit n r =
     (if n < 0xD800 \<or> 0xE000 \<le> n then (utf8_enc n, r)
      else
        (case (if prefix [CHR 0x5C, CHR ''u''] r then hex4 (drop 2 r) else None) of
           Some (m, r') \<Rightarrow>
             if n < 0xDC00 \<and> 0xDC00 \<le> m \<and> m < 0xE000
             then (utf8_enc (0x10000 + (n - 0xD800) * 0x400 + (m - 0xDC00)), r')
             else (replacement, r)
         | None \<Rightarrow> (replacement, r)))"

definition simple_escape :: "char \<Rightarrow> char option" where
  "simple_escape c =
     (if c = CHR 0x22 \<or> c = CHR 0x5C \<or> c = CHR ''/'' then Some c
      else if c = CHR ''b'' then Some (CHR 0x08)
      else if c = CHR ''f'' then Some (CHR 0x0C)
      else if c = CHR ''n'' then Some (CHR 0x0A)
      else if c = CHR ''r'' then Some (CHR 0x0D)
      else if c = CHR ''t'' then Some (CHR 0x09)
      else None)"

lemma hex4_length: "hex4 s = Some (n, r) \<Longrightarrow> length r < length s"
  by (auto simp: hex4_def split: list.splits option.splits)

lemma unescape_unit_length: "length (snd (unescape_unit n r)) \<le> length r"
proof -
  have "hex4 (drop 2 r) = Some (m, r') \<Longrightarrow> length r' \<le> length r" for m r'
    using hex4_length[of "drop 2 r"] by fastforce
  then show ?thesis by (auto simp: unescape_unit_def split: option.split)
qed

lemma rune_len_pos: "rune_len s = Some n \<Longrightarrow> 0 < n \<and> n \<le> length s"
  by (auto simp: rune_len_def Let_def split: list.splits if_splits)

text \<open>The rest of a string literal, after the opening quote.\<close>

function parse_chars :: "string \<Rightarrow> (string \<times> string) option" where
  "parse_chars [] = None"
| "parse_chars (c # cs) =
     (if c = CHR 0x22 then Some ([], cs)
      else if c = CHR 0x5C then
        (case cs of
           [] \<Rightarrow> None
         | e # ds \<Rightarrow>
             if e = CHR ''u'' then
               (case hex4 ds of
                  None \<Rightarrow> None
                | Some (n, r) \<Rightarrow>
                    map_option (\<lambda>(t, x). (fst (unescape_unit n r) @ t, x))
                      (parse_chars (snd (unescape_unit n r))))
             else
               (case simple_escape e of
                  None \<Rightarrow> None
                | Some d \<Rightarrow> map_option (\<lambda>(t, x). (d # t, x)) (parse_chars ds)))
      else if byte_of c < 0x20 then None
      else
        (case rune_len (c # cs) of
           None \<Rightarrow> map_option (\<lambda>(t, x). (replacement @ t, x)) (parse_chars cs)
         | Some n \<Rightarrow>
             map_option (\<lambda>(t, x). (take n (c # cs) @ t, x)) (parse_chars (drop n (c # cs)))))"
  by pat_completeness auto
termination
proof (relation "measure length", goal_cases)
  case 1
  show ?case by simp
next
  case (2 c cs e ds y n r)
  then show ?case
    using hex4_length[of ds n r] unescape_unit_length[of n r] by simp
next
  case (5 c cs n)
  then show ?case using rune_len_pos[of "c # cs" n] by simp
qed auto

subsection \<open>Reading values\<close>

definition is_space :: "char \<Rightarrow> bool" where
  "is_space c \<longleftrightarrow> c = CHR '' '' \<or> c = CHR 0x09 \<or> c = CHR 0x0A \<or> c = CHR 0x0D"

definition skip_ws :: "string \<Rightarrow> string" where
  "skip_ws s = dropWhile is_space s"

text \<open>
  A number: sign, integer part without leading zeros, optional fraction, optional exponent;
  each part with its rest.
\<close>

definition take_digits :: "string \<Rightarrow> string \<times> string" where
  "take_digits s = (takeWhile is_digit s, dropWhile is_digit s)"

definition num_int :: "string \<Rightarrow> (string \<times> string) option" where
  "num_int s =
     (case s of
        [] \<Rightarrow> None
      | c # cs \<Rightarrow>
          if c = CHR ''0'' then Some ([c], cs)
          else if is_digit c then Some (take_digits s) else None)"

definition num_frac :: "string \<Rightarrow> (string \<times> string) option" where
  "num_frac s =
     (case s of
        [] \<Rightarrow> Some ([], s)
      | c # cs \<Rightarrow>
          if c = CHR ''.'' then
            (let (ds, r) = take_digits cs in if ds = [] then None else Some (c # ds, r))
          else Some ([], s))"

definition num_exp :: "string \<Rightarrow> (string \<times> string) option" where
  "num_exp s =
     (case s of
        [] \<Rightarrow> Some ([], s)
      | c # cs \<Rightarrow>
          if c = CHR ''e'' \<or> c = CHR ''E'' then
            (let (sgn, r0) =
               (case cs of [] \<Rightarrow> ([], cs)
                | d # ds \<Rightarrow> if d = CHR ''+'' \<or> d = CHR ''-'' then ([d], ds) else ([], cs));
                 (ds, r) = take_digits r0
             in if ds = [] then None else Some (c # sgn @ ds, r))
          else Some ([], s))"

definition parse_number :: "string \<Rightarrow> (string \<times> string) option" where
  "parse_number s =
     (let (sgn, s0) = (if prefix ''-'' s then (''-'', drop 1 s) else ([], s)) in
      case num_int s0 of
        None \<Rightarrow> None
      | Some (a, s1) \<Rightarrow>
          (case num_frac s1 of
             None \<Rightarrow> None
           | Some (b, s2) \<Rightarrow>
               (case num_exp s2 of
                  None \<Rightarrow> None
                | Some (c, s3) \<Rightarrow> Some (sgn @ a @ b @ c, s3))))"

text \<open>
  A value, the rest of an array after its opening bracket or a comma, and the rest of an
  object. The first argument is fuel, two units for a byte; the second one how many more
  levels may be opened.
\<close>

fun parse_value :: "nat \<Rightarrow> nat \<Rightarrow> string \<Rightarrow> (json \<times> string) option"
  and parse_elems :: "nat \<Rightarrow> nat \<Rightarrow> string \<Rightarrow> (json list \<times> string) option"
  and parse_members :: "nat \<Rightarrow> nat \<Rightarrow> string \<Rightarrow> ((string \<times> json) list \<times> string) option" where
  "parse_value 0 d s = None"
| "parse_value (Suc f) d s =
     (case skip_ws s of
        [] \<Rightarrow> None
      | c # cs \<Rightarrow>
          if c = CHR 0x22 then map_option (\<lambda>(t, r). (JStr t, r)) (parse_chars cs)
          else if c = CHR ''['' then
            (if d = 0 then None
             else if prefix '']'' (skip_ws cs) then Some (JArr [], drop 1 (skip_ws cs))
             else map_option (\<lambda>(js, r). (JArr js, r)) (parse_elems f (d - 1) cs))
          else if c = CHR ''{'' then
            (if d = 0 then None
             else if prefix ''}'' (skip_ws cs) then Some (JObj [], drop 1 (skip_ws cs))
             else map_option (\<lambda>(ms, r). (JObj ms, r)) (parse_members f (d - 1) cs))
          else if prefix ''true'' (c # cs) then Some (JBool True, drop 3 cs)
          else if prefix ''false'' (c # cs) then Some (JBool False, drop 4 cs)
          else if prefix ''null'' (c # cs) then Some (JNull, drop 3 cs)
          else map_option (\<lambda>(t, r). (JNum t, r)) (parse_number (c # cs)))"
| "parse_elems 0 d s = None"
| "parse_elems (Suc f) d s =
     (case parse_value f d s of
        None \<Rightarrow> None
      | Some (v, r) \<Rightarrow>
          (case skip_ws r of
             [] \<Rightarrow> None
           | c # cs \<Rightarrow>
               if c = CHR '','' then map_option (\<lambda>(js, x). (v # js, x)) (parse_elems f d cs)
               else if c = CHR '']'' then Some ([v], cs) else None))"
| "parse_members 0 d s = None"
| "parse_members (Suc f) d s =
     (if prefix [CHR 0x22] (skip_ws s) then
        (case parse_chars (drop 1 (skip_ws s)) of
           None \<Rightarrow> None
         | Some (k, r) \<Rightarrow>
             if prefix '':'' (skip_ws r) then
               (case parse_value f d (drop 1 (skip_ws r)) of
                  None \<Rightarrow> None
                | Some (v, r1) \<Rightarrow>
                    (case skip_ws r1 of
                       [] \<Rightarrow> None
                     | c # cs \<Rightarrow>
                         if c = CHR '','' then map_option (\<lambda>(ms, x). ((k, v) # ms, x)) (parse_members f d cs)
                         else if c = CHR ''}'' then Some ([(k, v)], cs) else None))
             else None)
      else None)"

definition max_nesting :: nat where
  "max_nesting = 10000"

text \<open>\<open>json.Unmarshal\<close> reads one value and nothing after it; \<open>Decoder.Decode\<close> the first value.\<close>

definition first_value :: "string \<Rightarrow> (json \<times> string) option" where
  "first_value s = parse_value (2 * length s + 1) max_nesting s"

definition unmarshal_text :: "string \<Rightarrow> json option" where
  "unmarshal_text s =
     (case first_value s of
        Some (j, r) \<Rightarrow> if skip_ws r = [] then Some j else None
      | None \<Rightarrow> None)"

definition decode_text :: "string \<Rightarrow> json option" where
  "decode_text s = map_option fst (first_value s)"

text \<open>The error of a text that is not JSON; its wording is not Go's.\<close>

definition json_syntax_error :: go_error where
  "json_syntax_error = ErrMsg ''syntax error''"

subsection \<open>Writing\<close>

definition u_escape :: "nat \<Rightarrow> string" where
  "u_escape n =
     [CHR 0x5C, CHR ''u'', hex_digit (n div 4096), hex_digit (n div 256 mod 16),
      hex_digit (n div 16 mod 16), hex_digit (n mod 16)]"

text \<open>A byte below 0x80; the characters less, greater and ampersand are escaped for HTML.\<close>

definition ascii_text :: "char \<Rightarrow> string" where
  "ascii_text c =
     (if c = CHR 0x22 \<or> c = CHR 0x5C then [CHR 0x5C, c]
      else if c = CHR 0x08 then [CHR 0x5C, CHR ''b'']
      else if c = CHR 0x0C then [CHR 0x5C, CHR ''f'']
      else if c = CHR 0x0A then [CHR 0x5C, CHR ''n'']
      else if c = CHR 0x0D then [CHR 0x5C, CHR ''r'']
      else if c = CHR 0x09 then [CHR 0x5C, CHR ''t'']
      else if byte_of c < 0x20 \<or> c = CHR ''<'' \<or> c = CHR ''>'' \<or> c = CHR ''&'' then u_escape (byte_of c)
      else [c])"

text \<open>The line and paragraph separators are escaped too.\<close>

definition rune_text :: "string \<Rightarrow> string" where
  "rune_text r =
     (if r = utf8_enc 0x2028 then u_escape 0x2028
      else if r = utf8_enc 0x2029 then u_escape 0x2029 else r)"

function print_chars :: "string \<Rightarrow> string" where
  "print_chars [] = []"
| "print_chars (c # cs) =
     (if byte_of c < 0x80 then ascii_text c @ print_chars cs
      else
        (case rune_len (c # cs) of
           None \<Rightarrow> u_escape 0xFFFD @ print_chars cs
         | Some n \<Rightarrow> rune_text (take n (c # cs)) @ print_chars (drop n (c # cs))))"
  by pat_completeness auto
termination
  by (relation "measure length") (auto dest: rune_len_pos)

definition print_string :: "string \<Rightarrow> string" where
  "print_string s = CHR 0x22 # print_chars s @ [CHR 0x22]"

fun print_json :: "json \<Rightarrow> string" where
  "print_json JNull = ''null''"
| "print_json (JBool b) = (if b then ''true'' else ''false'')"
| "print_json (JNum n) = n"
| "print_json (JStr s) = print_string s"
| "print_json (JArr js) = ''['' @ join_with '','' (map print_json js) @ '']''"
| "print_json (JObj ms) =
     ''{'' @ join_with '','' (map (\<lambda>(k, v). print_string k @ '':'' @ print_json v) ms) @ ''}''"

text \<open>\<open>Encoder.Encode\<close>: the text and a newline.\<close>

definition encode_line :: "json \<Rightarrow> string" where
  "encode_line j = print_json j @ [CHR 0x0A]"

subsection \<open>Readers consume, and more fuel changes nothing\<close>

lemma skip_ws_length: "length (skip_ws s) \<le> length s"
  by (simp add: skip_ws_def length_dropWhile_le)

lemma parse_chars_length: "parse_chars s = Some (t, r) \<Longrightarrow> length r < length s"
proof (induction s arbitrary: t r rule: parse_chars.induct)
  case 1
  then show ?case by simp
next
  case (2 c cs)
  consider (quote) "c = CHR 0x22" | (esc) "c = CHR 0x5C" | (ctrl) "c \<noteq> CHR 0x22" "c \<noteq> CHR 0x5C" "byte_of c < 0x20"
    | (raw) "c \<noteq> CHR 0x22" "c \<noteq> CHR 0x5C" "\<not> byte_of c < 0x20" by blast
  then show ?case
  proof cases
    case quote
    with "2.prems" show ?thesis by simp
  next
    case esc
    with "2.prems" obtain e ds where cs: "cs = e # ds" by (cases cs) auto
    show ?thesis
    proof (cases "e = CHR ''u''")
      case True
      with "2.prems" esc cs obtain n r0 t0 where h: "hex4 ds = Some (n, r0)"
        "parse_chars (snd (unescape_unit n r0)) = Some (t0, r)"
        by (auto split: option.splits)
      have "length r < length (snd (unescape_unit n r0))"
        using "2.IH"(1)[OF _ esc cs True h(1) refl] h(2) esc by simp
      then show ?thesis using unescape_unit_length[of n r0] hex4_length[OF h(1)] cs by simp
    next
      case False
      with "2.prems" esc cs obtain d t0 where h: "simple_escape e = Some d" "parse_chars ds = Some (t0, r)"
        by (auto split: option.splits)
      show ?thesis using "2.IH"(2)[OF _ esc cs False h] esc cs by simp
    qed
  next
    case ctrl
    with "2.prems" show ?thesis by simp
  next
    case raw
    show ?thesis
    proof (cases "rune_len (c # cs)")
      case None
      with "2.prems" raw obtain t0 where "parse_chars cs = Some (t0, r)" by auto
      then show ?thesis using "2.IH"(3)[OF raw None] by simp
    next
      case (Some n)
      with "2.prems" raw obtain t0 where "parse_chars (drop n (c # cs)) = Some (t0, r)" by auto
      then show ?thesis using "2.IH"(4)[OF raw Some] by (cases n) auto
    qed
  qed
qed

lemma num_int_length: "num_int s = Some (t, r) \<Longrightarrow> length r < length s"
  by (auto simp: num_int_def take_digits_def split: list.splits if_splits intro: le_less_trans[OF length_dropWhile_le])

lemma num_frac_length: "num_frac s = Some (t, r) \<Longrightarrow> length r \<le> length s"
  by (auto simp: num_frac_def take_digits_def Let_def split: list.splits if_splits
      intro: le_trans[OF length_dropWhile_le])

lemma num_exp_length: "num_exp s = Some (t, r) \<Longrightarrow> length r \<le> length s"
  by (auto simp: num_exp_def take_digits_def Let_def split: list.splits if_splits
      intro: le_trans[OF length_dropWhile_le])

lemma parse_number_length:
  assumes "parse_number s = Some (t, r)"
  shows "length r < length s"
proof -
  obtain sgn s0 where s0: "(if prefix ''-'' s then (''-'', drop 1 s) else ([], s)) = (sgn, s0)" by force
  then have "length s0 \<le> length s" by (auto split: if_splits)
  moreover from assms s0 obtain a s1 b s2 c where
    "num_int s0 = Some (a, s1)" "num_frac s1 = Some (b, s2)" "num_exp s2 = Some (c, r)"
    by (auto simp: parse_number_def split: option.splits)
  ultimately show ?thesis
    using num_int_length num_frac_length num_exp_length by fastforce
qed

lemma skip_ws_Cons: "skip_ws s = c # cs \<Longrightarrow> length cs < length s"
  using skip_ws_length[of s] by simp

lemma skip_ws_drop: "length (drop 1 (skip_ws s)) \<le> length s"
  using skip_ws_length[of s] by simp

lemma parse_length:
  "(\<forall>v r. parse_value f d s = Some (v, r) \<longrightarrow> length r < length s) \<and>
   (\<forall>vs r. parse_elems f d s = Some (vs, r) \<longrightarrow> length r < length s) \<and>
   (\<forall>ms r. parse_members f d s = Some (ms, r) \<longrightarrow> length r < length s)"
proof (induction f arbitrary: d s)
  case 0
  show ?case by simp
next
  case (Suc f)
  have V: "parse_value f d s = Some (v, r) \<Longrightarrow> length r < length s"
    and E: "parse_elems f d s = Some (vs, r) \<Longrightarrow> length r < length s"
    and M: "parse_members f d s = Some (ms, r) \<Longrightarrow> length r < length s" for d s v vs ms r
    using Suc.IH by blast+
  have v: "length r < length s" if h: "parse_value (Suc f) d s = Some (v, r)" for v r
  proof -
    from h obtain c cs where c: "skip_ws s = c # cs" by (cases "skip_ws s") auto
    have sub: "length r < Suc (length cs)"
    proof -
      consider (str) t where "parse_chars cs = Some (t, r)" | (arr) vs where "parse_elems f (d - 1) cs = Some (vs, r)"
        | (obj) ms where "parse_members f (d - 1) cs = Some (ms, r)" | (num) t where "parse_number (c # cs) = Some (t, r)"
        | (lit) n where "r = drop n cs" | (empty) "r = drop 1 (skip_ws cs)"
        using h by (simp add: c split: if_splits) blast+
      then show ?thesis
      proof cases
        case str
        then show ?thesis using parse_chars_length by fastforce
      next
        case arr
        from E[OF this] show ?thesis by simp
      next
        case obj
        from M[OF this] show ?thesis by simp
      next
        case num
        from parse_number_length[OF this] show ?thesis by simp
      next
        case lit
        then show ?thesis by simp
      next
        case empty
        then show ?thesis using skip_ws_drop[of cs] by simp
      qed
    qed
    then show ?thesis using skip_ws_length[of s] c by simp
  qed
  have e: "length r < length s" if h: "parse_elems (Suc f) d s = Some (vs, r)" for vs r
  proof -
    from h obtain v r1 where v: "parse_value f d s = Some (v, r1)" by (auto split: option.splits)
    with h obtain c cs where c: "skip_ws r1 = c # cs" by (cases "skip_ws r1") auto
    show ?thesis using h v c V[OF v] skip_ws_Cons[OF c] by (auto split: if_splits dest!: E)
  qed
  have m: "length r < length s" if h: "parse_members (Suc f) d s = Some (ms, r)" for ms r
  proof -
    from h obtain k r0 where k: "parse_chars (drop 1 (skip_ws s)) = Some (k, r0)"
      by (auto split: option.splits if_splits)
    with h obtain v r1 where v: "parse_value f d (drop 1 (skip_ws r0)) = Some (v, r1)"
      by (auto split: option.splits if_splits)
    with h k obtain c cs where c: "skip_ws r1 = c # cs"
      by (cases "skip_ws r1") (auto split: option.splits if_splits)
    show ?thesis
      using h k v c parse_chars_length[OF k] V[OF v] skip_ws_Cons[OF c] skip_ws_drop[of s] skip_ws_drop[of r0]
      by (auto split: if_splits dest!: M)
  qed
  from v e m show ?case by blast
qed

text \<open>With two units of fuel for a byte the fuel does not run out.\<close>

lemma parse_fuel:
  "(2 * length s + 1 \<le> f \<and> 2 * length s + 1 \<le> g \<longrightarrow> parse_value f d s = parse_value g d s) \<and>
   (2 * length s + 2 \<le> f \<and> 2 * length s + 2 \<le> g \<longrightarrow> parse_elems f d s = parse_elems g d s) \<and>
   (2 * length s + 2 \<le> f \<and> 2 * length s + 2 \<le> g \<longrightarrow> parse_members f d s = parse_members g d s)"
proof (induction f arbitrary: g d s)
  case 0
  show ?case by simp
next
  case (Suc f)
  have V: "2 * length s + 1 \<le> f \<Longrightarrow> 2 * length s + 1 \<le> g \<Longrightarrow> parse_value f d s = parse_value g d s"
    and E: "2 * length s + 2 \<le> f \<Longrightarrow> 2 * length s + 2 \<le> g \<Longrightarrow> parse_elems f d s = parse_elems g d s"
    and M: "2 * length s + 2 \<le> f \<Longrightarrow> 2 * length s + 2 \<le> g \<Longrightarrow> parse_members f d s = parse_members g d s"
    for g d s
    using Suc.IH by blast+
  have v: "parse_value (Suc f) d s = parse_value g d s"
    if h: "2 * length s + 1 \<le> Suc f" "2 * length s + 1 \<le> g"
  proof -
    obtain g' where g: "g = Suc g'" using h by (cases g) auto
    show ?thesis
    proof (cases "skip_ws s")
      case Nil
      then show ?thesis by (simp add: g)
    next
      case (Cons c cs)
      then have "length cs < length s" by (rule skip_ws_Cons)
      then have "parse_elems f (d - 1) cs = parse_elems g' (d - 1) cs"
        "parse_members f (d - 1) cs = parse_members g' (d - 1) cs"
        using E[of cs g' "d - 1"] M[of cs g' "d - 1"] h g by simp_all
      then show ?thesis by (simp add: g Cons)
    qed
  qed
  have e: "parse_elems (Suc f) d s = parse_elems g d s"
    if h: "2 * length s + 2 \<le> Suc f" "2 * length s + 2 \<le> g"
  proof -
    obtain g' where g: "g = Suc g'" using h by (cases g) auto
    have pv: "parse_value f d s = parse_value g' d s" using V[of s g' d] h g by simp
    have rest: "parse_elems f d cs = parse_elems g' d cs"
      if "parse_value g' d s = Some (v, r)" "skip_ws r = c # cs" for v r c cs
      using E[of cs g' d] parse_length[of g' d s] that skip_ws_Cons[OF that(2)] h g by auto
    show ?thesis
      unfolding g parse_elems.simps pv
      by (auto split: option.split list.split simp: rest)
  qed
  have m: "parse_members (Suc f) d s = parse_members g d s"
    if h: "2 * length s + 2 \<le> Suc f" "2 * length s + 2 \<le> g"
  proof -
    obtain g' where g: "g = Suc g'" using h by (cases g) auto
    have short: "length r < length s" if "parse_chars (drop 1 (skip_ws s)) = Some (k, r)" for k r
      using parse_chars_length[OF that] skip_ws_drop[of s] by simp
    have pv: "parse_value f d (drop 1 (skip_ws r)) = parse_value g' d (drop 1 (skip_ws r))"
      if "parse_chars (drop 1 (skip_ws s)) = Some (k, r)" for k r
      using V[of "drop 1 (skip_ws r)" g' d] short[OF that] skip_ws_drop[of r] h g by simp
    have rest: "parse_members f d cs = parse_members g' d cs"
      if "parse_chars (drop 1 (skip_ws s)) = Some (k, r)"
        "parse_value g' d (drop 1 (skip_ws r)) = Some (v, r1)" "skip_ws r1 = c # cs" for k r v r1 c cs
    proof -
      have "length r1 < length (drop 1 (skip_ws r))" using parse_length[of g' d "drop 1 (skip_ws r)"] that(2) by blast
      then have "length cs < length s"
        using short[OF that(1)] skip_ws_drop[of r] skip_ws_Cons[OF that(3)] by linarith
      then show ?thesis using M[of cs g' d] h g by simp
    qed
    show ?thesis
    proof (cases "parse_chars (drop 1 (skip_ws s))")
      case None
      then show ?thesis by (simp add: g)
    next
      case (Some kr)
      obtain k r where kr: "kr = (k, r)" by (cases kr)
      note pv' = pv[OF Some[unfolded kr]] and rest' = rest[OF Some[unfolded kr]]
      show ?thesis
        unfolding g parse_members.simps Some kr option.case prod.case pv'
        by (auto simp: rest' split: option.split list.split)
    qed
  qed
  from v e m show ?case by blast
qed

subsection \<open>Reading back what was written\<close>

text \<open>The text with every byte that is not part of a valid encoding replaced by U+FFFD.\<close>

function sanitize :: "string \<Rightarrow> string" where
  "sanitize [] = []"
| "sanitize (c # cs) =
     (if byte_of c < 0x80 then c # sanitize cs
      else
        (case rune_len (c # cs) of
           None \<Rightarrow> replacement @ sanitize cs
         | Some n \<Rightarrow> take n (c # cs) @ sanitize (drop n (c # cs))))"
  by pat_completeness auto
termination
  by (relation "measure length") (auto dest: rune_len_pos)

fun sanitize_json :: "json \<Rightarrow> json" where
  "sanitize_json (JStr s) = JStr (sanitize s)"
| "sanitize_json (JArr js) = JArr (map sanitize_json js)"
| "sanitize_json (JObj ms) = JObj (map (\<lambda>(k, v). (sanitize k, sanitize_json v)) ms)"
| "sanitize_json j = j"

text \<open>Numbers are number literals, and the nesting is at most \<open>d\<close>.\<close>

fun json_fits :: "nat \<Rightarrow> json \<Rightarrow> bool" where
  "json_fits d (JNum n) \<longleftrightarrow> parse_number n = Some (n, [])"
| "json_fits d (JArr js) \<longleftrightarrow> 0 < d \<and> (\<forall>j\<in>set js. json_fits (d - 1) j)"
| "json_fits d (JObj ms) \<longleftrightarrow> 0 < d \<and> (\<forall>m\<in>set ms. json_fits (d - 1) (snd m))"
| "json_fits d j \<longleftrightarrow> True"

lemma hex_val_digit: "n < 16 \<Longrightarrow> hex_val (hex_digit n) = Some n"
  by (simp add: hex_val_def hex_digit_def between_def byte_of_def)

lemma hex_digits_value:
  "((n div 4096 * 16 + n div 256 mod 16) * 16 + n div 16 mod 16) * 16 + n mod 16 = (n :: nat)"
proof -
  have "n div 256 = n div 16 div 16" "n div 4096 = n div 16 div 16 div 16"
    by (simp_all add: div_mult2_eq[symmetric])
  then show ?thesis by (simp only: div_mult_mod_eq)
qed

lemma hex4_u_escape:
  assumes "n < 65536"
  shows "hex4 (drop 2 (u_escape n) @ r) = Some (n, r)"
proof -
  have "n div 4096 < 16" using assms by simp
  then show ?thesis
    using hex_digits_value[of n] by (simp add: hex4_def u_escape_def hex_val_digit)
qed

lemma parse_chars_u:
  "hex4 s = Some (n, r) \<Longrightarrow> n < 0xD800 \<or> 0xE000 \<le> n \<Longrightarrow>
   parse_chars (CHR 0x5C # CHR ''u'' # s) = map_option (\<lambda>(t, x). (utf8_enc n @ t, x)) (parse_chars r)"
  by (simp add: unescape_unit_def)

lemma parse_u_escape:
  assumes "n < 65536" and "n < 0xD800 \<or> 0xE000 \<le> n"
  shows "parse_chars (u_escape n @ r) = map_option (\<lambda>(t, x). (utf8_enc n @ t, x)) (parse_chars r)"
proof -
  have "u_escape n @ r = CHR 0x5C # CHR ''u'' # (drop 2 (u_escape n) @ r)" by (simp add: u_escape_def)
  then show ?thesis using parse_chars_u[OF hex4_u_escape[OF assms(1), of r] assms(2)] by presburger
qed

lemma parse_chars_simple:
  "simple_escape e = Some d \<Longrightarrow>
   parse_chars ([CHR 0x5C, e] @ r) = map_option (\<lambda>(t, x). (d # t, x)) (parse_chars r)"
  by (auto simp: simple_escape_def)

lemma simple_escapes:
  "simple_escape (CHR 0x22) = Some (CHR 0x22)" "simple_escape (CHR 0x5C) = Some (CHR 0x5C)"
  "simple_escape (CHR ''b'') = Some (CHR 0x08)" "simple_escape (CHR ''f'') = Some (CHR 0x0C)"
  "simple_escape (CHR ''n'') = Some (CHR 0x0A)" "simple_escape (CHR ''r'') = Some (CHR 0x0D)"
  "simple_escape (CHR ''t'') = Some (CHR 0x09)"
  by (simp_all add: simple_escape_def)

text \<open>How the encoder writes a byte below 0x80: an escape by letter, one by number, or the byte.\<close>

lemma ascii_text_cases:
  obtains (letter) e where "ascii_text c = [CHR 0x5C, e]" "simple_escape e = Some c"
  | (number) "ascii_text c = u_escape (byte_of c)"
  | (plain) "ascii_text c = [c]" "c \<noteq> CHR 0x22" "c \<noteq> CHR 0x5C" "\<not> byte_of c < 0x20"
proof -
  consider "c = CHR 0x22" | "c = CHR 0x5C" | "c = CHR 0x08" | "c = CHR 0x0C" | "c = CHR 0x0A" | "c = CHR 0x0D"
    | "c = CHR 0x09" | (rest) "c \<notin> {CHR 0x22, CHR 0x5C, CHR 0x08, CHR 0x0C, CHR 0x0A, CHR 0x0D, CHR 0x09}"
    by blast
  then show thesis
  proof cases
    case rest
    then show ?thesis
      using number plain
      by (cases "byte_of c < 0x20 \<or> c = CHR ''<'' \<or> c = CHR ''>'' \<or> c = CHR ''&''")
        (simp_all add: ascii_text_def)
  qed (simp_all add: ascii_text_def letter simple_escapes)
qed

lemma parse_ascii:
  assumes "byte_of c < 0x80"
  shows "parse_chars (ascii_text c @ r) = map_option (\<lambda>(t, x). (c # t, x)) (parse_chars r)"
proof (cases c rule: ascii_text_cases)
  case (letter e)
  then show ?thesis using parse_chars_simple[OF letter(2), of r] by simp
next
  case number
  moreover have "utf8_enc (byte_of c) = [c]" using assms by (simp add: utf8_enc_def byte_of_def)
  ultimately show ?thesis using parse_u_escape[of "byte_of c" r] assms by simp
next
  case plain
  moreover have "rune_len (c # r) = Some 1" using assms by (simp add: rune_len_def)
  ultimately show ?thesis by simp
qed

text \<open>Whether an encoding is valid depends on its own bytes only.\<close>

lemma rune_len_take: "rune_len s = Some n \<Longrightarrow> rune_len (take n s @ r) = Some n"
proof -
  assume n: "rune_len s = Some n"
  then obtain a t where s: "s = a # t" by (cases s) (simp_all add: rune_len_def)
  consider (one) "byte_of a < 0x80" | (two) "\<not> byte_of a < 0x80" "between 0xC2 a 0xDF"
    | (three) "\<not> byte_of a < 0x80" "\<not> between 0xC2 a 0xDF" "between 0xE0 a 0xEF"
    | (four) "\<not> byte_of a < 0x80" "\<not> between 0xC2 a 0xDF" "\<not> between 0xE0 a 0xEF"
    by blast
  then show ?thesis
  proof cases
    case one
    with n show ?thesis by (auto simp: rune_len_def s)
  next
    case two
    with n obtain b u where t: "t = b # u" by (cases t) (simp_all add: rune_len_def s)
    with two n show ?thesis by (auto simp: rune_len_def s split: if_splits)
  next
    case three
    with n obtain b c u where t: "t = b # c # u"
      by (cases t; cases "tl t") (simp_all add: rune_len_def s)
    with three n show ?thesis by (auto simp: rune_len_def s split: if_splits)
  next
    case four
    with n obtain b c d u where t: "t = b # c # d # u"
      by (cases t; cases "tl t"; cases "tl (tl t)") (simp_all add: rune_len_def s split: if_splits)
    with four n show ?thesis by (auto simp: rune_len_def s split: if_splits)
  qed
qed

lemma parse_rune:
  assumes n: "rune_len (c # cs) = Some n" and c: "\<not> byte_of c < 0x80"
  shows "parse_chars (rune_text (take n (c # cs)) @ r) =
    map_option (\<lambda>(t, x). (take n (c # cs) @ t, x)) (parse_chars r)"
proof -
  let ?t = "take n (c # cs)"
  consider "?t = utf8_enc 0x2028" | "?t = utf8_enc 0x2029" | (raw) "rune_text ?t = ?t"
    unfolding rune_text_def by meson
  then show ?thesis
  proof cases
    case raw
    obtain k where k: "n = Suc k" using rune_len_pos[OF n] by (cases n) auto
    have "parse_chars (c # (take k cs @ r)) = map_option (\<lambda>(t, x). (take n (c # take k cs @ r) @ t, x))
        (parse_chars (drop n (c # take k cs @ r)))"
      using rune_len_take[OF n, of r] c k by (auto simp: byte_of_def)
    moreover have "length (take k cs) = k" using rune_len_pos[OF n] k by simp
    ultimately show ?thesis using k raw by simp
  qed (simp_all add: rune_text_def parse_u_escape utf8_enc_def)
qed

lemma parse_print_chars: "parse_chars (print_chars s @ CHR 0x22 # r) = Some (sanitize s, r)"
proof (induction s rule: print_chars.induct)
  case 1
  show ?case by simp
next
  case (2 c cs)
  show ?case
  proof (cases "byte_of c < 0x80")
    case True
    then show ?thesis using "2.IH"(1)[OF True] parse_ascii[OF True] by simp
  next
    case False
    show ?thesis
    proof (cases "rune_len (c # cs)")
      case None
      then show ?thesis using "2.IH"(2)[OF False None] False parse_u_escape[of "0xFFFD"]
        by (simp add: replacement_def)
    next
      case (Some n)
      then show ?thesis using "2.IH"(3)[OF False Some] False parse_rune[OF Some False] by simp
    qed
  qed
qed


subsection \<open>Numbers and whole values\<close>

text \<open>What may follow a number without becoming part of it.\<close>

definition ends_number :: "string \<Rightarrow> bool" where
  "ends_number r \<longleftrightarrow> (case r of [] \<Rightarrow> True
     | c # _ \<Rightarrow> \<not> is_digit c \<and> c \<noteq> CHR ''.'' \<and> c \<noteq> CHR ''e'' \<and> c \<noteq> CHR ''E'')"

lemma take_digits_append:
  assumes "take_digits s = (ds, s1)" and "ends_number r"
  shows "take_digits (s @ r) = (ds, s1 @ r)"
proof (cases "\<forall>c\<in>set s. is_digit c")
  case True
  then have "takeWhile is_digit s = s" "dropWhile is_digit s = []"
    by (simp_all add: takeWhile_eq_all_conv)
  then have "ds = s" "s1 = []" using assms(1) unfolding take_digits_def by (metis prod.inject)+
  moreover have "takeWhile is_digit r = []" "dropWhile is_digit r = r"
    using assms(2) by (auto simp: ends_number_def split: list.splits)
  ultimately show ?thesis
    using True by (simp add: take_digits_def takeWhile_append dropWhile_append)
next
  case False
  then obtain c where "c \<in> set s" "\<not> is_digit c" by blast
  then show ?thesis using assms(1) by (auto simp: take_digits_def takeWhile_append1 dropWhile_append1)
qed

lemma num_int_append: "num_int s = Some (t, s1) \<Longrightarrow> ends_number r \<Longrightarrow> num_int (s @ r) = Some (t, s1 @ r)"
  using take_digits_append[of s _ _ r]
  by (cases s) (auto simp: num_int_def split: if_splits)

lemma num_frac_append:
  assumes "num_frac s = Some (t, s1)" and "ends_number r"
  shows "num_frac (s @ r) = Some (t, s1 @ r)"
proof (cases s)
  case Nil
  then show ?thesis using assms by (auto simp: num_frac_def ends_number_def split: list.split)
next
  case (Cons c cs)
  obtain ds x where d: "take_digits cs = (ds, x)" by force
  show ?thesis
    using assms(1) take_digits_append[OF d assms(2)] d Cons
    by (auto simp: num_frac_def split: if_splits)
qed

lemma num_exp_append:
  assumes "num_exp s = Some (t, s1)" and "ends_number r"
  shows "num_exp (s @ r) = Some (t, s1 @ r)"
proof (cases s)
  case Nil
  then show ?thesis using assms by (auto simp: num_exp_def ends_number_def split: list.split)
next
  case (Cons c cs)
  show ?thesis
  proof (cases "c = CHR ''e'' \<or> c = CHR ''E''")
    case False
    with assms(1) Cons have "t = []" "s1 = c # cs" by (simp_all add: num_exp_def)
    with False Cons show ?thesis by (simp add: num_exp_def)
  next
    case e: True
    obtain sgn r0 where sg: "(case cs of [] \<Rightarrow> ([], cs)
        | d # ds \<Rightarrow> if d = CHR ''+'' \<or> d = CHR ''-'' then ([d], ds) else ([], cs)) = (sgn, r0)" by force
    obtain ds r1 where ds: "take_digits r0 = (ds, r1)" by force
    from assms(1) Cons e sg ds have h: "ds \<noteq> []" "t = c # sgn @ ds" "r1 = s1"
      by (auto simp: num_exp_def Let_def split: if_splits)
    have "r0 \<noteq> []" using ds h by (auto simp: take_digits_def)
    then have "(case cs @ r of [] \<Rightarrow> ([], cs @ r)
        | d # ds \<Rightarrow> if d = CHR ''+'' \<or> d = CHR ''-'' then ([d], ds) else ([], cs @ r)) = (sgn, r0 @ r)"
      using sg by (cases cs) (auto split: if_splits)
    then show ?thesis
      using Cons e h take_digits_append[OF ds[unfolded h(3)] assms(2)] by (simp add: num_exp_def)
  qed
qed

lemma parse_number_append:
  assumes "parse_number s = Some (t, s1)" and r: "ends_number r"
  shows "parse_number (s @ r) = Some (t, s1 @ r)"
proof -
  obtain sgn s0 where s0: "(if prefix ''-'' s then (''-'', drop 1 s) else ([], s)) = (sgn, s0)" by force
  from assms(1) s0 obtain a x b y c where n:
    "num_int s0 = Some (a, x)" "num_frac x = Some (b, y)" "num_exp y = Some (c, s1)" "t = sgn @ a @ b @ c"
    by (auto simp: parse_number_def split: option.splits)
  have ne: "s0 \<noteq> []" using n(1) by (auto simp: num_int_def)
  have "(if prefix ''-'' (s @ r) then (''-'', drop 1 (s @ r)) else ([], s @ r)) = (sgn, s0 @ r)"
    using s0 ne by (cases s) (auto split: if_splits)
  then show ?thesis
    using num_int_append[OF n(1) r] num_frac_append[OF n(2) r] num_exp_append[OF n(3) r] n(4)
    by (simp add: parse_number_def)
qed

text \<open>The first byte of a number starts no other kind of value.\<close>

lemma parse_number_hd:
  assumes "parse_number s = Some (t, r)"
  obtains c cs where "s = c # cs" "c = CHR ''-'' \<or> is_digit c"
proof -
  from assms obtain c cs where s: "s = c # cs"
    by (cases s) (auto simp: parse_number_def num_int_def)
  moreover have "is_digit (CHR ''0'')" by (simp add: is_digit_def)
  ultimately have "c = CHR ''-'' \<or> is_digit c"
    using assms by (auto simp: parse_number_def num_int_def split: if_splits option.splits)
  with s show thesis by (rule that)
qed

lemma number_not_special:
  assumes "c = CHR ''-'' \<or> is_digit c"
  shows "\<not> is_space c" "c \<noteq> CHR 0x22" "c \<noteq> CHR ''[''" "c \<noteq> CHR ''{''" "c \<noteq> CHR ''t''" "c \<noteq> CHR ''f''"
    "c \<noteq> CHR ''n''"
  using assms by (auto simp: is_digit_def is_space_def)

lemma skip_ws_no_space [simp]: "\<not> is_space c \<Longrightarrow> skip_ws (c # cs) = c # cs"
  by (simp add: skip_ws_def)

lemma is_space_simps [simp]:
  "\<not> is_space (CHR 0x22)" "\<not> is_space (CHR ''['')" "\<not> is_space (CHR ''{'')" "\<not> is_space (CHR '']'')"
  "\<not> is_space (CHR ''}'')" "\<not> is_space (CHR '','')" "\<not> is_space (CHR '':'')" "\<not> is_space (CHR ''t'')"
  "\<not> is_space (CHR ''f'')" "\<not> is_space (CHR ''n'')"
  by (simp_all add: is_space_def)

lemma parse_value_number:
  assumes "parse_number n = Some (n, [])" and "ends_number r"
  shows "parse_value (Suc f) d (n @ r) = Some (JNum n, r)"
proof -
  from assms(1) obtain c cs where n: "n = c # cs" and c: "c = CHR ''-'' \<or> is_digit c"
    by (rule parse_number_hd)
  have "parse_number (c # cs @ r) = Some (n, r)" using parse_number_append[OF assms] n by simp
  then show ?thesis using number_not_special[OF c] n by simp
qed


lemma ends_number_simps [simp]:
  "ends_number []" "ends_number (CHR '','' # r)" "ends_number (CHR '']'' # r)" "ends_number (CHR ''}'' # r)"
  "ends_number (CHR 0x0A # r)"
  by (simp_all add: ends_number_def is_digit_def)

text \<open>The printed text of a value starts neither with a space nor with a closing bracket.\<close>

lemma print_json_hd:
  assumes "json_fits d j"
  obtains c cs where "print_json j = c # cs" "\<not> is_space c" "c \<noteq> CHR '']''"
proof -
  have "\<exists>c cs. print_json j = c # cs \<and> \<not> is_space c \<and> c \<noteq> CHR '']''"
  proof (cases j)
    case (JNum n)
    with assms have "parse_number n = Some (n, [])" by simp
    then obtain c cs where n: "n = c # cs" and c: "c = CHR ''-'' \<or> is_digit c" by (rule parse_number_hd)
    then have "c \<noteq> CHR '']''" by (auto simp: is_digit_def)
    with number_not_special(1)[OF c] n JNum show ?thesis by simp
  qed (simp_all add: print_string_def)
  then show thesis using that by blast
qed

lemma parse_elems_print:
  assumes "\<And>j f r. j \<in> set js \<Longrightarrow> ends_number r \<Longrightarrow> 2 * length (print_json j @ r) + 1 \<le> f \<Longrightarrow>
      parse_value f d (print_json j @ r) = Some (sanitize_json j, r)"
    and "js \<noteq> []" and "2 * length (join_with '','' (map print_json js) @ CHR '']'' # r) + 2 \<le> f"
  shows "parse_elems f d (join_with '','' (map print_json js) @ CHR '']'' # r) =
    Some (map sanitize_json js, r)"
  using assms
proof (induction js arbitrary: f)
  case Nil
  then show ?case by simp
next
  case (Cons j js)
  obtain g where f: "f = Suc g" using Cons.prems(3) by (cases f) auto
  show ?case
  proof (cases "js = []")
    case True
    have "parse_value g d (print_json j @ CHR '']'' # r) = Some (sanitize_json j, CHR '']'' # r)"
      using Cons.prems(3) True f by (intro Cons.prems(1)) auto
    then show ?thesis using True f by simp
  next
    case False
    let ?t = "join_with '','' (map print_json js) @ CHR '']'' # r"
    have s: "join_with '','' (map print_json (j # js)) @ CHR '']'' # r = print_json j @ CHR '','' # ?t"
      using False by (simp add: join_with_Cons)
    have "parse_value g d (print_json j @ CHR '','' # ?t) = Some (sanitize_json j, CHR '','' # ?t)"
      using Cons.prems(3) s f by (intro Cons.prems(1)) auto
    moreover have "parse_elems g d ?t = Some (map sanitize_json js, r)"
    proof (rule Cons.IH)
      show "2 * length ?t + 2 \<le> g" using Cons.prems(3) f unfolding s by simp
    qed (use Cons.prems False in auto)
    ultimately show ?thesis unfolding s f by simp
  qed
qed

abbreviation member_text :: "string \<times> json \<Rightarrow> string" where
  "member_text m \<equiv> print_string (fst m) @ '':'' @ print_json (snd m)"

lemma parse_members_print:
  assumes "\<And>m f r. m \<in> set ms \<Longrightarrow> ends_number r \<Longrightarrow> 2 * length (print_json (snd m) @ r) + 1 \<le> f \<Longrightarrow>
      parse_value f d (print_json (snd m) @ r) = Some (sanitize_json (snd m), r)"
    and "ms \<noteq> []" and "2 * length (join_with '','' (map member_text ms) @ CHR ''}'' # r) + 2 \<le> f"
  shows "parse_members f d (join_with '','' (map member_text ms) @ CHR ''}'' # r) =
    Some (map (\<lambda>(k, v). (sanitize k, sanitize_json v)) ms, r)"
  using assms
proof (induction ms arbitrary: f)
  case Nil
  then show ?case by simp
next
  case (Cons m ms)
  obtain g where f: "f = Suc g" using Cons.prems(3) by (cases f) auto
  obtain k v where m: "m = (k, v)" by (cases m)
  let ?t = "join_with '','' (map member_text ms) @ CHR ''}'' # r"
  let ?x = "if ms = [] then CHR ''}'' # r else CHR '','' # ?t"
  have s: "join_with '','' (map member_text (m # ms)) @ CHR ''}'' # r =
      CHR 0x22 # print_chars k @ CHR 0x22 # CHR '':'' # (print_json v @ ?x)"
    by (cases "ms = []") (simp_all add: join_with_Cons m print_string_def)
  have k: "parse_chars (print_chars k @ CHR 0x22 # CHR '':'' # (print_json v @ ?x)) =
      Some (sanitize k, CHR '':'' # (print_json v @ ?x))"
    by (rule parse_print_chars)
  have fv: "2 * length (print_json v @ ?x) + 1 \<le> g" using Cons.prems(3) unfolding s f by simp
  have v: "parse_value g d (print_json v @ ?x) = Some (sanitize_json v, ?x)"
    using Cons.prems(1)[of m ?x g] fv m by auto
  show ?case
  proof (cases "ms = []")
    case True
    then show ?thesis unfolding s f using k v m by simp
  next
    case False
    have "parse_members g d ?t = Some (map (\<lambda>(k, v). (sanitize k, sanitize_json v)) ms, r)"
    proof (rule Cons.IH)
      show "2 * length ?t + 2 \<le> g" using fv False by simp
    qed (use Cons.prems False in auto)
    then show ?thesis unfolding s f using k v m False by simp
  qed
qed

lemma parse_print_json:
  "json_fits d j \<Longrightarrow> ends_number r \<Longrightarrow> 2 * length (print_json j @ r) + 1 \<le> f \<Longrightarrow>
   parse_value f d (print_json j @ r) = Some (sanitize_json j, r)"
proof (induction j arbitrary: d f r)
  case JNull
  then show ?case by (cases f) simp_all
next
  case (JBool b)
  then show ?case by (cases f) simp_all
next
  case (JNum n)
  then show ?case using parse_value_number by (cases f) simp_all
next
  case (JStr s)
  then show ?case using parse_print_chars[of s r] by (cases f) (simp_all add: print_string_def)
next
  case (JArr js)
  obtain g where f: "f = Suc g" using JArr.prems(3) by (cases f) auto
  show ?case
  proof (cases "js = []")
    case True
    then show ?thesis using JArr.prems f by simp
  next
    case False
    have e: "parse_elems g (d - 1) (join_with '','' (map print_json js) @ CHR '']'' # r) = Some (map sanitize_json js, r)"
    proof (rule parse_elems_print[OF _ False])
      show "parse_value f (d - 1) (print_json j @ r) = Some (sanitize_json j, r)"
        if "j \<in> set js" "ends_number r" "2 * length (print_json j @ r) + 1 \<le> f" for j f r
        using JArr.IH[OF that(1) _ that(2,3)] JArr.prems(1) that(1) by simp
      show "2 * length (join_with '','' (map print_json js) @ CHR '']'' # r) + 2 \<le> g"
        using JArr.prems(3) f by simp
    qed
    obtain j0 js' where js: "js = j0 # js'" using False by (cases js) auto
    have "json_fits (d - 1) j0" using JArr.prems(1) js by simp
    then obtain c cs where c: "print_json j0 = c # cs" "\<not> is_space c" "c \<noteq> CHR '']''" by (rule print_json_hd)
    then have "\<not> prefix '']'' (skip_ws (join_with '','' (map print_json js) @ CHR '']'' # r))"
      using js by (cases "js' = []") (simp_all add: join_with_Cons)
    with e show ?thesis using JArr.prems(1) f by simp
  qed
next
  case (JObj ms)
  obtain g where f: "f = Suc g" using JObj.prems(3) by (cases f) auto
  have p: "print_json (JObj ms) = ''{'' @ join_with '','' (map member_text ms) @ ''}''"
    by (simp add: case_prod_beta')
  show ?case
  proof (cases "ms = []")
    case True
    then show ?thesis using JObj.prems f by simp
  next
    case False
    have e: "parse_members g (d - 1) (join_with '','' (map member_text ms) @ CHR ''}'' # r) =
        Some (map (\<lambda>(k, v). (sanitize k, sanitize_json v)) ms, r)"
    proof (rule parse_members_print[OF _ False])
      show "parse_value f (d - 1) (print_json (snd m) @ r) = Some (sanitize_json (snd m), r)"
        if "m \<in> set ms" "ends_number r" "2 * length (print_json (snd m) @ r) + 1 \<le> f" for m f r
        using JObj.IH[of m "snd m"] that JObj.prems(1) by (cases m) force
      show "2 * length (join_with '','' (map member_text ms) @ CHR ''}'' # r) + 2 \<le> g"
        using JObj.prems(3) f unfolding p by simp
    qed
    obtain m ms' where ms: "ms = m # ms'" using False by (cases ms) auto
    have "\<not> prefix ''}'' (skip_ws (join_with '','' (map member_text ms) @ CHR ''}'' # r))"
      using ms by (cases "ms' = []") (simp_all add: join_with_Cons print_string_def)
    with e show ?thesis using JObj.prems(1) unfolding p f by simp
  qed
qed

lemma unmarshal_encode_line:
  assumes "json_fits max_nesting j"
  shows "unmarshal_text (encode_line j) = Some (sanitize_json j)"
proof -
  have "first_value (encode_line j) = Some (sanitize_json j, [CHR 0x0A])"
    unfolding first_value_def encode_line_def by (rule parse_print_json[OF assms]) simp_all
  then show ?thesis by (simp add: unmarshal_text_def skip_ws_def is_space_def)
qed

end
