(* ===== verification/Wire.thy ===== *)
theory Wire
  imports GoJsonText Protocol
begin

text \<open>
  The protocol on the wire: an envelope is one line of JSON text. What one side writes, the
  other side reads back.
\<close>

subsection \<open>One message is one line\<close>

lemma hex_digit_no_newline: "n < 16 \<Longrightarrow> hex_digit n \<noteq> CHR 0x0A"
proof
  assume "n < 16" and "hex_digit n = CHR 0x0A"
  then have "hex_val (CHR 0x0A) = Some n" using hex_val_digit[of n] by simp
  then show False by (simp add: hex_val_def between_def byte_of_def)
qed

lemma u_escape_no_newline: "n < 65536 \<Longrightarrow> CHR 0x0A \<notin> set (u_escape n)"
proof -
  assume "n < 65536"
  then have "n div 4096 < 16" by simp
  then show ?thesis
    using hex_digit_no_newline[of "n div 4096"] hex_digit_no_newline[of "n div 256 mod 16"]
      hex_digit_no_newline[of "n div 16 mod 16"] hex_digit_no_newline[of "n mod 16"]
    by (auto simp: u_escape_def)
qed

lemma ascii_text_no_newline:
  assumes "byte_of c < 0x80"
  shows "CHR 0x0A \<notin> set (ascii_text c)"
proof (cases c rule: ascii_text_cases)
  case (letter e)
  moreover have "simple_escape (CHR 0x0A) = None" by (simp add: simple_escape_def)
  ultimately show ?thesis by auto
next
  case number
  then show ?thesis using u_escape_no_newline[of "byte_of c"] assms by simp
next
  case plain
  then show ?thesis by (auto simp: byte_of_def)
qed

text \<open>Every byte of an encoding of more than one byte is at least 0x80.\<close>

lemma rune3_bytes: "rune3 a b c \<Longrightarrow> \<not> byte_of b < 0x80 \<and> \<not> byte_of c < 0x80"
  by (auto simp: rune3_def between_def split: if_splits)

lemma rune4_bytes: "rune4 a b c d \<Longrightarrow> \<not> byte_of b < 0x80 \<and> \<not> byte_of c < 0x80 \<and> \<not> byte_of d < 0x80"
  by (auto simp: rune4_def between_def split: if_splits)

lemma rune_bytes:
  assumes n: "rune_len (a # t) = Some n" and a: "\<not> byte_of a < 0x80" and d: "d \<in> set (take n (a # t))"
  shows "\<not> byte_of d < 0x80"
proof -
  consider (two) "between 0xC2 a 0xDF" | (three) "\<not> between 0xC2 a 0xDF" "between 0xE0 a 0xEF"
    | (four) "\<not> between 0xC2 a 0xDF" "\<not> between 0xE0 a 0xEF" by blast
  then show ?thesis
  proof cases
    case two
    with n a obtain b u where t: "t = b # u" by (cases t) (simp_all add: rune_len_def)
    with two n a d show ?thesis by (auto simp: rune_len_def between_def split: if_splits)
  next
    case three
    with n a obtain b c u where t: "t = b # c # u"
      by (cases t; cases "tl t") (simp_all add: rune_len_def)
    with three n a d rune3_bytes show ?thesis by (auto simp: rune_len_def split: if_splits)
  next
    case four
    with n a obtain b c e u where t: "t = b # c # e # u"
      by (cases t; cases "tl t"; cases "tl (tl t)") (simp_all add: rune_len_def split: if_splits)
    with four n a d rune4_bytes show ?thesis by (auto simp: rune_len_def split: if_splits)
  qed
qed

lemma rune_text_no_newline:
  assumes "rune_len (c # cs) = Some n" and "\<not> byte_of c < 0x80"
  shows "CHR 0x0A \<notin> set (rune_text (take n (c # cs)))"
proof -
  have "CHR 0x0A \<notin> set (take n (c # cs))"
    using rune_bytes[OF assms, of "CHR 0x0A"] by (auto simp: byte_of_def)
  then show ?thesis by (simp add: rune_text_def u_escape_no_newline)
qed

lemma print_chars_no_newline: "CHR 0x0A \<notin> set (print_chars s)"
proof (induction s rule: print_chars.induct)
  case 1
  show ?case by simp
next
  case (2 c cs)
  show ?case
  proof (cases "byte_of c < 0x80")
    case True
    then show ?thesis using "2.IH"(1)[OF True] ascii_text_no_newline[OF True] by simp
  next
    case False
    show ?thesis
    proof (cases "rune_len (c # cs)")
      case None
      then show ?thesis using "2.IH"(2)[OF False None] False u_escape_no_newline[of 65533] by simp
    next
      case (Some n)
      then show ?thesis using "2.IH"(3)[OF False Some] False rune_text_no_newline[OF Some False] by simp
    qed
  qed
qed

lemma take_digits_no_newline: "take_digits s = (ds, r) \<Longrightarrow> CHR 0x0A \<notin> set ds"
  by (auto simp: take_digits_def is_digit_def dest: set_takeWhileD)

lemma num_int_no_newline: "num_int s = Some (t, r) \<Longrightarrow> CHR 0x0A \<notin> set t"
  using take_digits_no_newline by (auto simp: num_int_def split: list.splits if_splits)

lemma num_frac_no_newline: "num_frac s = Some (t, r) \<Longrightarrow> CHR 0x0A \<notin> set t"
  using take_digits_no_newline
  by (fastforce simp: num_frac_def Let_def split: list.splits if_splits prod.splits)

lemma num_exp_no_newline:
  assumes "num_exp s = Some (t, r)"
  shows "CHR 0x0A \<notin> set t"
proof (cases s)
  case Nil
  then show ?thesis using assms by (simp add: num_exp_def)
next
  case (Cons c cs)
  obtain sgn r0 where sg: "(case cs of [] \<Rightarrow> ([], cs)
      | d # ds \<Rightarrow> if d = CHR ''+'' \<or> d = CHR ''-'' then ([d], ds) else ([], cs)) = (sgn, r0)" by force
  then have "CHR 0x0A \<notin> set sgn" by (auto split: list.splits if_splits)
  moreover obtain ds r1 where ds: "take_digits r0 = (ds, r1)" by force
  ultimately show ?thesis
    using assms sg take_digits_no_newline[OF ds] by (auto simp: num_exp_def Cons split: if_splits)
qed

lemma parse_number_no_newline:
  assumes "parse_number n = Some (t, r)"
  shows "CHR 0x0A \<notin> set t"
proof -
  obtain sgn s0 where s0: "(if prefix ''-'' n then (''-'', drop 1 n) else ([], n)) = (sgn, s0)" by force
  then have "CHR 0x0A \<notin> set sgn" by (auto split: if_splits)
  moreover from assms s0 obtain a x b y c where
    "num_int s0 = Some (a, x)" "num_frac x = Some (b, y)" "num_exp y = Some (c, r)" "t = sgn @ a @ b @ c"
    by (auto simp: parse_number_def split: option.splits)
  ultimately show ?thesis
    using num_int_no_newline num_frac_no_newline num_exp_no_newline by fastforce
qed

lemma join_with_no_newline:
  "\<forall>x\<in>set xs. CHR 0x0A \<notin> set x \<Longrightarrow> CHR 0x0A \<notin> set (join_with '','' xs)"
proof (induction xs)
  case Nil
  then show ?case by simp
next
  case (Cons x xs)
  then show ?case by (cases "xs = []") (simp_all add: join_with_Cons)
qed

lemma print_json_no_newline: "json_fits d j \<Longrightarrow> CHR 0x0A \<notin> set (print_json j)"
proof (induction j arbitrary: d)
  case (JNum n)
  then show ?case using parse_number_no_newline by simp
next
  case (JStr s)
  then show ?case using print_chars_no_newline by (simp add: print_string_def)
next
  case (JArr js)
  have "CHR 0x0A \<notin> set (print_json x)" if "x \<in> set js" for x
    using JArr.IH[OF that, of "d - 1"] JArr.prems that by simp
  then show ?case by (auto intro!: join_with_no_newline)
next
  case (JObj ms)
  have "CHR 0x0A \<notin> set (print_json v)" if "(k, v) \<in> set ms" for k v
    using JObj.IH[OF that, of v "d - 1"] JObj.prems that by force
  then show ?case
    using print_chars_no_newline by (auto simp: print_string_def intro!: join_with_no_newline)
qed simp_all


subsection \<open>Text that survives\<close>

text \<open>Valid UTF-8, and values whose texts are valid UTF-8.\<close>

definition utf8_ok :: "string \<Rightarrow> bool" where
  "utf8_ok s \<longleftrightarrow> sanitize s = s"

definition wire_ok :: "nat \<Rightarrow> json \<Rightarrow> bool" where
  "wire_ok d j \<longleftrightarrow> json_fits d j \<and> sanitize_json j = j"

lemma sanitize_ascii: "\<forall>c\<in>set s. byte_of c < 0x80 \<Longrightarrow> sanitize s = s"
  by (induction s) simp_all

lemma wire_ok_simps [simp]:
  "wire_ok d JNull" "wire_ok d (JBool b)" "wire_ok d (JStr s) \<longleftrightarrow> utf8_ok s"
  "wire_ok d (JNum n) \<longleftrightarrow> parse_number n = Some (n, [])"
  by (simp_all add: wire_ok_def utf8_ok_def)

lemma wire_ok_JArr [simp]: "wire_ok d (JArr js) \<longleftrightarrow> 0 < d \<and> (\<forall>j\<in>set js. wire_ok (d - 1) j)"
proof -
  have "map sanitize_json js = js \<longleftrightarrow> (\<forall>j\<in>set js. sanitize_json j = j)" by (induction js) auto
  then show ?thesis by (auto simp: wire_ok_def)
qed

lemma wire_ok_JObj [simp]:
  "wire_ok d (JObj ms) \<longleftrightarrow> 0 < d \<and> (\<forall>(k, v)\<in>set ms. utf8_ok k \<and> wire_ok (d - 1) v)"
proof -
  have "map (\<lambda>(k, v). (sanitize k, sanitize_json v)) ms = ms \<longleftrightarrow>
      (\<forall>(k, v)\<in>set ms. sanitize k = k \<and> sanitize_json v = v)"
    by (induction ms) auto
  then show ?thesis by (auto simp: wire_ok_def utf8_ok_def)
qed

text \<open>The names of members and the numbers that the program writes.\<close>

lemma utf8_ok_names [simp]:
  "utf8_ok ''type''" "utf8_ok ''payload''" "utf8_ok ''state''" "utf8_ok ''message''" "utf8_ok ''name''"
  "utf8_ok ''value''" "utf8_ok ''mode''" "utf8_ok ''tag''" "utf8_ok ''guest_path''" "utf8_ok ''fs_type''"
  "utf8_ok ''read_only''" "utf8_ok ''reply_to''" "utf8_ok ''ok''" "utf8_ok ''error''" "utf8_ok ''running''"
  "utf8_ok ''session''" "utf8_ok ''restarts''" "utf8_ok ''agents''" "utf8_ok ''uptime_seconds''"
  "utf8_ok ''reason''" "utf8_ok ''content''" "utf8_ok ''user''" "utf8_ok ''public_key''" "utf8_ok []"
  by (simp_all add: utf8_ok_def byte_of_def)

lemma show_nat_hd0: "show_nat n = CHR ''0'' # cs \<Longrightarrow> n = 0 \<and> cs = []"
proof (induction n arbitrary: cs rule: show_nat.induct)
  case (1 n)
  show ?case
  proof (cases "n < 10")
    case True
    then have "digit_char n = CHR ''0''" using "1.prems" by (subst (asm) show_nat.simps) simp
    then have "digit_val (digit_char n) = 0" by (simp add: digit_val_def)
    with digit_char_digit[OF True] have "n = 0" by simp
    with "1.prems" show ?thesis by (subst (asm) show_nat.simps) simp
  next
    case False
    have e: "show_nat n = show_nat (n div 10) @ [digit_char (n mod 10)]"
      using False by (subst show_nat.simps) simp
    obtain c ds where h: "show_nat (n div 10) = c # ds" using show_nat_digits[of "n div 10"]
      by (cases "show_nat (n div 10)") auto
    with e "1.prems" have "show_nat (n div 10) = CHR ''0'' # ds" by simp
    from "1.IH"[OF False this] have "n div 10 = 0" by simp
    with False show ?thesis by arith
  qed
qed

lemma parse_number_show_nat: "parse_number (show_nat n) = Some (show_nat n, [])"
proof -
  obtain c cs where s: "show_nat n = c # cs" using show_nat_digits[of n] by (cases "show_nat n") auto
  have d: "list_all is_digit (c # cs)" using show_nat_digits[of n] s by simp
  then have c: "is_digit c" "c \<noteq> CHR ''-''" by (auto simp: is_digit_def)
  have td: "take_digits (c # cs) = (c # cs, [])" using d by (simp add: take_digits_def list_all_iff)
  have "num_int (c # cs) = Some (c # cs, [])"
    using show_nat_hd0[of n cs] s c td by (auto simp: num_int_def)
  then show ?thesis using c s by (simp add: parse_number_def num_frac_def num_exp_def)
qed

lemma parse_number_minus:
  assumes "parse_number n = Some (n, [])" and "\<not> prefix ''-'' n"
  shows "parse_number (CHR ''-'' # n) = Some (CHR ''-'' # n, [])"
  using assms by (auto simp: parse_number_def split: option.splits)

lemma parse_number_show_int: "parse_number (show_int i) = Some (show_int i, [])"
proof (cases "i < 0")
  case True
  obtain c cs where s: "show_nat (nat (- i)) = c # cs" "is_digit c"
    using show_nat_digits[of "nat (- i)"] by (cases "show_nat (nat (- i))") auto
  then have "\<not> prefix ''-'' (show_nat (nat (- i)))" by (auto simp: is_digit_def)
  with True show ?thesis by (simp add: show_int_def parse_number_minus parse_number_show_nat)
next
  case False
  then show ?thesis by (simp add: show_int_def parse_number_show_nat)
qed

lemma wire_ok_numbers [simp]: "wire_ok d (enc_nat n)" "wire_ok d (enc_int i)"
  by (simp_all add: enc_nat_def enc_int_def parse_number_show_nat parse_number_show_int)

lemma wire_ok_max: "wire_ok (max_nesting - 1) j \<longleftrightarrow> wire_ok 9999 j"
  by (simp add: max_nesting_def)

text \<open>A reader that stops after the first value gives back the value that was printed.\<close>

lemma decode_text_print:
  assumes "wire_ok max_nesting j" and "ends_number r"
  shows "decode_text (print_json j @ r) = Some j"
proof -
  have "first_value (print_json j @ r) = Some (j, r)"
    unfolding first_value_def
    using parse_print_json[OF _ assms(2) order_refl, of max_nesting j] assms(1) by (simp add: wire_ok_def)
  then show ?thesis by (simp add: decode_text_def)
qed

subsection \<open>Sending and receiving\<close>

text \<open>What the receiver of the line holds: the decoded envelope and the decoding error.\<close>

definition receive_line :: "string \<Rightarrow> (envelope \<times> go_error option) option" where
  "receive_line s = map_option (\<lambda>j. dec_envelope j zero_envelope) (unmarshal_text s)"

definition envelope_ok :: "envelope \<Rightarrow> bool" where
  "envelope_ok e \<longleftrightarrow> utf8_ok (env_type e) \<and>
     (case env_payload e of None \<Rightarrow> True | Some j \<Rightarrow> wire_ok 9999 j)"

lemma envelope_wire_ok: "envelope_ok e \<Longrightarrow> wire_ok max_nesting (enc_envelope e)"
  by (auto simp: envelope_ok_def enc_envelope_def max_nesting_def split: option.splits)

lemma receive_encode: "envelope_ok e \<Longrightarrow> receive_line (encode_line (enc_envelope e)) = Some (e, None)"
  using envelope_wire_ok[of e] unmarshal_encode_line[of "enc_envelope e"]
  by (simp add: receive_line_def wire_ok_def dec_enc_envelope)

text \<open>An envelope whose texts are valid UTF-8 and whose payload is within the nesting limit
  is written as exactly one line, with no newline inside it, and reading that line gives
  back the same envelope.\<close>

theorem envelope_wire_roundtrip:
  assumes "envelope_ok e"
  shows "(\<exists>t. encode_line (enc_envelope e) = t @ [CHR 0x0A] \<and> CHR 0x0A \<notin> set t) \<and>
    receive_line (encode_line (enc_envelope e)) = Some (e, None)"
  using receive_encode[OF assms] envelope_wire_ok[OF assms] print_json_no_newline
  by (auto simp: encode_line_def wire_ok_def)

theorem envelope_wire_roundtrip_witness:
  "receive_line (encode_line (enc_envelope \<lparr>env_type = ''mount'', env_payload = Some (JArr [JStr ''a&b'', JNull])\<rparr>)) =
     Some (\<lparr>env_type = ''mount'', env_payload = Some (JArr [JStr ''a&b'', JNull])\<rparr>, None)"
proof -
  have "utf8_ok ''mount''" "utf8_ok ''a&b''" by code_simp+
  then show ?thesis by (intro envelope_wire_roundtrip[THEN conjunct2]) (simp add: envelope_ok_def)
qed

text \<open>A message with its payload, as the receiver's handler decodes it.\<close>

definition delivered :: "message_type \<Rightarrow> json \<Rightarrow> 'a decoder \<Rightarrow> 'a \<Rightarrow> (message_type \<times> 'a \<times> go_error option) option" where
  "delivered t j d z =
     (case new_envelope t (Some (Inr j)) of
        Inl e \<Rightarrow> None
      | Inr e \<Rightarrow>
          (case receive_line (encode_line (enc_envelope e)) of
             Some (e', None) \<Rightarrow> Some (env_type e', decode_payload d e' z)
           | _ \<Rightarrow> None))"

lemma delivered_ok:
  "utf8_ok t \<Longrightarrow> wire_ok 9999 j \<Longrightarrow> delivered t j d z = Some (t, d j z)"
  by (simp add: delivered_def new_envelope_def receive_encode envelope_ok_def decode_payload_def)

lemma wire_ok_omit [simp]:
  "(\<forall>(k, v)\<in>set (omit_if z k j). utf8_ok k \<and> wire_ok d v) \<longleftrightarrow> z \<or> utf8_ok k \<and> wire_ok d j"
  by (auto simp: omit_if_def)

lemma utf8_ok_types [simp]:
  "utf8_ok msg_inject_secret" "utf8_ok msg_mount" "utf8_ok msg_inject_ssh_key" "utf8_ok msg_set_config"
  "utf8_ok msg_shutdown" "utf8_ok msg_ack" "utf8_ok msg_health" "utf8_ok msg_pong"
  by (simp_all add: msg_defs utf8_ok_def byte_of_def)

text \<open>C16: Every payload the host sends survives the wire: for each of the five commands that
  carry one, building the envelope, writing it as a line, reading the line and decoding the
  payload into the zero value gives the message type and exactly the payload sent, without
  an error, when its texts are valid UTF-8. The permission bits are kept as 32-bit words.\<close>

theorem payload_wire_roundtrip:
  assumes "\<forall>s \<in> {sp_name sp, sp_value sp, mp_tag mp, mp_guest_path mp, mp_fs_type mp,
      kp_user kp, kp_public_key kp, cp_content cp, sd_reason sd}. utf8_ok s"
  shows "delivered msg_inject_secret (enc_secret sp) dec_secret zero_secret = Some (msg_inject_secret, sp, None) \<and>
    delivered msg_mount (enc_mount mp) dec_mount zero_mount = Some (msg_mount, mp, None) \<and>
    delivered msg_inject_ssh_key (enc_ssh_key kp) dec_ssh_key zero_ssh_key = Some (msg_inject_ssh_key, kp, None) \<and>
    delivered msg_set_config (enc_config cp) dec_config zero_config = Some (msg_set_config, cp, None) \<and>
    delivered msg_shutdown (enc_shutdown sd) dec_shutdown zero_shutdown = Some (msg_shutdown, sd, None)"
proof -
  have "wire_ok 9999 (enc_secret sp)" "wire_ok 9999 (enc_mount mp)" "wire_ok 9999 (enc_ssh_key kp)"
    "wire_ok 9999 (enc_config cp)" "wire_ok 9999 (enc_shutdown sd)"
    using assms by (simp_all add: enc_defs ball_Un)
  then show ?thesis
    by (simp add: delivered_ok dec_enc_secret dec_enc_mount dec_enc_ssh_key dec_enc_config dec_enc_shutdown)
qed

theorem payload_wire_roundtrip_witness:
  "delivered msg_inject_secret
     (enc_secret \<lparr>sp_name = ''key'', sp_value = ''a<b'' @ [CHR 0x0A, CHR 0xC3, CHR 0xA9], sp_mode = 0x124\<rparr>)
     dec_secret zero_secret =
   Some (msg_inject_secret,
     \<lparr>sp_name = ''key'', sp_value = ''a<b'' @ [CHR 0x0A, CHR 0xC3, CHR 0xA9], sp_mode = 0x124\<rparr>, None)"
proof -
  let ?p = "\<lparr>sp_name = ''key'', sp_value = ''a<b'' @ [CHR 0x0A, CHR 0xC3, CHR 0xA9], sp_mode = 0x124\<rparr> :: secret_payload"
  have "utf8_ok ''key''" "utf8_ok (''a<b'' @ [CHR 0x0A, CHR 0xC3, CHR 0xA9])"
    by code_simp+
  then show ?thesis
    using payload_wire_roundtrip[of ?p zero_mount zero_ssh_key zero_config zero_shutdown]
    by (simp add: zero_mount_def zero_ssh_key_def zero_config_def zero_shutdown_def)
qed

end
