(* ===== verification/Agentd.thy ===== *)
theory Agentd
  imports Lifecycle Wire
begin

text \<open>
  The client of agentd's HTTP API and the poller that feeds the lifecycle manager
  (pkg/agentd.go). What agentd answers is the environment's choice: each call of the client
  gets the reply to its request, or the error of a request that got none.
\<close>

definition agentd_socket_path :: string where
  "agentd_socket_path = ''/run/stereos/agentd.sock''"

text \<open>Nanoseconds.\<close>

definition default_poll_interval :: int where
  "default_poll_interval = 5000000000"

record agentd_health_response =
  ah_state :: string
  ah_uptime :: int

record agentd_client =
  ac_socket_path :: string

definition new_agentd_client :: "string \<Rightarrow> agentd_client" where
  "new_agentd_client path = \<lparr>ac_socket_path = path\<rparr>"

definition client_socket_path :: "agentd_client \<Rightarrow> string" where
  "client_socket_path c = ac_socket_path c"

datatype http_reply =
    NoReply go_error
  | Reply int string

definition zero_agentd_health :: agentd_health_response where
  "zero_agentd_health = \<lparr>ah_state = '''', ah_uptime = 0\<rparr>"

definition dec_agentd_health :: "agentd_health_response decoder" where
  "dec_agentd_health = dec_struct go_value ''stereosd.AgentdHealthResponse''
     [(''state'', field ah_state (\<lambda>x. ah_state_update (\<lambda>_. x))
         (dec_string (go_field ''AgentdHealthResponse'' ''state'') ''string'')),
      (''uptime_seconds'', field ah_uptime (\<lambda>x. ah_uptime_update (\<lambda>_. x))
         (dec_int64 (go_field ''AgentdHealthResponse'' ''uptime_seconds'') ''int64''))]"

definition dec_agents :: "json \<Rightarrow> agent_status list \<times> go_error option" where
  "dec_agents = dec_list go_value ''[]stereosd.AgentStatusPayload'' dec_agent zero_agent"

text \<open>The steps the two requests share: the reply, its status, and the first value of its body.\<close>

definition fetch :: "string \<Rightarrow> (json \<Rightarrow> 'a \<times> go_error option) \<Rightarrow> http_reply \<Rightarrow> go_error + 'a" where
  "fetch what dec reply =
     (case reply of
        NoReply e \<Rightarrow> Inl (ErrWrap (''agentd client: '' @ what @ '': '') e)
      | Reply status body \<Rightarrow>
          if status \<noteq> 200 then
            Inl (ErrMsg (''agentd client: '' @ what @ '': unexpected status '' @ show_int status @ '': '' @ body))
          else
            (case decode_text body of
               None \<Rightarrow> Inl (ErrWrap (''agentd client: '' @ what @ '': decode: '') json_syntax_error)
             | Some j \<Rightarrow>
                 (case dec j of
                    (x, Some e) \<Rightarrow> Inl (ErrWrap (''agentd client: '' @ what @ '': decode: '') e)
                  | (x, None) \<Rightarrow> Inr x)))"

definition agentd_health :: "agentd_client \<Rightarrow> http_reply \<Rightarrow> go_error + agentd_health_response" where
  "agentd_health c reply = fetch ''health'' (\<lambda>j. dec_agentd_health j zero_agentd_health) reply"

definition agentd_agents :: "agentd_client \<Rightarrow> http_reply \<Rightarrow> go_error + agent_status list" where
  "agentd_agents c reply = fetch ''agents'' dec_agents reply"

subsection \<open>The poller\<close>

record agentd_poller =
  po_client :: agentd_client
  po_interval :: int

definition new_agentd_poller :: "agentd_client \<Rightarrow> int \<Rightarrow> agentd_poller" where
  "new_agentd_poller c i = \<lparr>po_client = c, po_interval = i\<rparr>"

definition poll ::
  "agentd_poller \<Rightarrow> http_reply \<Rightarrow> lifecycle_manager \<Rightarrow> world \<Rightarrow> lifecycle_manager \<times> world" where
  "poll p reply lm w =
     (case agentd_agents (po_client p) reply of
        Inl e \<Rightarrow> (lm, w)
      | Inr as \<Rightarrow>
          (let lm1 = replace_agent_statuses as lm;
               has_running = list_ex as_running as
           in if has_running \<and> current_state lm1 = state_ready
              then transition state_healthy ''agents running'' lm1 w
              else (lm1, w)))"

text \<open>What the select of the loop can see: a tick, with the reply the poll then gets, or the end.\<close>

datatype poll_event = Tick http_reply | Cancelled

fun poll_loop ::
  "agentd_poller \<Rightarrow> poll_event list \<Rightarrow> lifecycle_manager \<Rightarrow> world \<Rightarrow> lifecycle_manager \<times> world" where
  "poll_loop p [] lm w = (lm, w)"
| "poll_loop p (Cancelled # es) lm w = (lm, w)"
| "poll_loop p (Tick reply # es) lm w =
     (let (lm1, w1) = poll p reply lm w in poll_loop p es lm1 w1)"

definition poller_run ::
  "agentd_poller \<Rightarrow> http_reply \<Rightarrow> poll_event list \<Rightarrow> lifecycle_manager \<Rightarrow> world \<Rightarrow>
   lifecycle_manager \<times> world" where
  "poller_run p first es lm w =
     (let (lm1, w1) = poll p first lm w in poll_loop p es lm1 w1)"

subsection \<open>One poll\<close>

lemma poll_fields:
  "lm_state (fst (poll p reply lm w)) =
     (case agentd_agents (po_client p) reply of
        Inr as \<Rightarrow> if list_ex as_running as \<and> lm_state lm = state_ready then state_healthy else lm_state lm
      | Inl e \<Rightarrow> lm_state lm)"
  "lm_agents (fst (poll p reply lm w)) =
     (case agentd_agents (po_client p) reply of Inr as \<Rightarrow> as | Inl e \<Rightarrow> lm_agents lm)"
  "lm_boot_time (fst (poll p reply lm w)) = lm_boot_time lm"
  "lm_send (fst (poll p reply lm w)) = lm_send lm"
  by (simp_all add: poll_def Let_def replace_agent_statuses_def split: sum.split)

text \<open>A poll that gets no reply, a status other than 200, or a body that is not a list of
  agent statuses changes nothing at all. A successful one replaces the cached statuses as a
  whole, and moves the state to healthy exactly when it was ready and some agent runs; it
  makes no other change of state, and never one away from healthy.\<close>

theorem poll_effect:
  "(case agentd_agents (po_client p) reply of
      Inl e \<Rightarrow> poll p reply lm w = (lm, w)
    | Inr as \<Rightarrow>
        lm_agents (fst (poll p reply lm w)) = as \<and>
        lm_state (fst (poll p reply lm w)) =
          (if lm_state lm = state_ready \<and> list_ex as_running as then state_healthy else lm_state lm))"
  using poll_fields(1,2)[of p reply lm w] by (auto simp: poll_def split: sum.split)

text \<open>The replies a run of the poller gets, up to its cancellation, and the lists they hold.\<close>

fun replies_of :: "poll_event list \<Rightarrow> http_reply list" where
  "replies_of [] = []"
| "replies_of (Cancelled # es) = []"
| "replies_of (Tick r # es) = r # replies_of es"

definition agent_lists :: "agentd_client \<Rightarrow> http_reply list \<Rightarrow> agent_status list list" where
  "agent_lists c rs = List.map_filter (\<lambda>r. case agentd_agents c r of Inr as \<Rightarrow> Some as | Inl e \<Rightarrow> None) rs"

lemma agent_lists_simps [simp]:
  "agent_lists c [] = []"
  "agent_lists c (r # rs) =
     (case agentd_agents c r of Inr as \<Rightarrow> as # agent_lists c rs | Inl e \<Rightarrow> agent_lists c rs)"
  by (simp_all add: agent_lists_def map_filter_simps split: sum.split)

lemma poll_loop_result:
  "lm_agents (fst (poll_loop p es lm w)) = last (lm_agents lm # agent_lists (po_client p) (replies_of es)) \<and>
   lm_state (fst (poll_loop p es lm w)) =
     (if lm_state lm = state_ready \<and> (\<exists>as\<in>set (agent_lists (po_client p) (replies_of es)). list_ex as_running as)
      then state_healthy else lm_state lm)"
proof (induction p es lm w rule: poll_loop.induct)
  case (3 p reply es lm w)
  obtain lm1 w1 where p: "poll p reply lm w = (lm1, w1)" by force
  have differ: "state_healthy \<noteq> state_ready" by (simp add: state_defs)
  note ih = "3.IH"[OF p[symmetric] refl]
  show ?case
  proof (cases "agentd_agents (po_client p) reply")
    case (Inl e)
    then have "lm1 = lm" using p by (simp add: poll_def)
    then show ?thesis using ih p Inl by auto
  next
    case (Inr as)
    let ?L = "agent_lists (po_client p) (replies_of es)"
    have ag: "lm_agents lm1 = as"
      and st: "lm_state lm1 = (if list_ex as_running as \<and> lm_state lm = state_ready
                           then state_healthy else lm_state lm)"
      using poll_fields(1,2)[of p reply lm w] p Inr by simp_all
    have "fst (poll_loop p (Tick reply # es) lm w) = fst (poll_loop p es lm1 w1)" using p by simp
    moreover have "lm_agents (fst (poll_loop p es lm1 w1)) = last (as # ?L)"
      using ih ag by simp
    moreover have "lm_state (fst (poll_loop p es lm1 w1)) =
        (if lm_state lm = state_ready \<and> (list_ex as_running as \<or> (\<exists>as\<in>set ?L. list_ex as_running as))
         then state_healthy else lm_state lm)"
    proof (cases "list_ex as_running as \<and> lm_state lm = state_ready")
      case True
      then have "lm_state lm1 = state_healthy" using st by simp
      then show ?thesis using conjunct2[OF ih] True differ by simp
    next
      case False
      then have "lm_state lm1 = lm_state lm" using st by (simp only: if_False)
      then show ?thesis using conjunct2[OF ih] False
        by (cases "lm_state lm = state_ready") simp_all
    qed
    ultimately show ?thesis using Inr by simp
  qed
qed simp_all

text \<open>C29: However many polls succeed or fail until the poller is cancelled, the cached statuses
  are those of the last successful reply (or the ones from before, when none succeeded), and
  the state is healthy if it was ready and some successful reply had a running agent, and is
  unchanged otherwise: later polls without a running agent do not take it back.\<close>

theorem poller_run_result:
  "let rs = first # replies_of es; ls = agent_lists (po_client p) rs in
   lm_agents (fst (poller_run p first es lm w)) = last (lm_agents lm # ls) \<and>
   lm_state (fst (poller_run p first es lm w)) =
     (if lm_state lm = state_ready \<and> (\<exists>as\<in>set ls. list_ex as_running as)
      then state_healthy else lm_state lm)"
  using poll_loop_result[of p "Tick first # es" lm w]
  by (simp add: poller_run_def Let_def)

subsection \<open>What agentd sends\<close>

definition agent_ok :: "agent_status \<Rightarrow> bool" where
  "agent_ok a \<longleftrightarrow> utf8_ok (as_name a) \<and> utf8_ok (as_session a) \<and> utf8_ok (as_error a) \<and>
     - (2 ^ 63) \<le> as_restarts a \<and> as_restarts a < 2 ^ 63"

lemma agent_wire_ok: "agent_ok a \<Longrightarrow> 0 < d \<Longrightarrow> wire_ok d (enc_agent a)"
  by (simp add: agent_ok_def enc_agent_def ball_Un)

text \<open>If agentd answers with status 200 and the list of its agents as JSON, followed by
  anything that cannot continue the value, the client returns exactly these statuses.\<close>

theorem agentd_agents_roundtrip:
  assumes "list_all agent_ok as" and "ends_number r"
  shows "agentd_agents c (Reply 200 (print_json (JArr (map enc_agent as)) @ r)) = Inr as"
proof -
  let ?j = "JArr (map enc_agent as)"
  have "wire_ok max_nesting ?j"
    using assms(1) agent_wire_ok by (simp add: list_all_iff max_nesting_def)
  from decode_text_print[OF this assms(2)] have "decode_text (print_json ?j @ r) = Some ?j" .
  moreover have "dec_agents ?j = (as, None)"
    using assms(1)
    by (auto simp: dec_agents_def list_all_iff agent_ok_def intro!: dec_elems_map dec_enc_agent)
  ultimately show ?thesis by (simp add: agentd_agents_def fetch_def)
qed

lemma agentd_agents_roundtrip_witness:
  "agentd_agents (new_agentd_client agentd_socket_path)
     (Reply 200 (print_json (JArr (map enc_agent
        [\<lparr>as_name = ''claude'', as_running = True, as_session = ''main'', as_restarts = 2,
          as_error = ''''\<rparr>])) @ [CHR 0x0A])) =
   Inr [\<lparr>as_name = ''claude'', as_running = True, as_session = ''main'', as_restarts = 2,
         as_error = ''''\<rparr>]"
  by (rule agentd_agents_roundtrip) (simp_all add: agent_ok_def utf8_ok_def byte_of_def)

end
