(* ===== verification/KeyedStore.thy ===== *)
theory KeyedStore
  imports Prelude
begin

text \<open>
  The interface of a store of named values that a client writes and deletes, each operation
  saying whether it succeeded. The laws: a good name stays out of the way of the others, a
  successful operation is the update of a map, and a failed one leaves the map as it was.
\<close>

datatype ('k, 'x) store_op = Put 'k 'x | Drop 'k

fun op_key :: "('k, 'x) store_op \<Rightarrow> 'k" where
  "op_key (Put k x) = k"
| "op_key (Drop k) = k"

text \<open>Operations one after the other, and the map that results from the successful ones.\<close>

fun run_ops ::
  "('k \<Rightarrow> 'x \<Rightarrow> 'w \<Rightarrow> bool \<times> 'w) \<Rightarrow> ('k \<Rightarrow> 'w \<Rightarrow> bool \<times> 'w) \<Rightarrow>
   ('k, 'x) store_op list \<Rightarrow> 'w \<Rightarrow> bool list \<times> 'w" where
  "run_ops ins rem [] w = ([], w)"
| "run_ops ins rem (q # qs) w =
     (let (b, w1) = (case q of Put k x \<Rightarrow> ins k x w | Drop k \<Rightarrow> rem k w);
          (bs, w2) = run_ops ins rem qs w1
      in (b # bs, w2))"

fun apply_op :: "('x \<Rightarrow> 'v) \<Rightarrow> ('k, 'x) store_op \<times> bool \<Rightarrow> ('k \<rightharpoonup> 'v) \<Rightarrow> ('k \<rightharpoonup> 'v)" where
  "apply_op val (Put k x, True) m = m(k \<mapsto> val x)"
| "apply_op val (Drop k, True) m = m(k := None)"
| "apply_op val (q, False) m = m"

locale keyed_store =
  fixes inv :: "'w \<Rightarrow> bool"
    and good :: "'k \<Rightarrow> bool"
    and view :: "'w \<Rightarrow> 'k \<rightharpoonup> 'v"
    and val :: "'x \<Rightarrow> 'v"
    and ins :: "'k \<Rightarrow> 'x \<Rightarrow> 'w \<Rightarrow> bool \<times> 'w"
    and rem :: "'k \<Rightarrow> 'w \<Rightarrow> bool \<times> 'w"
  assumes ins_inv: "inv w \<Longrightarrow> good k \<Longrightarrow> inv (snd (ins k x w))"
    and rem_inv: "inv w \<Longrightarrow> good k \<Longrightarrow> inv (snd (rem k w))"
    and ins_view: "inv w \<Longrightarrow> good k \<Longrightarrow>
      view (snd (ins k x w)) = (if fst (ins k x w) then (view w)(k \<mapsto> val x) else view w)"
    and rem_view: "inv w \<Longrightarrow> good k \<Longrightarrow>
      view (snd (rem k w)) = (if fst (rem k w) then (view w)(k := None) else view w)"
begin

lemma step_ok:
  assumes "inv w" and "good (op_key q)"
    and "(case q of Put k x \<Rightarrow> ins k x w | Drop k \<Rightarrow> rem k w) = (b, w')"
  shows "inv w' \<and> view w' = apply_op val (q, b) (view w)"
proof (cases q)
  case (Put k x)
  with assms have "ins k x w = (b, w')" "good k" by simp_all
  then show ?thesis
    using ins_inv[OF assms(1), of k x] ins_view[OF assms(1), of k x] Put by (cases b) simp_all
next
  case (Drop k)
  with assms have "rem k w = (b, w')" "good k" by simp_all
  then show ?thesis
    using rem_inv[OF assms(1), of k] rem_view[OF assms(1), of k] Drop by (cases b) simp_all
qed

lemma ops_refine:
  assumes "inv w" and "list_all (good \<circ> op_key) qs" and "run_ops ins rem qs w = (bs, w')"
  shows "inv w' \<and> length bs = length qs \<and> view w' = fold (apply_op val) (zip qs bs) (view w)"
  using assms
proof (induction qs arbitrary: w bs w')
  case Nil
  then show ?case by simp
next
  case (Cons q qs)
  obtain b w1 where q: "(case q of Put k x \<Rightarrow> ins k x w | Drop k \<Rightarrow> rem k w) = (b, w1)" by force
  obtain cs w2 where qs: "run_ops ins rem qs w1 = (cs, w2)" by force
  from Cons.prems q qs have "bs = b # cs" "w' = w2" by auto
  moreover have "inv w1 \<and> view w1 = apply_op val (q, b) (view w)"
    using step_ok[OF Cons.prems(1) _ q] Cons.prems(2) by simp
  ultimately show ?case using Cons.IH[OF _ _ qs] Cons.prems(2) by simp
qed

end

end
