(* ===== verification/Secrets.thy ===== *)
theory Secrets
  imports GoOSFacts KeyedStore
begin

text \<open>
  The secret manager (pkg/secrets.go): secrets are files of one directory, written through
  a temporary file and a rename. The abstract view of the store is the map from names to
  values that \<open>secrets_of\<close> reads off the file system.
\<close>

record secret_manager =
  sm_secret_dir :: string

definition new_secret_manager :: "string \<Rightarrow> secret_manager" where
  "new_secret_manager dir = \<lparr>sm_secret_dir = dir\<rparr>"

definition secret_manager_dir :: "secret_manager \<Rightarrow> string" where
  "secret_manager_dir sm = sm_secret_dir sm"

text \<open>The permission bits of the file: what the payload asks for, 0600 when it asks for nothing.\<close>

definition secret_mode :: "secret_payload \<Rightarrow> 32 word" where
  "secret_mode p = (if sp_mode p = 0 then 0x180 else sp_mode p)"

text \<open>Inject returns the error, the payload (its value is cleared on success) and the world.\<close>

definition inject ::
  "secret_manager \<Rightarrow> secret_payload \<Rightarrow> world \<Rightarrow> go_error option \<times> secret_payload \<times> world" where
  "inject sm p w =
     (if sp_name p = '''' then (Some (ErrMsg ''secret name cannot be empty''), p, w)
      else
        (let clean_name = base (sp_name p) in
         if clean_name \<noteq> sp_name p \<or> contains clean_name ''..'' then
           (Some (ErrMsg (''invalid secret name: '' @ go_quote (sp_name p) @
              '' (must be a simple filename)'')), p, w)
         else
           (let target = join2 (sm_secret_dir sm) clean_name;
                mode = secret_mode p;
                tmp = target @ ''.tmp''
            in
            case os_write_file tmp (sp_value p) mode w of
              (Some e, w1) \<Rightarrow>
                (Some (ErrWrap (''write secret '' @ go_quote clean_name @ '': '') e), p, w1)
            | (None, w1) \<Rightarrow>
           (case os_rename tmp target w1 of
              (Some e, w2) \<Rightarrow>
                (let (ignored, w3) = os_remove tmp w2
                 in (Some (ErrWrap (''rename secret '' @ go_quote clean_name @ '': '') e), p, w3))
            | (None, w2) \<Rightarrow> (None, p\<lparr>sp_value := ''''\<rparr>, w2)))))"

definition list_secrets :: "secret_manager \<Rightarrow> world \<Rightarrow> (go_error + string list) \<times> world" where
  "list_secrets sm w =
     (case os_read_dir (sm_secret_dir sm) w of
        (Inl e, w1) \<Rightarrow> (Inl (ErrWrap ''list secrets: '' e), w1)
      | (Inr es, w1) \<Rightarrow>
          (Inr (map fst (filter (\<lambda>(n, d). \<not> d \<and> \<not> has_suffix n ''.tmp'') es)), w1))"

definition remove_secret :: "secret_manager \<Rightarrow> string \<Rightarrow> world \<Rightarrow> outcome" where
  "remove_secret sm name w =
     (let clean_name = base name in
      if clean_name \<noteq> name then (Some (ErrMsg (''invalid secret name: '' @ go_quote name)), w)
      else
        (case os_remove (join2 (sm_secret_dir sm) clean_name) w of
           (Some e, w1) \<Rightarrow>
             if is_not_exist e then (None, w1)
             else (Some (ErrWrap (''remove secret '' @ go_quote clean_name @ '': '') e), w1)
         | (None, w1) \<Rightarrow> (None, w1)))"

subsection \<open>Names\<close>

definition inject_name_ok :: "string \<Rightarrow> bool" where
  "inject_name_ok n \<longleftrightarrow> n \<noteq> '''' \<and> base n = n \<and> \<not> contains n ''..''"

text \<open>A simple filename: one component, which names something inside a directory.\<close>

definition simple_name :: "string \<Rightarrow> bool" where
  "simple_name n \<longleftrightarrow> comp_ok n \<and> \<not> contains n ''..''"

lemma inject_name_ok_iff: "inject_name_ok n \<longleftrightarrow> simple_name n \<or> n = ''/'' \<or> n = ''.''"
proof -
  have "\<not> contains ''.'' ''..''" "\<not> contains ''/'' ''..''" by simp_all
  moreover have "n = ''..'' \<Longrightarrow> contains n ''..''" using contains_self by blast
  ultimately show ?thesis
    by (auto simp: inject_name_ok_def simple_name_def comp_ok_def base_eq_iff)
qed

lemma comp_ok_tmp: "comp_ok n \<Longrightarrow> comp_ok (n @ ''.tmp'')"
  by (rule comp_ok_extend) auto

abbreviation secret_path :: "secret_manager \<Rightarrow> string \<Rightarrow> path" where
  "secret_path sm n \<equiv> resolve (sm_secret_dir sm) @ [n]"

lemma secret_target:
  assumes "is_abs (sm_secret_dir sm)" and "comp_ok n"
  shows "resolve (join2 (sm_secret_dir sm) n) = secret_path sm n"
    and "resolve (join2 (sm_secret_dir sm) n @ ''.tmp'') = secret_path sm (n @ ''.tmp'')"
  using assms comp_ok_tmp[OF assms(2)]
  by (simp_all add: path_simps path_string_snoc_append)

lemma tmp_neq [simp]: "n @ ''.tmp'' \<noteq> n" "n \<noteq> n @ ''.tmp''"
  by simp_all

subsection \<open>Inject\<close>

lemma inject_bad_name:
  "\<not> inject_name_ok (sp_name p) \<Longrightarrow> \<exists>e. inject sm p w = (Some e, p, w)"
  by (auto simp: inject_def inject_name_ok_def Let_def)

text \<open>The steps of an Inject whose name is accepted.\<close>

lemma inject_steps:
  assumes "inject_name_ok (sp_name p)" and "inject sm p w = (r, p', w')"
  obtains e w1 where "os_write_file (join2 (sm_secret_dir sm) (sp_name p) @ ''.tmp'') (sp_value p)
        (secret_mode p) w = (Some e, w1)"
      "w' = w1" "r \<noteq> None" "p' = p"
  | e w1 w2 where "os_write_file (join2 (sm_secret_dir sm) (sp_name p) @ ''.tmp'') (sp_value p)
        (secret_mode p) w = (None, w1)"
      "os_rename (join2 (sm_secret_dir sm) (sp_name p) @ ''.tmp'')
         (join2 (sm_secret_dir sm) (sp_name p)) w1 = (Some e, w2)"
      "w' = snd (os_remove (join2 (sm_secret_dir sm) (sp_name p) @ ''.tmp'') w2)"
      "r \<noteq> None" "p' = p"
  | w1 where "os_write_file (join2 (sm_secret_dir sm) (sp_name p) @ ''.tmp'') (sp_value p)
        (secret_mode p) w = (None, w1)"
      "os_rename (join2 (sm_secret_dir sm) (sp_name p) @ ''.tmp'')
         (join2 (sm_secret_dir sm) (sp_name p)) w1 = (None, w')"
      "r = None" "p' = p\<lparr>sp_value := ''''\<rparr>"
proof -
  from assms(1) have n: "sp_name p \<noteq> ''''" "base (sp_name p) = sp_name p"
    "\<not> contains (sp_name p) ''..''" by (auto simp: inject_name_ok_def)
  show thesis
    using assms(2) that
    by (fastforce simp: inject_def n Let_def split: prod.splits option.splits)
qed

context file_effects
begin

lemma inject_R:
  assumes inj: "inject sm p w = (r, p', w')"
    and P: "P = {resolve (join2 (sm_secret_dir sm) (sp_name p)),
      resolve (join2 (sm_secret_dir sm) (sp_name p) @ ''.tmp'')}"
  shows "R P w w'"
proof (cases "inject_name_ok (sp_name p)")
  case False
  then obtain e where "inject sm p w = (Some e, p, w)" using inject_bad_name by blast
  with inj show ?thesis by (simp add: R_refl)
next
  case True
  from inj show ?thesis
  proof (rule inject_steps[OF True], goal_cases)
    case (1 e w1)
    with P show ?case using R_write[OF 1(1), of P] by simp
  next
    case (2 e w1 w2)
    have "R P w2 w'" using 2(3) by (metis P R_unlink insertI1 insertI2 prod.collapse)
    with 2 P show ?case
      using R_trans[OF R_trans[OF R_write[OF 2(1), of P] R_move[OF 2(2), of P]]] by simp
  next
    case (3 w1)
    with P show ?case using R_trans[OF R_write[OF 3(1), of P] R_move[OF 3(2), of P]] by simp
  qed
qed

end

lemmas inject_env = env.inject_R[OF _ refl]
lemmas inject_touches_paths = touch.inject_R[OF _ refl]
lemmas inject_fs_ok = wf.inject_R[OF _ refl, rule_format]

lemma simple_inject_ok: "simple_name n \<Longrightarrow> inject_name_ok n"
  by (simp add: inject_name_ok_iff)

lemma simple_comp_ok: "simple_name n \<Longrightarrow> comp_ok n"
  by (simp add: simple_name_def)

text \<open>Injecting a secret can only change two entries of the file system, the secret's file
  and its temporary file, both directly inside the secret directory: for every name except
  the two special ones the root and the dot, in every intermediate file system and under
  every pattern of failing calls. Names with a slash, empty names and names with two dots
  change nothing.\<close>

theorem inject_confined:
  assumes "is_abs (sm_secret_dir sm)" and "sp_name p \<noteq> ''/''" and "sp_name p \<noteq> ''.''"
    and "inject sm p w = (r, p', w')"
  shows "touches (if simple_name (sp_name p)
      then {secret_path sm (sp_name p), secret_path sm (sp_name p @ ''.tmp'')} else {}) w w'"
proof (cases "simple_name (sp_name p)")
  case True
  then show ?thesis
    using inject_touches_paths[OF assms(4)] secret_target[OF assms(1) simple_comp_ok[OF True]] by simp
next
  case False
  then have "\<not> inject_name_ok (sp_name p)" using assms(2,3) by (simp add: inject_name_ok_iff)
  then obtain e where "inject sm p w = (Some e, p, w)" using inject_bad_name by blast
  with assms(4) False show ?thesis by simp
qed

subsection \<open>Atomicity\<close>

lemma inject_result:
  assumes abs: "is_abs (sm_secret_dir sm)" and n: "simple_name (sp_name p)"
    and inj: "inject sm p w = (r, p', w')"
  shows "(r = None \<longrightarrow> p' = p\<lparr>sp_value := ''''\<rparr> \<and>
           lookup (w_fs w') (secret_path sm (sp_name p)) =
             Some (File (file_meta (lookup (w_fs w) (secret_path sm (sp_name p @ ''.tmp'')))
                (secret_mode p) w) (sp_value p)) \<and>
           lookup (w_fs w') (secret_path sm (sp_name p @ ''.tmp'')) = None) \<and>
    (r \<noteq> None \<longrightarrow> p' = p \<and>
       lookup (w_fs w') (secret_path sm (sp_name p)) = lookup (w_fs w) (secret_path sm (sp_name p))) \<and>
    observed (\<lambda>f. lookup f (secret_path sm (sp_name p)) = lookup (w_fs w) (secret_path sm (sp_name p)) \<or>
      (\<exists>a. lookup f (secret_path sm (sp_name p)) = Some (File a (sp_value p)))) w w'"
proof -
  let ?tgt = "join2 (sm_secret_dir sm) (sp_name p)"
  let ?T = "secret_path sm (sp_name p)" and ?M = "secret_path sm (sp_name p @ ''.tmp'')"
  let ?Q = "\<lambda>f. lookup f ?T = lookup (w_fs w) ?T \<or> (\<exists>a. lookup f ?T = Some (File a (sp_value p)))"
  note path = secret_target[OF abs simple_comp_ok[OF n]]
  have wr: "observed ?Q w w1 \<and> lookup (w_fs w1) ?T = lookup (w_fs w) ?T"
    if h: "os_write_file (?tgt @ ''.tmp'') s md w = (x, w1)" for s md x w1
  proof -
    have t: "touches {?M} w w1"
      using touches_write_file[of "?tgt @ ''.tmp''" w s md] h path by simp
    show ?thesis
      using observed_mono[OF touches_observed[OF t, of ?T]] touches_now[OF t, of ?T] by simp
  qed
  show ?thesis
  proof (rule inject_steps[OF simple_inject_ok[OF n] inj])
    fix e w1
    assume h: "os_write_file (?tgt @ ''.tmp'') (sp_value p) (secret_mode p) w
      = (Some e, w1)" "w' = w1" "r \<noteq> None" "p' = p"
    show ?thesis using wr[OF h(1)] h(2-) by auto
  next
    fix e w1 w2
    assume h: "os_write_file (?tgt @ ''.tmp'') (sp_value p) (secret_mode p) w
        = (None, w1)" "os_rename (?tgt @ ''.tmp'') ?tgt w1 = (Some e, w2)"
      "w' = snd (os_remove (?tgt @ ''.tmp'') w2)" "r \<noteq> None" "p' = p"
    have eq: "w_fs w2 = w_fs w1" "w_hist w2 = w_hist w1" using rename_fail[OF h(2)] by auto
    then have two: "observed ?Q w w2" using wr[OF h(1)] by (simp add: observed_def)
    have "touches {?M} w2 w'" using touches_remove[of "?tgt @ ''.tmp''" w2] h(3) path by simp
    then have "observed (\<lambda>f. lookup f ?T = lookup (w_fs w) ?T) w2 w' \<and>
        lookup (w_fs w') ?T = lookup (w_fs w) ?T"
      using touches_observed[of "{?M}" w2 w' ?T] touches_now[of "{?M}" w2 w' ?T] wr[OF h(1)] eq by simp
    then have "observed ?Q w2 w' \<and> lookup (w_fs w') ?T = lookup (w_fs w) ?T"
      by (auto elim: observed_mono)
    with two h(4,5) show ?thesis by (blast intro: observed_trans)
  next
    fix w1
    assume h: "os_write_file (?tgt @ ''.tmp'') (sp_value p) (secret_mode p) w
        = (None, w1)" "os_rename (?tgt @ ''.tmp'') ?tgt w1 = (None, w')" "r = None"
        "p' = p\<lparr>sp_value := ''''\<rparr>"
    have neq: "resolve (?tgt @ ''.tmp'') \<noteq> resolve ?tgt" using path by simp
    note w1 = write_file_Some[OF h(1), unfolded path] and rn = rename_Some[OF h(2) neq, unfolded path]
    have "observed ?Q w1 w'" using rn(1,3) w1 by (auto simp: observed_def)
    then have "observed ?Q w w'" using wr[OF h(1)] by (blast intro: observed_trans)
    with rn w1 h(3,4) show ?thesis by simp
  qed
qed

text \<open>C7: Injection is atomic for everyone who reads the secret's file: under every pattern of
  failing calls, each file system that becomes visible has at that file either what was there
  before the call or a complete file with the new value. If an error is returned, the file is
  as it was and so is the payload; if not, the file holds the value, the temporary file is
  gone, and the value in the payload is cleared.\<close>

theorem inject_atomic:
  assumes "is_abs (sm_secret_dir sm)" and "simple_name (sp_name p)"
    and "inject sm p w = (r, p', w')"
    and "target = secret_path sm (sp_name p)"
  shows "observed (\<lambda>f. lookup f target = lookup (w_fs w) target \<or>
      (\<exists>a. lookup f target = Some (File a (sp_value p)))) w w' \<and>
    (case r of
       Some e \<Rightarrow> lookup (w_fs w') target = lookup (w_fs w) target \<and> p' = p
     | None \<Rightarrow> (\<exists>a. lookup (w_fs w') target = Some (File a (sp_value p))) \<and>
         lookup (w_fs w') (secret_path sm (sp_name p @ ''.tmp'')) = None \<and>
         p' = p\<lparr>sp_value := ''''\<rparr>)"
  using inject_result[OF assms(1,2,3)] assms(4) by (cases r) auto

subsection \<open>The store a reader sees\<close>

definition secrets_of :: "secret_manager \<Rightarrow> fsys \<Rightarrow> string \<rightharpoonup> string" where
  "secrets_of sm f n = (case lookup f (secret_path sm n) of Some (File a v) \<Rightarrow> Some v | _ \<Rightarrow> None)"

text \<open>
  The names the store is meant for, and the invariant of its directory: it is a directory,
  everything in it is a file, and every name in it is a name of the store or ends in .tmp.
\<close>

definition good_name :: "string \<Rightarrow> bool" where
  "good_name n \<longleftrightarrow> simple_name n \<and> \<not> has_suffix n ''.tmp''"

definition store_ok :: "secret_manager \<Rightarrow> fsys \<Rightarrow> bool" where
  "store_ok sm f \<longleftrightarrow> fs_ok f \<and> is_abs (sm_secret_dir sm) \<and> is_dir (lookup f (resolve (sm_secret_dir sm))) \<and>
     (\<forall>n d. lookup f (secret_path sm n) = Some d \<longrightarrow>
        \<not> is_dir (Some d) \<and> (good_name n \<or> has_suffix n ''.tmp''))"

text \<open>No call fails by claiming that a file that is there is missing.\<close>

definition honest :: "world \<Rightarrow> bool" where
  "honest w \<longleftrightarrow> (\<forall>n k. w_faults w n \<noteq> Some (Fault ENOENT k))"

definition store_view :: "secret_manager \<Rightarrow> world \<Rightarrow> string \<rightharpoonup> string" where
  "store_view sm w = secrets_of sm (w_fs w) |` {n. good_name n}"

lemma has_suffix_tmp [simp]: "has_suffix (n @ ''.tmp'') ''.tmp''"
  by (simp add: has_suffix_def suffix_def)

lemma not_good_tmp [simp]: "\<not> good_name (n @ ''.tmp'')"
  by (simp add: good_name_def)

lemma path_neq_dir [simp]: "p @ [n] \<noteq> p" "p \<noteq> p @ [n]"
  by simp_all

text \<open>An operation that touches only files of the directory keeps the invariant.\<close>

lemma store_ok_touches:
  assumes ok: "store_ok sm (w_fs w)" and t: "touches (secret_path sm ` N) w w'"
    and fs: "fs_ok (w_fs w')" and N: "\<And>n. n \<in> N \<Longrightarrow> good_name n \<or> has_suffix n ''.tmp''"
    and files: "\<And>n. n \<in> N \<Longrightarrow> \<not> is_dir (lookup (w_fs w') (secret_path sm n))"
  shows "store_ok sm (w_fs w')"
proof -
  let ?d = "resolve (sm_secret_dir sm)"
  have "?d \<notin> secret_path sm ` N" by auto
  from touches_now[OF t this] ok have d: "is_dir (lookup (w_fs w') ?d)"
    by (simp add: store_ok_def)
  have "\<not> is_dir (Some d) \<and> (good_name n \<or> has_suffix n ''.tmp'')"
    if h: "lookup (w_fs w') (secret_path sm n) = Some d" for n d
  proof (cases "n \<in> N")
    case True
    then show ?thesis using N[OF True] files[OF True] h by simp
  next
    case False
    then have "secret_path sm n \<notin> secret_path sm ` N" by auto
    from touches_now[OF t this] h have "lookup (w_fs w) (secret_path sm n) = Some d" by simp
    with ok show ?thesis by (simp add: store_ok_def)
  qed
  with d fs ok show ?thesis by (simp add: store_ok_def)
qed

lemma inject_store_touches:
  assumes ok: "store_ok sm (w_fs w)" and n: "simple_name (sp_name p)"
    and inj: "inject sm p w = (r, p', w')"
  shows "touches (secret_path sm ` {sp_name p, sp_name p @ ''.tmp''}) w w'"
proof -
  have "is_abs (sm_secret_dir sm)" using ok by (simp add: store_ok_def)
  then show ?thesis
    using inject_touches_paths[OF inj] secret_target[OF _ simple_comp_ok[OF n]] by simp
qed

lemma inject_store_ok:
  assumes ok: "store_ok sm (w_fs w)" and n: "simple_name (sp_name p)"
    and inj: "inject sm p w = (r, p', w')"
  shows "store_ok sm (w_fs w')"
proof -
  have fs: "fs_ok (w_fs w)" using ok by (simp add: store_ok_def)
  have fs': "fs_ok (w_fs w')" using observed_now[OF inject_fs_ok[OF inj fs] fs] .
  have "\<not> is_dir (lookup (w_fs w) (secret_path sm n))" for n
    using ok by (cases "lookup (w_fs w) (secret_path sm n)") (auto simp: store_ok_def)
  then have "\<not> is_dir (lookup (w_fs w') (secret_path sm n))" for n
    using calm.inject_R[OF inj refl] by blast
  then show ?thesis
    using n by (intro store_ok_touches[OF ok inject_store_touches[OF ok n inj] fs']) (auto simp: good_name_def)
qed

lemma inject_store:
  assumes ok: "store_ok sm (w_fs w)" and n: "good_name (sp_name p)"
    and inj: "inject sm p w = (r, p', w')"
  shows "store_view sm w' = (if r = None then (store_view sm w)(sp_name p \<mapsto> sp_value p) else store_view sm w)"
proof -
  let ?N = "{sp_name p, sp_name p @ ''.tmp''}"
  have abs: "is_abs (sm_secret_dir sm)" using ok by (simp add: store_ok_def)
  have sn: "simple_name (sp_name p)" using n by (simp add: good_name_def)
  note t = inject_store_touches[OF ok sn inj] and res = inject_result[OF abs sn inj]
  have other: "secrets_of sm (w_fs w') m = secrets_of sm (w_fs w) m" if "m \<notin> ?N" for m
    using touches_now[OF t, of "secret_path sm m"] that by (auto simp: secrets_of_def)
  have here: "secrets_of sm (w_fs w') (sp_name p) =
      (if r = None then Some (sp_value p) else secrets_of sm (w_fs w) (sp_name p))"
    using res by (cases r) (auto simp: secrets_of_def)
  show "store_view sm w' =
      (if r = None then (store_view sm w)(sp_name p \<mapsto> sp_value p) else store_view sm w)"
  proof
    fix m
    consider "m = sp_name p" | "\<not> good_name m" "m \<noteq> sp_name p" | "m \<notin> ?N"
      using not_good_tmp by blast
    then show "store_view sm w' m =
      (if r = None then (store_view sm w)(sp_name p \<mapsto> sp_value p) else store_view sm w) m"
      by cases (use n here other in \<open>simp_all add: store_view_def restrict_map_def\<close>)
  qed
qed

subsection \<open>Remove and List\<close>

context file_effects
begin

lemma remove_secret_R:
  assumes "remove_secret sm n w = (r, w')"
  shows "R {resolve (join2 (sm_secret_dir sm) n)} w w'"
proof (cases "base n = n")
  case False
  then show ?thesis using assms R_refl by (simp add: remove_secret_def Let_def)
next
  case True
  have "w' = snd (os_remove (join2 (sm_secret_dir sm) n) w)"
    using assms True by (auto simp: remove_secret_def Let_def split: prod.splits option.splits if_splits)
  then show ?thesis using R_remove by simp
qed

end

text \<open>A missing file is not an error, and nothing but a missing file is reported as one.\<close>

lemma remove_not_exist:
  assumes "honest w" and "is_dir (lookup (w_fs w) (butlast (resolve p)))" and "fs_ok (w_fs w)"
    and "os_remove p w = (Some e, w')" and "is_not_exist e"
  shows "lookup (w_fs w) (resolve p) = None"
proof (rule ccontr)
  assume "lookup (w_fs w) (resolve p) \<noteq> None"
  then obtain nd where nd: "lookup (w_fs w) (resolve p) = Some nd" by blast
  have "w_faults w (w_tick w) = Some (Fault en k) \<Longrightarrow> en \<noteq> ENOENT" for en k
    using assms(1) by (auto simp: honest_def)
  then show False
    using assms(4,5) nd fs_ok_walk[OF assms(3) nd]
    by (cases nd) (auto simp: os_remove_def call_unfold split: option.splits fault.splits if_splits)
qed

lemma remove_secret_result:
  assumes ok: "store_ok sm (w_fs w)" and h: "honest w" and n: "comp_ok n"
    and rm: "remove_secret sm n w = (r, w')"
  shows "lookup (w_fs w') (secret_path sm n) =
    (if r = None then None else lookup (w_fs w) (secret_path sm n))"
proof -
  let ?tgt = "join2 (sm_secret_dir sm) n"
  have abs: "is_abs (sm_secret_dir sm)" and fs: "fs_ok (w_fs w)" using ok by (auto simp: store_ok_def)
  note path = secret_target(1)[OF abs n]
  have b: "base n = n" using n by (simp add: base_eq_iff comp_ok_def)
  obtain x w1 where x: "os_remove ?tgt w = (x, w1)" by (cases "os_remove ?tgt w")
  show ?thesis
  proof (cases x)
    case None
    with x rm b have "r = None" "w' = w1" by (auto simp: remove_secret_def)
    then show ?thesis using remove_Some[OF x[unfolded None]] path by simp
  next
    case (Some e)
    note same = remove_fail[OF x[unfolded Some]]
    show ?thesis
    proof (cases "is_not_exist e")
      case True
      then have "lookup (w_fs w) (secret_path sm n) = None"
        using remove_not_exist[OF h _ fs x[unfolded Some] True] ok path by (simp add: store_ok_def)
      then show ?thesis using same x Some rm b True by (auto simp: remove_secret_def)
    next
      case False
      then show ?thesis using same x Some rm b False by (auto simp: remove_secret_def)
    qed
  qed
qed

lemma remove_store:
  assumes ok: "store_ok sm (w_fs w)" and h: "honest w" and n: "good_name n"
    and rm: "remove_secret sm n w = (r, w')"
  shows "store_ok sm (w_fs w')"
    and "store_view sm w' = (if r = None then (store_view sm w)(n := None) else store_view sm w)"
proof -
  have abs: "is_abs (sm_secret_dir sm)" and fs: "fs_ok (w_fs w)" using ok by (auto simp: store_ok_def)
  have cn: "comp_ok n" using n by (simp add: good_name_def simple_name_def)
  have t: "touches (secret_path sm ` {n}) w w'"
    using touch.remove_secret_R[OF rm] secret_target(1)[OF abs cn] by simp
  have fs': "fs_ok (w_fs w')" using observed_now[OF wf.remove_secret_R[OF rm, rule_format, OF fs] fs] .
  have "\<not> is_dir (lookup (w_fs w) (secret_path sm n))"
    using ok by (cases "lookup (w_fs w) (secret_path sm n)") (auto simp: store_ok_def)
  then have "\<not> is_dir (lookup (w_fs w') (secret_path sm n))"
    using calm.remove_secret_R[OF rm] by blast
  then show "store_ok sm (w_fs w')" using n by (intro store_ok_touches[OF ok t fs']) auto
  have "secrets_of sm (w_fs w') m = secrets_of sm (w_fs w) m" if "m \<noteq> n" for m
    using touches_now[OF t, of "secret_path sm m"] that by (auto simp: secrets_of_def)
  then have "secrets_of sm (w_fs w') = (secrets_of sm (w_fs w))(n := secrets_of sm (w_fs w') n)"
    by (auto simp: fun_eq_iff)
  moreover have "secrets_of sm (w_fs w') n = (if r = None then None else secrets_of sm (w_fs w) n)"
    using remove_secret_result[OF ok h cn rm] by (simp add: secrets_of_def)
  ultimately show "store_view sm w' = (if r = None then (store_view sm w)(n := None) else store_view sm w)"
    using n by (simp add: store_view_def restrict_map_def fun_eq_iff)
qed

lemma list_secrets_result:
  assumes ok: "store_ok sm (w_fs w)" and "list_secrets sm w = (Inr ns, w')"
  shows "sorted ns \<and> distinct ns \<and> set ns = dom (store_view sm w) \<and> w_fs w' = w_fs w"
proof -
  have fs: "fs_ok (w_fs w)" using ok by (simp add: store_ok_def)
  obtain es where es: "os_read_dir (sm_secret_dir sm) w = (Inr es, w')"
    and ns: "ns = map fst (filter (\<lambda>(n, d). \<not> d \<and> \<not> has_suffix n ''.tmp'') es)"
    using assms(2) by (auto simp: list_secrets_def split: prod.splits sum.splits)
  note e = read_dir_result[OF fs es]
  have "sorted ns" "distinct ns"
    using e(1,2) by (simp_all add: ns sorted_filter distinct_map_filter)
  moreover have "set ns = dom (store_view sm w)"
  proof -
    have "n \<in> dom (store_view sm w) \<longleftrightarrow>
        (\<exists>d. lookup (w_fs w) (secret_path sm n) = Some d \<and> \<not> is_dir (Some d) \<and> \<not> has_suffix n ''.tmp'')" for n
    proof (cases "lookup (w_fs w) (secret_path sm n)")
      case None
      then show ?thesis by (simp add: store_view_def restrict_map_def secrets_of_def dom_def)
    next
      case (Some d)
      then have "\<not> is_dir (Some d)" "good_name n \<or> has_suffix n ''.tmp''"
        using ok by (auto simp: store_ok_def)
      with Some show ?thesis
        by (cases d) (auto simp: store_view_def restrict_map_def secrets_of_def good_name_def dom_def)
    qed
    moreover have "n \<in> set ns \<longleftrightarrow> (n, False) \<in> set es \<and> \<not> has_suffix n ''.tmp''" for n
      by (force simp: ns)
    ultimately show ?thesis using e(3) by blast
  qed
  ultimately show ?thesis using e(4) by simp
qed

subsection \<open>The store as a map\<close>

definition inject_op ::
  "secret_manager \<Rightarrow> string \<Rightarrow> string \<times> 32 word \<Rightarrow> world \<Rightarrow> bool \<times> world" where
  "inject_op sm n x w =
     (let (r, p', w') = inject sm \<lparr>sp_name = n, sp_value = fst x, sp_mode = snd x\<rparr> w
      in (r = None, w'))"

definition remove_op :: "secret_manager \<Rightarrow> string \<Rightarrow> world \<Rightarrow> bool \<times> world" where
  "remove_op sm n w = (let (r, w') = remove_secret sm n w in (r = None, w'))"

definition store_inv :: "secret_manager \<Rightarrow> world \<Rightarrow> bool" where
  "store_inv sm w \<longleftrightarrow> store_ok sm (w_fs w) \<and> honest w"

lemma env_of_honest: "env_of w' = env_of w \<Longrightarrow> honest w' = honest w"
  unfolding honest_def by (drule env_of_D(8)) simp

lemma inject_op_store:
  assumes "store_inv sm w" and "good_name n"
  shows "store_inv sm (snd (inject_op sm n x w))"
    and "store_view sm (snd (inject_op sm n x w)) =
      (if fst (inject_op sm n x w) then (store_view sm w)(n \<mapsto> fst x) else store_view sm w)"
proof -
  let ?p = "\<lparr>sp_name = n, sp_value = fst x, sp_mode = snd x\<rparr>"
  obtain r p' w' where i: "inject sm ?p w = (r, p', w')" by (cases "inject sm ?p w")
  have "honest w'" using env_of_honest[OF inject_env[OF i]] assms(1) by (simp add: store_inv_def)
  moreover note inject_store[OF _ _ i] inject_store_ok[OF _ _ i]
  ultimately show "store_inv sm (snd (inject_op sm n x w))"
    "store_view sm (snd (inject_op sm n x w)) =
      (if fst (inject_op sm n x w) then (store_view sm w)(n \<mapsto> fst x) else store_view sm w)"
    using assms by (simp_all add: inject_op_def i store_inv_def good_name_def)
qed

lemma remove_op_store:
  assumes "store_inv sm w" and "good_name n"
  shows "store_inv sm (snd (remove_op sm n w))"
    and "store_view sm (snd (remove_op sm n w)) =
      (if fst (remove_op sm n w) then (store_view sm w)(n := None) else store_view sm w)"
proof -
  obtain r w' where i: "remove_secret sm n w = (r, w')" by (cases "remove_secret sm n w")
  have "honest w'"
    using env_of_honest[OF env.remove_secret_R[OF i]] assms(1) by (simp add: store_inv_def)
  moreover note remove_store[OF _ _ _ i]
  ultimately show "store_inv sm (snd (remove_op sm n w))"
    "store_view sm (snd (remove_op sm n w)) =
      (if fst (remove_op sm n w) then (store_view sm w)(n := None) else store_view sm w)"
    using assms by (simp_all add: remove_op_def i store_inv_def)
qed

interpretation secret_store:
  keyed_store "store_inv sm" good_name "store_view sm" fst "inject_op sm" "remove_op sm"
  by unfold_locales (simp_all add: inject_op_store remove_op_store)

text \<open>C1: The secret directory implements a map from names to values. Start from a directory
  that holds nothing but files with proper names and stray temporary files, and run any
  sequence of injections and removals under simple names that do not end in .tmp, with any
  of the file system's calls failing on the way: the secrets a reader then finds are the
  result of applying, in order, the operations that reported success and none of those that
  reported an error, and if List succeeds it returns exactly their names, sorted, each once.\<close>

theorem secrets_refine_map:
  assumes "store_inv sm w" and "list_all (good_name \<circ> op_key) qs"
    and "run_ops (inject_op sm) (remove_op sm) qs w = (bs, w')"
  shows "store_view sm w' = fold (apply_op fst) (zip qs bs) (store_view sm w) \<and>
    store_inv sm w' \<and>
    (case list_secrets sm w' of
       (Inl e, w2) \<Rightarrow> True
     | (Inr ns, w2) \<Rightarrow> sorted ns \<and> distinct ns \<and> set ns = dom (store_view sm w'))"
  using secret_store.ops_refine[OF assms] list_secrets_result[of sm w']
  by (auto simp: store_inv_def split: prod.split sum.split)

subsection \<open>When it succeeds\<close>

lemma store_ok_not_dir: "store_ok sm f \<Longrightarrow> \<not> is_dir (lookup f (secret_path sm n))"
  by (cases "lookup f (secret_path sm n)") (auto simp: store_ok_def)

lemma inject_succeeds:
  assumes quiet: "no_faults w" and ok: "store_ok sm (w_fs w)" and n: "simple_name (sp_name p)"
  shows "fst (inject sm p w) = None"
proof -
  let ?tgt = "join2 (sm_secret_dir sm) (sp_name p)"
  have abs: "is_abs (sm_secret_dir sm)" and fs: "fs_ok (w_fs w)"
    and d: "is_dir (lookup (w_fs w) (resolve (sm_secret_dir sm)))"
    using ok by (auto simp: store_ok_def)
  note path = secret_target[OF abs simple_comp_ok[OF n]]
  obtain x w1 where x: "os_write_file (?tgt @ ''.tmp'') (sp_value p) (secret_mode p) w = (x, w1)"
    by (cases "os_write_file (?tgt @ ''.tmp'') (sp_value p) (secret_mode p) w")
  have x0: "x = None"
    using write_file_ok[OF quiet fs, of "?tgt @ ''.tmp''" "sp_value p" "secret_mode p"]
      store_ok_not_dir[OF ok] d path x by simp
  have q1: "no_faults w1"
    using env_of_no_faults[OF env_write_file[of "?tgt @ ''.tmp''" "sp_value p" "secret_mode p" w]] quiet x by simp
  have f1: "fs_ok (w_fs w1)"
    using observed_now[OF ok_write_file[OF fs, of "?tgt @ ''.tmp''" "sp_value p" "secret_mode p"] fs] x by simp
  have t1: "touches {secret_path sm (sp_name p @ ''.tmp'')} w w1"
    using touches_write_file[of "?tgt @ ''.tmp''" w "sp_value p" "secret_mode p"] x path by simp
  have "fst (os_rename (?tgt @ ''.tmp'') ?tgt w1) = None"
  proof (rule rename_ok[OF q1 f1])
    show "lookup (w_fs w1) (resolve (?tgt @ ''.tmp'')) = Some (File
        (file_meta (lookup (w_fs w) (resolve (?tgt @ ''.tmp''))) (secret_mode p) w) (sp_value p))"
      using write_file_Some[OF x[unfolded x0]] .
    show "is_dir (lookup (w_fs w1) (butlast (resolve ?tgt)))"
      using touches_now[OF t1, of "resolve (sm_secret_dir sm)"] d path by simp
    show "\<not> is_dir (lookup (w_fs w1) (resolve ?tgt))"
      using touches_now[OF t1, of "secret_path sm (sp_name p)"] store_ok_not_dir[OF ok] path by simp
  qed
  then obtain w2 where w2: "os_rename (?tgt @ ''.tmp'') ?tgt w1 = (None, w2)" by (metis fst_conv surj_pair)
  have nm: "sp_name p \<noteq> ''''" "base (sp_name p) = sp_name p" "\<not> contains (sp_name p) ''..''"
    using simple_inject_ok[OF n] by (auto simp: inject_name_ok_def)
  show ?thesis using x x0 w2 by (simp add: inject_def Let_def nm)
qed

lemma default_mode_private: "create_mode 0x180 w AND 0x3F = 0"
proof -
  have "syscall_mode 0x180 = 0x180" by (simp add: syscall_mode_def)
  moreover have "(0x180 AND NOT u) AND 0x3F = (0x180 AND 0x3F) AND NOT u" for u :: "32 word"
    by (simp only: ac_simps)
  ultimately show ?thesis by (simp add: create_mode_def)
qed

text \<open>In a store whose directory is in order and with no failing call, injecting under a
  simple name succeeds and creates the secret with exactly the given value, owned by the
  daemon, with the permission bits asked for less the umask; when the payload asks for no
  mode, no bit of the file is set for the group or for others.\<close>

theorem inject_creates:
  assumes "no_faults w" and "store_ok sm (w_fs w)" and "simple_name (sp_name p)"
    and "lookup (w_fs w) (secret_path sm (sp_name p @ ''.tmp'')) = None"
    and "inject sm p w = (r, p', w')"
  shows "r = None \<and> sp_value p' = '''' \<and>
    (\<exists>a. lookup (w_fs w') (secret_path sm (sp_name p)) = Some (File a (sp_value p)) \<and>
       m_uid a = w_uid w \<and> m_gid a = w_gid w \<and> m_mode a = create_mode (secret_mode p) w \<and>
       (sp_mode p = 0 \<longrightarrow> m_mode a AND 0x3F = 0))"
proof -
  have "r = None" using inject_succeeds[OF assms(1-3)] assms(5) by simp
  moreover have "is_abs (sm_secret_dir sm)" using assms(2) by (simp add: store_ok_def)
  ultimately show ?thesis
    using inject_result[OF _ assms(3,5)] assms(4) default_mode_private
    by (simp add: file_meta_def secret_mode_def)
qed

subsection \<open>Names that are not simple, and what the temporary name collides with\<close>

lemma resolve_special:
  assumes "n = ''.'' \<or> n = ''/''"
  shows "resolve (d @ slash # n) = resolve d"
proof -
  have "split_on slash ''.'' = [''.'']" "split_on slash ''/'' = [[], []]" by simp_all
  moreover have "clean_comps True (cs @ [[], []]) = clean_comps True cs" for cs
    using clean_comps_snoc[of True "cs @ [[]]" "[]"] by (simp add: clean_comps_snoc)
  ultimately show ?thesis
    using assms by (auto simp: resolve_def split_on_append_sep clean_comps_snoc clean_step_def)
qed

lemma special_target:
  assumes "is_abs sd" and "n = ''.'' \<or> n = ''/''"
  shows "join2 sd n = path_string (resolve sd)" and "resolve (join2 sd n) = resolve sd"
    and "resolve sd = d @ [c] \<Longrightarrow> resolve (join2 sd n @ ''.tmp'') = d @ [c @ ''.tmp'']"
proof -
  show j: "join2 sd n = path_string (resolve sd)"
    using assms by (simp add: join2_abs resolve_special)
  then show "resolve (join2 sd n) = resolve sd" by (simp add: resolve_path_string)
  show "resolve (join2 sd n @ ''.tmp'') = d @ [c @ ''.tmp'']" if h: "resolve sd = d @ [c]"
  proof -
    have "comps_ok (d @ [c])" using resolve_ok[of sd] h by simp
    then have "comps_ok (d @ [c @ ''.tmp''])" using comp_ok_tmp by simp
    then show ?thesis by (simp add: j h path_string_snoc_append resolve_path_string)
  qed
qed

text \<open>C34: The check on names lets the root and the dot through, because each is its own base
  name. Injecting under either writes the secret's value to a file next to the secret
  directory, named like it with .tmp appended; then the rename onto the directory fails,
  the file is removed and an error is returned.\<close>

theorem inject_special_name_escapes:
  assumes "no_faults w" and "fs_ok (w_fs w)" and "is_abs (sm_secret_dir sm)"
    and "resolve (sm_secret_dir sm) = d @ [c]" and "is_dir (lookup (w_fs w) (d @ [c]))"
    and "lookup (w_fs w) (d @ [c @ ''.tmp'']) = None"
    and "sp_name p = ''.'' \<or> sp_name p = ''/''"
    and "inject sm p w = (r, p', w')"
  shows "r \<noteq> None \<and> lookup (w_fs w') (d @ [c @ ''.tmp'']) = None \<and>
    (\<exists>f \<in> set (drop (length (w_hist w)) (w_hist w')). \<exists>a.
       lookup f (d @ [c @ ''.tmp'']) = Some (File a (sp_value p)))"
proof -
  let ?tgt = "join2 (sm_secret_dir sm) (sp_name p)" and ?sib = "d @ [c @ ''.tmp'']"
  note path = special_target[OF assms(3,7)] special_target(3)[OF assms(3,7,4)]
  have ok: "inject_name_ok (sp_name p)" using assms(7) by (auto simp: inject_name_ok_iff)
  have dir: "is_dir (lookup (w_fs w) d)" using fs_ok_prefix[OF assms(2), of d "[c]"] assms(5) by (auto simp: is_dir_Some)
  obtain x w1 where x: "os_write_file (?tgt @ ''.tmp'') (sp_value p) (secret_mode p) w = (x, w1)"
    by (cases "os_write_file (?tgt @ ''.tmp'') (sp_value p) (secret_mode p) w")
  have x0: "x = None"
    using write_file_ok[OF assms(1,2), of "?tgt @ ''.tmp''" "sp_value p" "secret_mode p"] assms(6) dir path x
    by simp
  note w1 = write_file_Some[OF x[unfolded x0]]
  have t1: "touches {?sib} w w1"
    using touches_write_file[of "?tgt @ ''.tmp''" w "sp_value p" "secret_mode p"] x path by simp
  have q1: "no_faults w1"
    using env_of_no_faults[OF env_write_file[of "?tgt @ ''.tmp''" "sp_value p" "secret_mode p" w]] assms(1) x
    by simp
  have f1: "fs_ok (w_fs w1)"
    using observed_now[OF ok_write_file[OF assms(2), of "?tgt @ ''.tmp''" "sp_value p" "secret_mode p"] assms(2)]
      x by simp
  have d1: "is_dir (lookup (w_fs w1) (resolve ?tgt))"
    using touches_now[OF t1, of "d @ [c]"] assms(4,5) path by simp
  obtain y w2 where y: "os_rename (?tgt @ ''.tmp'') ?tgt w1 = (y, w2)" by force
  have y0: "y \<noteq> None" using y d1 by (auto simp: os_rename_def call_unfold split: option.splits fault.splits)
  then have same: "w_fs w2 = w_fs w1" "w_hist w2 = w_hist w1" using rename_fail y by blast+
  obtain z w3 where z: "os_remove (?tgt @ ''.tmp'') w2 = (z, w3)" by force
  have "no_faults w2" using env_of_no_faults[OF env_rename[of "?tgt @ ''.tmp''" ?tgt w1]] q1 y by simp
  then have "z = None" using remove_ok[of w2 "?tgt @ ''.tmp''"] f1 same w1 z by simp
  then have gone: "lookup (w_fs w3) ?sib = None" using remove_Some[of "?tgt @ ''.tmp''" w2 w3] z path by simp
  have "w_fs w1 \<noteq> w_fs w" using w1 path assms(6) by auto
  then have vis: "w_fs w1 \<in> set (drop (length (w_hist w)) (w_hist w1))" using observed_visible[OF t1] by blast
  have "prefix (w_hist w1) (w_hist w3)"
    using observed_extends[OF touches_remove[of "?tgt @ ''.tmp''" w2]] z same by simp
  then have vis3: "w_fs w1 \<in> set (drop (length (w_hist w)) (w_hist w3))"
    using vis by (auto simp: prefix_def)
  have "r \<noteq> None \<and> w' = w3"
    by (rule inject_steps[OF ok assms(8)]) (use x x0 y y0 z in auto)
  then show ?thesis using gone vis3 w1 path by auto
qed

text \<open>A secret whose own name ends in .tmp is accepted, but the next injection under the
  name without the ending destroys it without an error.\<close>

theorem inject_destroys_tmp_namesake:
  assumes "is_abs (sm_secret_dir sm)" and "simple_name n" and "simple_name (n @ ''.tmp'')"
    and "inject sm \<lparr>sp_name = n @ ''.tmp'', sp_value = v1, sp_mode = m1\<rparr> w = (None, p1, w1)"
    and "inject sm \<lparr>sp_name = n, sp_value = v2, sp_mode = m2\<rparr> w1 = (None, p2, w2)"
  shows "secrets_of sm (w_fs w1) (n @ ''.tmp'') = Some v1 \<and>
    secrets_of sm (w_fs w2) (n @ ''.tmp'') = None \<and> secrets_of sm (w_fs w2) n = Some v2"
  using inject_result[OF assms(1) _ assms(4)] inject_result[OF assms(1) _ assms(5)] assms(2,3)
  by (simp add: secrets_of_def)

text \<open>When the write fails after the temporary file was opened, the part of the value that
  reached the device stays behind in the temporary file: nothing removes it.\<close>

theorem inject_leaves_partial_secret:
  assumes "fs_ok (w_fs w)" and "store_ok sm (w_fs w)" and "simple_name (sp_name p)"
    and "w_faults w (w_tick w) = None" and "w_faults w (Suc (w_tick w)) = Some (Fault e k)"
    and "inject sm p w = (r, p', w')"
  shows "r \<noteq> None \<and> secrets_of sm (w_fs w') (sp_name p @ ''.tmp'') = Some (take k (sp_value p))"
proof -
  let ?tgt = "join2 (sm_secret_dir sm) (sp_name p)" and ?M = "secret_path sm (sp_name p @ ''.tmp'')"
  have abs: "is_abs (sm_secret_dir sm)" and d: "is_dir (lookup (w_fs w) (resolve (sm_secret_dir sm)))"
    using assms(2) by (auto simp: store_ok_def)
  note path = secret_target[OF abs simple_comp_ok[OF assms(3)]]
  have "walk_error (w_fs w) [] ?M = None" using walk_error_dir[OF assms(1)] d by simp
  moreover have "\<not> is_dir (lookup (w_fs w) ?M)" using store_ok_not_dir[OF assms(2)] .
  moreover obtain x w1 where x: "open_trunc (?tgt @ ''.tmp'') (secret_mode p) w = (x, w1)" by force
  ultimately have w1: "x = None" "w_tick w1 = Suc (w_tick w)" "w_faults w1 = w_faults w"
    using assms(4) by (auto simp: open_trunc_def call_unfold path set_fs_def split: option.splits node.splits)
  note o = x[unfolded w1(1)]
  obtain a where "lookup (w_fs w1) ?M = Some (File a [])" using open_trunc_Some[OF o] path by simp
  then obtain e1 w2 where c: "write_close (?tgt @ ''.tmp'') (sp_value p) w1 = (Some e1, w2)"
    and "lookup (w_fs w2) ?M = Some (File a (take k (sp_value p)))"
    using assms(5) w1
    by (auto simp: write_close_def call_unfold path set_content_def)
  moreover have "r \<noteq> None \<and> w' = w2"
    using inject_steps[OF simple_inject_ok[OF assms(3)] assms(6)] o c
    by (auto simp: os_write_file_def)
  ultimately show ?thesis by (simp add: secrets_of_def)
qed

text \<open>Removing the secret named by a dot removes the secret directory itself once it is
  empty.\<close>

theorem remove_dot_removes_directory:
  assumes "no_faults w" and "fs_ok (w_fs w)" and "is_abs (sm_secret_dir sm)"
    and "resolve (sm_secret_dir sm) \<noteq> []"
    and "lookup (w_fs w) (resolve (sm_secret_dir sm)) = Some (Dir a)"
    and "child_entries (w_fs w) (resolve (sm_secret_dir sm)) = []"
    and "n = ''.'' \<or> n = ''/''"
    and "remove_secret sm n w = (r, w')"
  shows "r = None \<and> lookup (w_fs w') (resolve (sm_secret_dir sm)) = None"
proof -
  have "base n = n" using assms(7) by (auto simp: base_eq_iff)
  then show ?thesis
    using assms(8) fs_ok_walk[OF assms(2,5)] special_target(2)[OF assms(3,7)]
    by (auto simp: remove_secret_def os_remove_def call_no_faults[OF assms(1)] assms(4,5,6))
qed

subsection \<open>The properties at a concrete store\<close>

text \<open>A scratch directory with the secret directory in it, and a payload without a mode.\<close>

definition demo_manager :: secret_manager where
  "demo_manager = new_secret_manager ''/run/s''"

definition demo_dir :: node where
  "demo_dir = Dir \<lparr>m_mode = 0x1ED, m_uid = 0, m_gid = 0\<rparr>"

definition demo_world :: world where
  "demo_world = quiet_world [([], demo_dir), ([''run''], demo_dir), ([''run'', ''s''], demo_dir)]"

definition demo_secret :: "string \<Rightarrow> secret_payload" where
  "demo_secret n = \<lparr>sp_name = n, sp_value = ''hunter2'', sp_mode = 0\<rparr>"

lemma demo_secret_sel [simp]:
  "sp_name (demo_secret n) = n" "sp_value (demo_secret n) = ''hunter2''" "sp_mode (demo_secret n) = 0"
  by (simp_all add: demo_secret_def)

lemma demo_resolve: "resolve (sm_secret_dir demo_manager) = [''run'', ''s'']" "is_abs (sm_secret_dir demo_manager)"
  by code_simp+

lemma demo_fs: "w_fs demo_world = [([], demo_dir), ([''run''], demo_dir), ([''run'', ''s''], demo_dir)]"
  by (simp add: demo_world_def quiet_world_def)

lemma demo_none: "lookup (w_fs demo_world) [''run'', ''s'', n] = None"
  by (simp add: demo_fs lookup_def)

lemma demo_quiet: "no_faults demo_world" "honest demo_world"
  by (simp_all add: demo_world_def quiet_world_def no_faults_def honest_def)

lemma demo_fs_ok: "fs_ok (w_fs demo_world)"
  unfolding demo_fs by code_simp

lemma demo_store_ok: "store_ok demo_manager (w_fs demo_world)"
  using demo_fs_ok by (simp add: store_ok_def demo_resolve demo_none) (simp add: demo_fs lookup_def demo_dir_def)

lemma demo_names:
  "simple_name ''key''" "good_name ''key''" "simple_name ''key.tmp''" "good_name ''gone''"
  by code_simp+

theorem inject_confined_witness:
  "touches {[''run'', ''s'', ''key''], [''run'', ''s'', ''key.tmp'']} demo_world
     (snd (snd (inject demo_manager (demo_secret ''key'') demo_world))) \<and>
   fst (inject demo_manager (demo_secret ''key'') demo_world) = None"
proof -
  obtain r p' w' where i: "inject demo_manager (demo_secret ''key'') demo_world = (r, p', w')"
    by (metis prod_cases3)
  moreover have "r = None"
    using inject_succeeds[OF demo_quiet(1) demo_store_ok, of "demo_secret ''key''"] i demo_names by simp
  ultimately show ?thesis
    using inject_confined[OF demo_resolve(2) _ _ i] demo_names by (simp add: demo_resolve)
qed

theorem inject_atomic_witness:
  "\<exists>a. lookup (w_fs (snd (snd (inject demo_manager (demo_secret ''key'') demo_world)))) [''run'', ''s'', ''key''] =
     Some (File a ''hunter2'')"
proof -
  obtain r p' w' where i: "inject demo_manager (demo_secret ''key'') demo_world = (r, p', w')"
    by (metis prod_cases3)
  moreover have "r = None"
    using inject_succeeds[OF demo_quiet(1) demo_store_ok, of "demo_secret ''key''"] i demo_names by simp
  ultimately show ?thesis
    using inject_atomic[OF demo_resolve(2) _ i refl] demo_names by (simp add: demo_resolve)
qed

theorem secrets_refine_map_witness:
  "store_view demo_manager (snd (run_ops (inject_op demo_manager) (remove_op demo_manager)
      [Put ''key'' (''hunter2'', 0), Drop ''gone''] demo_world)) ''key'' = Some ''hunter2''"
proof -
  let ?qs = "[Put ''key'' (''hunter2'', 0), Drop ''gone'']"
  obtain bs w' where i: "run_ops (inject_op demo_manager) (remove_op demo_manager) ?qs demo_world = (bs, w')"
    by force
  have "fst (inject demo_manager (demo_secret ''key'') demo_world) = None"
    using inject_succeeds[OF demo_quiet(1) demo_store_ok, of "demo_secret ''key''"] demo_names by simp
  then have "hd bs" using i by (auto simp: inject_op_def demo_secret_def split_beta)
  moreover have "store_inv demo_manager demo_world" "list_all (good_name \<circ> op_key) ?qs"
    using demo_store_ok demo_quiet demo_names by (simp_all add: store_inv_def)
  note secrets_refine_map[OF this i]
  moreover obtain b c where "bs = [b, c]" using i by (auto split: prod.splits)
  ultimately have "store_view demo_manager w' ''key'' = Some ''hunter2''" by (cases c) simp_all
  then show ?thesis by (simp only: i snd_conv)
qed

theorem inject_creates_witness:
  "\<exists>a. lookup (w_fs (snd (snd (inject demo_manager (demo_secret ''key'') demo_world)))) [''run'', ''s'', ''key''] =
     Some (File a ''hunter2'') \<and> m_mode a AND 0x3F = 0"
proof -
  obtain r p' w' where i: "inject demo_manager (demo_secret ''key'') demo_world = (r, p', w')"
    by (metis prod_cases3)
  then show ?thesis
    using inject_creates[OF demo_quiet(1) demo_store_ok _ _ i] demo_names
    by (auto simp: demo_resolve demo_none)
qed

theorem inject_special_name_escapes_witness:
  "\<exists>f \<in> set (w_hist (snd (snd (inject demo_manager (demo_secret ''.'') demo_world)))). \<exists>a.
     lookup f [''run'', ''s.tmp''] = Some (File a ''hunter2'')"
proof -
  obtain r p' w' where i: "inject demo_manager (demo_secret ''.'') demo_world = (r, p', w')"
    by (metis prod_cases3)
  have "w_hist demo_world = []" by (simp add: demo_world_def quiet_world_def)
  then show ?thesis
    using inject_special_name_escapes[OF demo_quiet(1) demo_fs_ok demo_resolve(2), of "[''run'']" "''s''" "demo_secret ''.''" r p' w'] i
    by (simp add: demo_resolve demo_fs lookup_def demo_dir_def)
qed

theorem inject_destroys_tmp_namesake_witness:
  "let w1 = snd (snd (inject demo_manager (demo_secret ''key.tmp'') demo_world));
       w2 = snd (snd (inject demo_manager (demo_secret ''key'') w1))
   in secrets_of demo_manager (w_fs w1) ''key.tmp'' = Some ''hunter2'' \<and>
      secrets_of demo_manager (w_fs w2) ''key.tmp'' = None"
proof -
  obtain r p' w1 where i: "inject demo_manager (demo_secret ''key.tmp'') demo_world = (r, p', w1)"
    by (metis prod_cases3)
  obtain r2 p2 w2 where j: "inject demo_manager (demo_secret ''key'') w1 = (r2, p2, w2)"
    by (metis prod_cases3)
  have r: "r = None"
    using inject_succeeds[OF demo_quiet(1) demo_store_ok, of "demo_secret ''key.tmp''"] i demo_names by simp
  have "r2 = None"
    using inject_succeeds[OF _ inject_store_ok[OF demo_store_ok _ i], of "demo_secret ''key''"] demo_quiet j
      env_of_no_faults[OF inject_env[OF i]] demo_names by simp
  then show ?thesis
    using inject_destroys_tmp_namesake[OF demo_resolve(2), of "''key''"] i j r demo_names
    by (simp add: demo_secret_def)
qed

theorem inject_leaves_partial_secret_witness:
  "let w = demo_world\<lparr>w_faults := (\<lambda>n. if n = 1 then Some (Fault ENOSPC 3) else None)\<rparr>
   in secrets_of demo_manager (w_fs (snd (snd (inject demo_manager (demo_secret ''key'') w)))) ''key.tmp'' =
     Some ''hun''"
proof -
  let ?w = "demo_world\<lparr>w_faults := (\<lambda>n. if n = 1 then Some (Fault ENOSPC 3) else None)\<rparr>"
  obtain r p' w' where i: "inject demo_manager (demo_secret ''key'') ?w = (r, p', w')"
    by (metis prod_cases3)
  have t: "w_tick demo_world = 0" by (simp add: demo_world_def quiet_world_def)
  show ?thesis
    using inject_leaves_partial_secret[OF _ _ _ _ _ i, of ENOSPC 3] demo_fs_ok demo_store_ok demo_names i
    by (simp add: t)
qed

theorem remove_dot_removes_directory_witness:
  "lookup (w_fs (snd (remove_secret demo_manager ''.'' demo_world))) [''run'', ''s''] = None"
proof -
  obtain r w' where i: "remove_secret demo_manager ''.'' demo_world = (r, w')" by force
  have "child_entries (w_fs demo_world) [''run'', ''s''] = []"
    unfolding demo_fs by (simp add: child_entries_def)
  then show ?thesis
    using remove_dot_removes_directory[OF demo_quiet(1) demo_fs_ok demo_resolve(2) _ _ _ _ i] i
    by (simp add: demo_resolve demo_fs lookup_def demo_dir_def)
qed

end
