(* ===== verification/SSHKeys.thy ===== *)
theory SSHKeys
  imports GoOSFacts
begin

text \<open>
  The SSH key manager (pkg/sshkeys.go): installs the one public key a user is reached with.
  The user database is the manager's lookup function, as in the code.
\<close>

definition known_key_prefixes :: "string list" where
  "known_key_prefixes =
     [''ssh-ed25519'', ''ssh-rsa'', ''ecdsa-sha2-nistp256'', ''ecdsa-sha2-nistp384'',
      ''ecdsa-sha2-nistp521'', ''sk-ssh-ed25519@openssh.com'',
      ''sk-ecdsa-sha2-nistp256@openssh.com'']"

type_synonym user_lookup = "string \<Rightarrow> world \<Rightarrow> go_error + user_entry"

record ssh_key_manager =
  km_user_lookup :: user_lookup

text \<open>\<open>user.Lookup\<close>: the entry of the system's user database.\<close>

definition os_user_lookup :: user_lookup where
  "os_user_lookup name w =
     (case map_of (w_users w) name of
        Some u \<Rightarrow> Inr u
      | None \<Rightarrow> Inl (ErrMsg (''user: unknown user '' @ name)))"

definition new_ssh_key_manager :: ssh_key_manager where
  "new_ssh_key_manager = \<lparr>km_user_lookup = os_user_lookup\<rparr>"

definition new_ssh_key_manager_with_lookup :: "user_lookup \<Rightarrow> ssh_key_manager" where
  "new_ssh_key_manager_with_lookup f = \<lparr>km_user_lookup = f\<rparr>"

definition is_valid_ssh_public_key :: "string \<Rightarrow> bool" where
  "is_valid_ssh_public_key key \<longleftrightarrow> list_ex (\<lambda>p. has_prefix key (p @ '' '')) known_key_prefixes"

abbreviation newline :: char where
  "newline \<equiv> CHR 0x0A"

definition key_content :: "string \<Rightarrow> string" where
  "key_content key = trim_right_char newline key @ [newline]"

text \<open>The second half of InjectAuthorizedKey: the directory and the file.\<close>

definition install_key :: "string \<Rightarrow> int \<Rightarrow> int \<Rightarrow> string \<Rightarrow> world \<Rightarrow> outcome" where
  "install_key home uid gid key w0 =
     (let ssh_dir = join2 home ''.ssh'' in
      or_fail (os_mkdir_all ssh_dir 0x1C0 w0) (''create '' @ ssh_dir @ '': '') id (\<lambda>w1.
      or_fail (os_chmod ssh_dir 0x1C0 w1) (''chmod '' @ ssh_dir @ '': '') id (\<lambda>w2.
      or_fail (os_chown ssh_dir uid gid w2) (''chown '' @ ssh_dir @ '': '') id (\<lambda>w3.
      (let keys_path = join2 ssh_dir ''authorized_keys'';
           tmp = keys_path @ ''.tmp'';
           remove_tmp = (\<lambda>w. snd (os_remove tmp w))
       in
       or_fail (os_write_file tmp (key_content key) 0x180 w3) (''write '' @ tmp @ '': '') id (\<lambda>w4.
       or_fail (os_chown tmp uid gid w4) (''chown '' @ tmp @ '': '') remove_tmp (\<lambda>w5.
       or_fail (os_rename tmp keys_path w5) (''rename '' @ keys_path @ '': '') remove_tmp (\<lambda>w6.
       (None, w6)))))))))"

definition inject_authorized_key :: "ssh_key_manager \<Rightarrow> ssh_key_payload \<Rightarrow> world \<Rightarrow> outcome" where
  "inject_authorized_key km p w =
     (if kp_user p = '''' then (Some (ErrMsg ''user cannot be empty''), w)
      else if kp_public_key p = '''' then (Some (ErrMsg ''public_key cannot be empty''), w)
      else if \<not> is_valid_ssh_public_key (kp_public_key p) then
        (Some (ErrMsg (''invalid SSH public key format: must start with a recognized key type '' @
           ''(e.g., ssh-ed25519)'')), w)
      else
        (case km_user_lookup km (kp_user p) w of
           Inl e \<Rightarrow> (Some (ErrWrap (''lookup user '' @ go_quote (kp_user p) @ '': '') e), w)
         | Inr u \<Rightarrow>
        (case go_atoi (ue_uid u) of
           Inl e \<Rightarrow> (Some (ErrWrap (''parse uid '' @ go_quote (ue_uid u) @ '': '') e), w)
         | Inr uid \<Rightarrow>
        (case go_atoi (ue_gid u) of
           Inl e \<Rightarrow> (Some (ErrWrap (''parse gid '' @ go_quote (ue_gid u) @ '': '') e), w)
         | Inr gid \<Rightarrow> install_key (ue_home u) uid gid (kp_public_key p) w))))"

subsection \<open>What is accepted\<close>

text \<open>The user entry and ids an accepted request is installed with.\<close>

definition accepted_key :: "ssh_key_manager \<Rightarrow> ssh_key_payload \<Rightarrow> world \<Rightarrow> (string \<times> int \<times> int) option" where
  "accepted_key km p w =
     (if kp_user p = '''' \<or> \<not> is_valid_ssh_public_key (kp_public_key p) then None
      else (case km_user_lookup km (kp_user p) w of
              Inr u \<Rightarrow>
                (case (go_atoi (ue_uid u), go_atoi (ue_gid u)) of
                   (Inr i, Inr j) \<Rightarrow> Some (ue_home u, i, j)
                 | _ \<Rightarrow> None)
            | Inl e \<Rightarrow> None))"

lemma valid_key_nonempty: "is_valid_ssh_public_key k \<Longrightarrow> k \<noteq> ''''"
  by (auto simp: is_valid_ssh_public_key_def has_prefix_def known_key_prefixes_def)

lemma inject_key_accepted:
  "inject_authorized_key km p w =
     (case accepted_key km p w of
        Some (h, i, j) \<Rightarrow> install_key h i j (kp_public_key p) w
      | None \<Rightarrow> (fst (inject_authorized_key km p w), w)) \<and>
   (accepted_key km p w = None \<longrightarrow> fst (inject_authorized_key km p w) \<noteq> None)"
  by (auto simp: inject_authorized_key_def accepted_key_def valid_key_nonempty split: sum.split)

text \<open>The content: the key without its trailing newlines, and one newline.\<close>

lemma key_content_trim:
  "\<exists>t n. key = t @ replicate n newline \<and> key_content key = t @ [newline] \<and> (t = '''' \<or> last t \<noteq> newline)"
  using trim_right_char_decomp[of key newline] trim_right_char_last[of newline key]
  by (auto simp: key_content_def)

subsection \<open>What installing touches\<close>

lemma ssh_paths:
  assumes "is_abs home"
  shows "resolve (join2 home ''.ssh'') = resolve home @ [''.ssh'']"
    and "resolve (join2 (join2 home ''.ssh'') ''authorized_keys'') =
      resolve home @ [''.ssh'', ''authorized_keys'']"
    and "resolve (join2 (join2 home ''.ssh'') ''authorized_keys'' @ ''.tmp'') =
      resolve home @ [''.ssh'', ''authorized_keys.tmp'']"
proof -
  have ok: "comp_ok ''.ssh''" "comp_ok ''authorized_keys''" "comp_ok ''authorized_keys.tmp''"
    by (simp_all add: comp_ok_def)
  show d: "resolve (join2 home ''.ssh'') = resolve home @ [''.ssh'']"
    using assms ok by (simp add: path_simps)
  have a: "is_abs (join2 home ''.ssh'')" using assms ok by (simp add: join2_name)
  show "resolve (join2 (join2 home ''.ssh'') ''authorized_keys'') =
      resolve home @ [''.ssh'', ''authorized_keys'']"
    using resolve_join2_name[OF a ok(2)] d by simp
  have "join2 (join2 home ''.ssh'') ''authorized_keys'' @ ''.tmp'' =
      path_string ((resolve home @ [''.ssh'']) @ [''authorized_keys.tmp''])"
    using path_string_snoc_append[of "resolve home @ [''.ssh'']" "''authorized_keys''" "''.tmp''"]
    by (simp add: join2_name[OF a ok(2)] d)
  then show "resolve (join2 (join2 home ''.ssh'') ''authorized_keys'' @ ''.tmp'') =
      resolve home @ [''.ssh'', ''authorized_keys.tmp'']"
    using ok resolve_ok[of home] resolve_path_string[of "resolve home @ [''.ssh'', ''authorized_keys.tmp'']"]
    by (simp add: comps_ok_def)
qed

abbreviation (input) ssh_touched :: "string \<Rightarrow> path set" where
  "ssh_touched home \<equiv> {q. prefix q (resolve (join2 home ''.ssh''))} \<union>
     {resolve (join2 (join2 home ''.ssh'') ''authorized_keys'' @ ''.tmp'')}"

context call_effects
begin

lemma install_key_R:
  assumes "P = {q. prefix q (resolve (join2 home ''.ssh''))} \<union>
     {resolve (join2 (join2 home ''.ssh'') ''authorized_keys''),
      resolve (join2 (join2 home ''.ssh'') ''authorized_keys'' @ ''.tmp'')}"
  shows "R P w (snd (install_key home i j key w))"
  unfolding install_key_def Let_def
  by (intro R_or_fail R_then R_then_dirs R_refl) (use assms in \<open>auto simp: R_then\<close>)

end

text \<open>An error leaves the file of keys as it was.\<close>

lemma install_key_error:
  assumes "install_key home i j key w = (Some e, w')"
  shows "touches (ssh_touched home) w w'"
proof -
  let ?Q = "\<lambda>(r, w'). r \<noteq> None \<longrightarrow> touches (ssh_touched home) w w'"
  have last: "?Q (or_fail (os_rename p q u) m (\<lambda>w. snd (os_remove p w)) (\<lambda>w. (None, w)))"
    if "touches (ssh_touched home) w u" "resolve p \<in> ssh_touched home" for p q u m
  proof (rule or_fail_post[where Q = ?Q])
    fix e v
    assume "os_rename p q u = (Some e, v)"
    then have "touches (ssh_touched home) w v"
      using that(1) rename_fail[of p q u e v] by (auto simp: observed_def)
    then show "?Q (Some (ErrWrap m e), snd (os_remove p v))"
      using touch.R_then(3)[OF _ that(2)] by simp
  qed simp
  have "?Q (install_key home i j key w)"
    unfolding install_key_def Let_def
    by (intro or_fail_inv[where I = "touches (ssh_touched home) w" and Q = ?Q] touch.R_then
        touch.R_then_dirs last)
      (auto intro: touch.R_then(3))
  with assms show ?thesis by simp
qed

text \<open>The directory a successful first half leaves.\<close>

lemma ssh_dir_ready:
  assumes "os_mkdir_all d 0x1C0 w = (None, w1)" and "os_chmod d 0x1C0 w1 = (None, w2)"
    and "os_chown d i j w2 = (None, w3)" and "fs_ok (w_fs w)"
  shows "touches {q. prefix q (resolve d)} w w3" and "env_of w3 = env_of w"
    and "\<exists>m. lookup (w_fs w3) (resolve d) = Some (Dir m) \<and> owned i j m \<and> m_mode m = 0x1C0"
proof -
  have "touches {q. prefix q (resolve d)} w
      (snd (os_chown d i j (snd (os_chmod d 0x1C0 (snd (os_mkdir_all d 0x1C0 w))))))"
    by (intro touch.R_then touch.R_then_dirs touch.R_refl) auto
  then show "touches {q. prefix q (resolve d)} w w3" using assms by simp
  have "env_of (snd (os_chown d i j (snd (os_chmod d 0x1C0 (snd (os_mkdir_all d 0x1C0 w)))))) = env_of w"
    by (simp add: world_frame)
  then show "env_of w3 = env_of w" using assms by simp
  have "is_dir (lookup (w_fs w1) (resolve d))" using mkdir_all_Some[OF assms(1,4)] .
  then obtain a where "lookup (w_fs w1) (resolve d) = Some (Dir a)" by (auto simp: is_dir_Some)
  then obtain b where "lookup (w_fs w2) (resolve d) = Some (Dir b)" "m_mode b = syscall_mode 0x1C0"
    using chmod_mode[OF assms(2)] by auto
  moreover have "syscall_mode 0x1C0 = 0x1C0" by (simp add: syscall_mode_def)
  ultimately show "\<exists>m. lookup (w_fs w3) (resolve d) = Some (Dir m) \<and> owned i j m \<and> m_mode m = 0x1C0"
    using chown_owned[OF assms(3)] by auto
qed


text \<open>A successful run, up to the rename.\<close>

lemma install_key_success:
  assumes home: "is_abs home" and fs: "fs_ok (w_fs w)"
    and run: "install_key home i j key w = (None, w')"
  obtains u md m where "touches (ssh_touched home) w u"
    and "lookup (w_fs u) (resolve home @ [''.ssh'']) = Some (Dir md)" "owned i j md" "m_mode md = 0x1C0"
    and "lookup (w_fs u) (resolve home @ [''.ssh'', ''authorized_keys.tmp'']) = Some (File m (key_content key))"
    and "owned i j m"
    and "m_mode m = m_mode (file_meta
      (lookup (w_fs w) (resolve home @ [''.ssh'', ''authorized_keys.tmp''])) 0x180 w)"
    and "os_rename (join2 (join2 home ''.ssh'') ''authorized_keys'' @ ''.tmp'')
         (join2 (join2 home ''.ssh'') ''authorized_keys'') u = (None, w')"
proof -
  let ?d = "join2 home ''.ssh''"
  let ?k = "join2 ?d ''authorized_keys''"
  let ?t = "?k @ ''.tmp''"
  note path = ssh_paths[OF home]
  from run obtain w1 w2 w3 w4 u where c:
    "os_mkdir_all ?d 0x1C0 w = (None, w1)" "os_chmod ?d 0x1C0 w1 = (None, w2)"
    "os_chown ?d i j w2 = (None, w3)" "os_write_file ?t (key_content key) 0x180 w3 = (None, w4)"
    "os_chown ?t i j w4 = (None, u)" "os_rename ?t ?k u = (None, w')"
    unfolding install_key_def Let_def or_fail_None by blast
  note ready = ssh_dir_ready[OF c(1,2,3) fs]
  obtain md where md: "lookup (w_fs w3) (resolve ?d) = Some (Dir md)" "owned i j md" "m_mode md = 0x1C0"
    using ready(3) by blast
  have "touches {resolve ?t} w3 (snd (os_chown ?t i j (snd (os_write_file ?t (key_content key) 0x180 w3))))"
    by (intro touch.R_then touch.R_refl) auto
  then have tu: "touches {resolve ?t} w3 u" using c(4,5) by simp
  have t: "touches (ssh_touched home) w u"
    by (rule touch.R_trans[OF touch.R_mono[OF ready(1)] touch.R_mono[OF tu]]) auto
  have dir: "lookup (w_fs u) (resolve home @ [''.ssh'']) = Some (Dir md)"
    using touches_now[OF tu, of "resolve ?d"] md(1) path by simp
  have old: "lookup (w_fs w3) (resolve ?t) = lookup (w_fs w) (resolve ?t)"
    using touches_now[OF ready(1), of "resolve ?t"] path by simp
  note file4 = write_file_Some[OF c(4), unfolded old]
  have mode: "file_meta n k w3 = file_meta n k w" for n k
    using env_of_D[OF ready(2)] by (simp add: file_meta_def create_mode_def split: option.split node.split)
  obtain m where "lookup (w_fs u) (resolve ?t) = Some (File m (key_content key))" "owned i j m"
    "m_mode m = m_mode (file_meta (lookup (w_fs w) (resolve ?t)) 0x180 w)"
    using chown_owned[OF c(5)] file4 mode by auto
  then show thesis using that[OF t dir md(2,3)] c(6) path by simp
qed

lemma install_key_result:
  assumes home: "is_abs home" and fs: "fs_ok (w_fs w)"
    and run: "install_key home i j key w = (r, w')"
    and keys: "keys = resolve home @ [''.ssh'', ''authorized_keys'']"
  shows "observed (\<lambda>f. lookup f keys = lookup (w_fs w) keys \<or>
      (\<exists>m. owned i j m \<and> lookup f keys = Some (File m (key_content key)))) w w'"
    and "r \<noteq> None \<Longrightarrow> lookup (w_fs w') keys = lookup (w_fs w) keys"
    and "r = None \<Longrightarrow>
      (\<exists>m. lookup (w_fs w') keys = Some (File m (key_content key)) \<and> owned i j m \<and>
         m_mode m = m_mode (file_meta
           (lookup (w_fs w) (resolve home @ [''.ssh'', ''authorized_keys.tmp''])) 0x180 w)) \<and>
      (\<exists>m. lookup (w_fs w') (resolve home @ [''.ssh'']) = Some (Dir m) \<and> owned i j m \<and> m_mode m = 0x1C0) \<and>
      lookup (w_fs w') (resolve home @ [''.ssh'', ''authorized_keys.tmp'']) = None"
proof -
  let ?Q = "\<lambda>f. lookup f keys = lookup (w_fs w) keys \<or>
      (\<exists>m. owned i j m \<and> lookup f keys = Some (File m (key_content key)))"
  note path = ssh_paths[OF home]
  have off: "keys \<notin> ssh_touched home" using path keys by (auto simp: prefix_def)
  have "observed ?Q w w' \<and> (r \<noteq> None \<longrightarrow> lookup (w_fs w') keys = lookup (w_fs w) keys) \<and>
    (r = None \<longrightarrow>
      (\<exists>m. lookup (w_fs w') keys = Some (File m (key_content key)) \<and> owned i j m \<and>
         m_mode m = m_mode (file_meta
           (lookup (w_fs w) (resolve home @ [''.ssh'', ''authorized_keys.tmp''])) 0x180 w)) \<and>
      (\<exists>m. lookup (w_fs w') (resolve home @ [''.ssh'']) = Some (Dir m) \<and> owned i j m \<and> m_mode m = 0x1C0) \<and>
      lookup (w_fs w') (resolve home @ [''.ssh'', ''authorized_keys.tmp'']) = None)"
  proof (cases r)
    case (Some e)
    note t = install_key_error[OF run[unfolded Some]]
    show ?thesis
      using observed_mono[OF touches_observed[OF t off]] touches_now[OF t off] Some by simp
  next
    case None
    from run[unfolded None] show ?thesis
    proof (rule install_key_success[OF home fs])
      fix u md m
      assume t: "touches (ssh_touched home) w u"
        and dir: "lookup (w_fs u) (resolve home @ [''.ssh'']) = Some (Dir md)" "owned i j md" "m_mode md = 0x1C0"
        and tmp: "lookup (w_fs u) (resolve home @ [''.ssh'', ''authorized_keys.tmp'']) = Some (File m (key_content key))"
          "owned i j m" "m_mode m = m_mode (file_meta
            (lookup (w_fs w) (resolve home @ [''.ssh'', ''authorized_keys.tmp''])) 0x180 w)"
        and mv: "os_rename (join2 (join2 home ''.ssh'') ''authorized_keys'' @ ''.tmp'')
          (join2 (join2 home ''.ssh'') ''authorized_keys'') u = (None, w')"
      have neq: "resolve (join2 (join2 home ''.ssh'') ''authorized_keys'' @ ''.tmp'') \<noteq>
          resolve (join2 (join2 home ''.ssh'') ''authorized_keys'')" by (simp add: path)
      note rn = rename_Some[OF mv neq, unfolded path, folded keys]
      have k: "lookup (w_fs w') keys = Some (File m (key_content key))"
        and gone: "lookup (w_fs w') (resolve home @ [''.ssh'', ''authorized_keys.tmp'']) = None"
        using rn(1,2) tmp(1) by simp_all
      have "?Q (w_fs w')" using k tmp(2) by blast
      then have "observed ?Q u w'" using rn(3) by (auto simp: observed_def)
      moreover have "observed ?Q w u"
        by (rule observed_mono[OF touches_observed[OF t off]]) blast
      ultimately have obs: "observed ?Q w w'" by (blast intro: observed_trans)
      have dir': "lookup (w_fs w') (resolve home @ [''.ssh'']) = Some (Dir md)"
        using touches_now[OF touches_rename[of "join2 (join2 home ''.ssh'') ''authorized_keys'' @ ''.tmp''"
            "join2 (join2 home ''.ssh'') ''authorized_keys''" u], of "resolve home @ [''.ssh'']"] mv dir path
        by simp
      show ?thesis using None obs k gone dir' dir(2,3) tmp(2,3) by blast
    qed
  qed
  then show "observed ?Q w w'" "r \<noteq> None \<Longrightarrow> lookup (w_fs w') keys = lookup (w_fs w) keys"
    "r = None \<Longrightarrow>
      (\<exists>m. lookup (w_fs w') keys = Some (File m (key_content key)) \<and> owned i j m \<and>
         m_mode m = m_mode (file_meta
           (lookup (w_fs w) (resolve home @ [''.ssh'', ''authorized_keys.tmp''])) 0x180 w)) \<and>
      (\<exists>m. lookup (w_fs w') (resolve home @ [''.ssh'']) = Some (Dir m) \<and> owned i j m \<and> m_mode m = 0x1C0) \<and>
      lookup (w_fs w') (resolve home @ [''.ssh'', ''authorized_keys.tmp'']) = None"
    by blast+
qed


subsection \<open>When it succeeds\<close>

lemma quiet_ok_step:
  assumes "no_faults u" and "fs_ok (w_fs u)" and "env_of u' = env_of u" and "observed fs_ok u u'"
  shows "no_faults u'" and "fs_ok (w_fs u')"
  using assms env_of_no_faults[OF assms(3)] observed_now[of fs_ok u u'] by simp_all

lemma ssh_dir_made:
  assumes quiet: "no_faults w" and fs: "fs_ok (w_fs w)" and home: "is_abs home"
    and way: "\<And>q a t. prefix q (resolve home @ [''.ssh'']) \<Longrightarrow> lookup (w_fs w) q \<noteq> Some (File a t)"
  obtains w1 w2 w3 a where "os_mkdir_all (join2 home ''.ssh'') 0x1C0 w = (None, w1)"
    "os_chmod (join2 home ''.ssh'') 0x1C0 w1 = (None, w2)" "os_chown (join2 home ''.ssh'') i j w2 = (None, w3)"
    "no_faults w3" "fs_ok (w_fs w3)" "touches {q. prefix q (resolve home @ [''.ssh''])} w w3"
    "lookup (w_fs w3) (resolve home @ [''.ssh'']) = Some (Dir a)"
proof -
  let ?d = "join2 home ''.ssh''" and ?D = "resolve home @ [''.ssh'']"
  note path = ssh_paths[OF home]
  obtain r1 w1 where c1: "os_mkdir_all ?d 0x1C0 w = (r1, w1)" by force
  have r1: "r1 = None" using mkdir_all_ok[OF quiet, of ?d "0x1C0"] way path c1 by simp
  note w1 = quiet_ok_step[OF quiet fs env_mkdir_all ok_mkdir_all[OF fs], of ?d "0x1C0", unfolded c1 snd_conv]
  obtain a1 where a1: "lookup (w_fs w1) ?D = Some (Dir a1)"
    using mkdir_all_Some[OF c1[unfolded r1] fs] path by (auto simp: is_dir_Some)
  obtain r2 w2 where c2: "os_chmod ?d 0x1C0 w1 = (r2, w2)" by force
  have r2: "r2 = None" using chmod_ok[of w1 ?d "Dir a1" "0x1C0"] w1 a1 path c2 by simp
  note w2 = quiet_ok_step[OF w1 env_chmod ok_chmod[OF w1(2)], of ?d "0x1C0", unfolded c2 snd_conv]
  obtain a2 where a2: "lookup (w_fs w2) ?D = Some (Dir a2)"
    using chmod_mode[OF c2[unfolded r2]] a1 path by auto
  obtain r3 w3 where c3: "os_chown ?d i j w2 = (r3, w3)" by force
  have r3: "r3 = None" using chown_ok[of w2 ?d "Dir a2" i j] w2 a2 path c3 by simp
  note w3 = quiet_ok_step[OF w2 env_chown ok_chown[OF w2(2)], of ?d i j, unfolded c3 snd_conv]
  obtain a3 where a3: "lookup (w_fs w3) ?D = Some (Dir a3)"
    using chown_owned[OF c3[unfolded r3]] a2 path by auto
  have "touches {q. prefix q ?D} w w1"
    using touch.R_then_dirs[OF touch.R_refl order_refl, of ?d w "0x1C0"] c1 path by simp
  moreover have "touches {q. prefix q ?D} w1 w2"
    using touches_mono[OF touches_chmod[of ?d w1 "0x1C0"], of "{q. prefix q ?D}"] c2 path by simp
  moreover have "touches {q. prefix q ?D} w2 w3"
    using touches_mono[OF touches_chown[of ?d w2 i j], of "{q. prefix q ?D}"] c3 path by simp
  ultimately have "touches {q. prefix q ?D} w w3" by (blast intro: touches_trans)
  then show thesis by (rule that[OF c1[unfolded r1] c2[unfolded r2] c3[unfolded r3] w3 _ a3])
qed

lemma install_key_ok:
  assumes quiet: "no_faults w" and fs: "fs_ok (w_fs w)" and home: "is_abs home"
    and way: "\<And>q a t. prefix q (resolve home @ [''.ssh'']) \<Longrightarrow> lookup (w_fs w) q \<noteq> Some (File a t)"
    and keys: "\<not> is_dir (lookup (w_fs w) (resolve home @ [''.ssh'', ''authorized_keys'']))"
    and tmp: "\<not> is_dir (lookup (w_fs w) (resolve home @ [''.ssh'', ''authorized_keys.tmp'']))"
  shows "fst (install_key home i j key w) = None"
proof -
  let ?k = "join2 (join2 home ''.ssh'') ''authorized_keys''" and ?D = "resolve home @ [''.ssh'']"
  let ?t = "?k @ ''.tmp''"
  note path = ssh_paths[OF home]
  obtain w1 w2 w3 a3 where d: "os_mkdir_all (join2 home ''.ssh'') 0x1C0 w = (None, w1)"
      "os_chmod (join2 home ''.ssh'') 0x1C0 w1 = (None, w2)" "os_chown (join2 home ''.ssh'') i j w2 = (None, w3)"
    and w3: "no_faults w3" "fs_ok (w_fs w3)" and t3: "touches {q. prefix q ?D} w w3"
    and a3: "lookup (w_fs w3) ?D = Some (Dir a3)"
    by (rule ssh_dir_made[OF quiet fs home way])
  note off = touches_now[OF t3]
  obtain r4 w4 where c4: "os_write_file ?t (key_content key) 0x180 w3 = (r4, w4)" by force
  have r4: "r4 = None"
    using write_file_ok[of w3 ?t "key_content key" "0x180"] w3 a3 path c4 tmp
      off[of "resolve home @ [''.ssh'', ''authorized_keys.tmp'']"] by (simp add: butlast_append)
  note w4 = quiet_ok_step[OF w3 env_write_file ok_write_file[OF w3(2)],
      of ?t "key_content key" "0x180", unfolded c4 snd_conv]
  obtain a4 where a4: "lookup (w_fs w4) (resolve ?t) = Some (File a4 (key_content key))"
    using write_file_Some[OF c4[unfolded r4]] by blast
  obtain r5 w5 where c5: "os_chown ?t i j w4 = (r5, w5)" by force
  have r5: "r5 = None" using chown_ok[of w4 ?t _ i j] w4 a4 c5 by simp
  note w5 = quiet_ok_step[OF w4 env_chown ok_chown[OF w4(2)], of ?t i j, unfolded c5 snd_conv]
  have "touches {resolve ?t} w3 w5"
    using touches_trans[OF touches_write_file[of ?t w3 "key_content key" "0x180"] touches_chown[of ?t _ i j]] c4 c5
    by simp
  note off5 = touches_now[OF this]
  obtain a5 where a5: "lookup (w_fs w5) (resolve ?t) = Some (File a5 (key_content key))"
    using chown_owned[OF c5[unfolded r5]] a4 by auto
  have "fst (os_rename ?t ?k w5) = None"
    by (rule rename_ok[OF w5 a5])
      (use off5[of ?D] off5[of "resolve ?k"] off[of "resolve ?k"] a3 keys path in \<open>simp_all add: butlast_append\<close>)
  then show ?thesis using d c4 c5 r4 r5 by (simp add: install_key_def Let_def or_fail_ok)
qed

subsection \<open>The manager\<close>

text \<open>A key is accepted exactly when it has a space and the word before its first space is
  one of the seven known key types.\<close>

theorem valid_ssh_key_iff:
  "is_valid_ssh_public_key key \<longleftrightarrow>
     CHR '' '' \<in> set key \<and> takeWhile (\<lambda>c. c \<noteq> CHR '' '') key \<in> set known_key_prefixes"
proof -
  have nosp: "CHR '' '' \<notin> set p" if "p \<in> set known_key_prefixes" for p
    using that by (auto simp: known_key_prefixes_def)
  have "has_prefix key (p @ '' '') \<longleftrightarrow> CHR '' '' \<in> set key \<and> takeWhile (\<lambda>c. c \<noteq> CHR '' '') key = p"
    if h: "CHR '' '' \<notin> set p" for p
  proof
    assume "has_prefix key (p @ '' '')"
    then obtain t where "key = p @ CHR '' '' # t" by (auto simp: has_prefix_def prefix_def)
    then show "CHR '' '' \<in> set key \<and> takeWhile (\<lambda>c. c \<noteq> CHR '' '') key = p"
      using h by (simp add: takeWhile_append2 takeWhile_neq_id takeWhile_tail)
  next
    assume k: "CHR '' '' \<in> set key \<and> takeWhile (\<lambda>c. c \<noteq> CHR '' '') key = p"
    then obtain c t where d: "dropWhile (\<lambda>c. c \<noteq> CHR '' '') key = c # t"
      by (cases "dropWhile (\<lambda>c. c \<noteq> CHR '' '') key") auto
    then have "c = CHR '' ''" using hd_dropWhile[of "\<lambda>c. c \<noteq> CHR '' ''" key] by simp
    then have "key = p @ CHR '' '' # t"
      using takeWhile_dropWhile_id[of "\<lambda>c. c \<noteq> CHR '' ''" key] k d by simp
    then show "has_prefix key (p @ '' '')" by (simp add: has_prefix_def)
  qed
  then show ?thesis using nosp by (auto simp: is_valid_ssh_public_key_def list_ex_iff)
qed

text \<open>C18: InjectAuthorizedKey, under every pattern of failing calls. A request with a missing
  field, a malformed key, an unknown user or unusable ids is refused and changes nothing.
  For an accepted one, every file system that becomes visible has as the user's
  authorized_keys either the old file or a complete new one that belongs to the user; an
  error leaves the old one; success installs the key, ended by exactly one newline, in a
  directory of mode 0700 that belongs to the user, and leaves no temporary file.\<close>

theorem inject_authorized_key_effect:
  assumes "fs_ok (w_fs w)" and "inject_authorized_key km p w = (r, w')"
    and "\<And>home i j. accepted_key km p w = Some (home, i, j) \<Longrightarrow> is_abs home"
  shows "case accepted_key km p w of
      None \<Rightarrow> r \<noteq> None \<and> w' = w
    | Some (home, i, j) \<Rightarrow>
        (let dir = resolve home @ [''.ssh'']; keys = dir @ [''authorized_keys''] in
         observed (\<lambda>f. lookup f keys = lookup (w_fs w) keys \<or>
           (\<exists>m. owned i j m \<and> lookup f keys = Some (File m (key_content (kp_public_key p))))) w w' \<and>
         (if r = None then
            (\<exists>m. lookup (w_fs w') keys = Some (File m (key_content (kp_public_key p))) \<and> owned i j m) \<and>
            (\<exists>m. lookup (w_fs w') dir = Some (Dir m) \<and> owned i j m \<and> m_mode m = 0x1C0) \<and>
            lookup (w_fs w') (dir @ [''authorized_keys.tmp'']) = None
          else lookup (w_fs w') keys = lookup (w_fs w) keys))"
proof (cases "accepted_key km p w")
  case None
  then show ?thesis using inject_key_accepted[of km p w] assms(2) by simp
next
  case (Some a)
  obtain home i j where a: "a = (home, i, j)" by (cases a)
  with Some have home: "is_abs home" using assms(3) by blast
  have run: "install_key home i j (kp_public_key p) w = (r, w')"
    using inject_key_accepted[of km p w] assms(2) Some a by simp
  note res = install_key_result[OF home assms(1) run refl]
  show ?thesis
  proof (cases r)
    case None
    with res(1) res(3)[OF None] Some a show ?thesis by (simp add: Let_def) blast
  next
    case (Some e)
    with res(1,2) \<open>accepted_key km p w = Some a\<close> a show ?thesis by (simp add: Let_def)
  qed
qed

text \<open>With no failing call, nothing but directories on the way to the user's .ssh and no
  directory where the two files go, an accepted key is installed; the file has mode 0600
  less the umask if no temporary file was left there by an earlier attempt, and otherwise
  the mode of that file.\<close>

theorem inject_authorized_key_succeeds:
  assumes "no_faults w" and "fs_ok (w_fs w)" and "accepted_key km p w = Some (home, i, j)"
    and "is_abs home" and "dir = resolve home @ [''.ssh'']"
    and "\<And>q a t. prefix q dir \<Longrightarrow> lookup (w_fs w) q \<noteq> Some (File a t)"
    and "\<not> is_dir (lookup (w_fs w) (dir @ [''authorized_keys'']))"
    and "\<not> is_dir (lookup (w_fs w) (dir @ [''authorized_keys.tmp'']))"
    and "inject_authorized_key km p w = (r, w')"
  shows "r = None \<and> (\<exists>m. lookup (w_fs w') (dir @ [''authorized_keys'']) =
      Some (File m (key_content (kp_public_key p))) \<and> owned i j m \<and>
      m_mode m = (case lookup (w_fs w) (dir @ [''authorized_keys.tmp'']) of
        Some (File b t) \<Rightarrow> m_mode b | _ \<Rightarrow> create_mode 0x180 w))"
proof -
  have run: "install_key home i j (kp_public_key p) w = (r, w')"
    using inject_key_accepted[of km p w] assms(3,9) by simp
  have "r = None"
    using install_key_ok[OF assms(1,2,4), of i j "kp_public_key p"] assms(5-8) run by simp
  moreover have "m_mode (file_meta n k w) =
      (case n of Some (File b t) \<Rightarrow> m_mode b | _ \<Rightarrow> create_mode k w)" for n k
    by (simp add: file_meta_def split: option.split node.split)
  ultimately show ?thesis
    using install_key_result(3)[OF assms(4,2) run refl] assms(5) by auto
qed


subsection \<open>The properties at a concrete world\<close>

definition ssh_world :: world where
  "ssh_world =
     (quiet_world (map (\<lambda>p. (p, Dir \<lparr>m_mode = 0x1ED, m_uid = 0, m_gid = 0\<rparr>))
        [[], [''home''], [''home'', ''agent'']]))
       \<lparr>w_users := [(''agent'', \<lparr>ue_uid = ''1000'', ue_gid = ''100'', ue_home = ''/home/agent''\<rparr>)]\<rparr>"

definition agent_key :: ssh_key_payload where
  "agent_key = \<lparr>kp_user = ''agent'', kp_public_key = ''ssh-ed25519 AAAA'' @ [newline, newline]\<rparr>"

lemma ssh_world_facts:
  "no_faults ssh_world" "fs_ok (w_fs ssh_world)" "is_abs ''/home/agent''"
  "accepted_key new_ssh_key_manager agent_key ssh_world = Some (''/home/agent'', 1000, 100)"
  "resolve ''/home/agent'' = [''home'', ''agent'']"
  "key_content (kp_public_key agent_key) = ''ssh-ed25519 AAAA'' @ [newline]"
  "create_mode 0x180 ssh_world = 0x180"
  by (simp add: no_faults_def ssh_world_def quiet_world_def, code_simp+)

lemma ssh_world_lookup:
  "lookup (w_fs ssh_world) q = (if q \<in> {[], [''home''], [''home'', ''agent'']}
     then Some (Dir \<lparr>m_mode = 0x1ED, m_uid = 0, m_gid = 0\<rparr>) else None)"
  by (simp add: ssh_world_def quiet_world_def lookup_def)

theorem inject_authorized_key_effect_witness:
  "\<exists>m. lookup (w_fs (snd (inject_authorized_key new_ssh_key_manager agent_key ssh_world)))
       [''home'', ''agent'', ''.ssh'', ''authorized_keys''] =
     Some (File m (''ssh-ed25519 AAAA'' @ [newline])) \<and> m_uid m = 1000"
proof -
  obtain r w' where i: "inject_authorized_key new_ssh_key_manager agent_key ssh_world = (r, w')" by force
  have "fst (inject_authorized_key new_ssh_key_manager agent_key ssh_world) = None" by code_simp
  then show ?thesis
    using inject_authorized_key_effect[OF ssh_world_facts(2) i] ssh_world_facts i
    by (auto simp: owned_def Let_def split: if_splits)
qed

theorem inject_authorized_key_succeeds_witness:
  "\<exists>m. lookup (w_fs (snd (inject_authorized_key new_ssh_key_manager agent_key ssh_world)))
       [''home'', ''agent'', ''.ssh'', ''authorized_keys''] =
     Some (File m (''ssh-ed25519 AAAA'' @ [newline])) \<and> m_uid m = 1000 \<and> m_mode m = 0x180"
proof -
  obtain r w' where i: "inject_authorized_key new_ssh_key_manager agent_key ssh_world = (r, w')" by force
  have nofile: "lookup (w_fs ssh_world) q \<noteq> Some (File a t)" for q a t by (simp add: ssh_world_lookup)
  show ?thesis
    using inject_authorized_key_succeeds[OF ssh_world_facts(1,2,4,3) refl nofile _ _ i] i
    by (auto simp: ssh_world_lookup ssh_world_facts owned_def)
qed

end
