(* ===== verification/Commander.thy ===== *)
theory Commander
  imports GoOSFacts
begin

text \<open>
  The interface \<open>Commander\<close> of pkg/mounts.go: how the program runs system commands. The
  locale states what its clients rely on: a run records the command with its arguments,
  after everything that ran before. The real implementation runs the command in the
  world; the test suite's records it and fails on chosen names.
\<close>

type_synonym commander = "string \<Rightarrow> string list \<Rightarrow> world \<Rightarrow> outcome"

locale command_runner =
  fixes run :: commander
  assumes run_trace: "w_trace (snd (run name args w)) = w_trace w @ [Cmd (name # args)]"
begin

lemma run_cmds: "cmds (snd (run name args w)) = cmds w @ [name # args]"
  by (simp add: cmds_def run_trace)

lemma run_cmds_eq: "run name args w = (r, w') \<Longrightarrow> cmds w' = cmds w @ [name # args]"
  using run_cmds[of name args w] by simp

text \<open>A sequence of commands whose failures are ignored runs every one of them, in order.\<close>

fun run_each :: "(string \<times> string list) list \<Rightarrow> world \<Rightarrow> world" where
  "run_each [] w = w"
| "run_each ((n, as) # cs) w = run_each cs (snd (run n as w))"

lemma run_each_trace: "w_trace (run_each cs w) = w_trace w @ map (\<lambda>(n, as). Cmd (n # as)) cs"
  by (induction cs w rule: run_each.induct) (simp_all add: run_trace)

lemma run_each_cmds: "cmds (run_each cs w) = cmds w @ map (\<lambda>(n, as). n # as) cs"
  by (induction cs w rule: run_each.induct) (simp_all add: run_cmds)

end

subsection \<open>The two implementations\<close>

lemma cmds_emit_Cmd [simp]: "cmds (emit (Cmd c) w) = cmds w @ [c]"
  by (simp add: cmds_def emit_def)

lemma exec_run_trace: "w_trace (snd (exec_run name args w)) = w_trace w @ [Cmd (name # args)]"
  by (simp add: exec_run_def call_unfold emit_def split: option.split fault.split)

interpretation exec_cmd: command_runner exec_run
  by unfold_locales (rule exec_run_trace)

text \<open>The commander of the test suite: \<open>fail_on\<close> maps a command name to its error.\<close>

definition mock_run :: "(string \<times> go_error) list \<Rightarrow> commander" where
  "mock_run fail_on name args w = (map_of fail_on name, emit (Cmd (name # args)) w)"

interpretation mock_cmd: command_runner "mock_run fail_on"
  by unfold_locales (simp add: mock_run_def emit_def)

text \<open>Running a command leaves the files alone.\<close>

lemma exec_run_fs [simp]:
  "w_fs (snd (exec_run n as w)) = w_fs w" "w_hist (snd (exec_run n as w)) = w_hist w"
  by (simp_all add: exec_run_def call_unfold emit_def split: option.split fault.split)

end
