(* ===== verification/Mounts.thy ===== *)
theory Mounts
  imports Commander
begin

text \<open>
  The mount manager (pkg/mounts.go): the shared directories that are mounted, in the order
  they were mounted, and the commander that mounts and unmounts them.
\<close>

record mount_manager =
  mm_mounts :: "mount_payload list"
  mm_commander :: commander

definition new_mount_manager :: "commander option \<Rightarrow> mount_manager" where
  "new_mount_manager c =
     \<lparr>mm_mounts = [], mm_commander = (case c of None \<Rightarrow> exec_run | Some run \<Rightarrow> run)\<rparr>"

subsection \<open>Mount\<close>

definition system_dirs :: "string list" where
  "system_dirs =
     [''/'', ''/nix'', ''/etc'', ''/bin'', ''/boot'', ''/dev'', ''/proc'', ''/sys'', ''/run'']"

definition blocked_by :: "string \<Rightarrow> string \<Rightarrow> bool" where
  "blocked_by p b \<longleftrightarrow> p = b \<or> has_prefix p (b @ ''/'')"

text \<open>The checks before anything is done; \<open>None\<close> when the payload passes them all.\<close>

definition mount_check :: "mount_payload \<Rightarrow> go_error option" where
  "mount_check m =
     (if mp_tag m = '''' then Some (ErrMsg ''mount tag cannot be empty'')
      else if mp_guest_path m = '''' then Some (ErrMsg ''mount guest_path cannot be empty'')
      else if mp_fs_type m = '''' then Some (ErrMsg ''mount fs_type cannot be empty'')
      else if mp_fs_type m \<noteq> ''virtiofs'' \<and> mp_fs_type m \<noteq> ''9p'' then
        Some (ErrMsg (''unsupported filesystem type: '' @ go_quote (mp_fs_type m) @
          '' (must be virtiofs or 9p)''))
      else
        (let gp = clean (mp_guest_path m) in
         if \<not> is_abs gp then
           Some (ErrMsg (''guest_path must be absolute: '' @ go_quote (mp_guest_path m)))
         else if list_ex (blocked_by gp) system_dirs then
           Some (ErrMsg (''cannot mount over system directory: '' @ go_quote gp))
         else None))"

definition mount_opts :: "mount_payload \<Rightarrow> string list" where
  "mount_opts m =
     (if mp_fs_type m = ''9p'' then [''trans=virtio,version=9p2000.L''] else []) @
     (if mp_read_only m then [''ro''] else [])"

definition mount_args :: "mount_payload \<Rightarrow> string \<Rightarrow> string list" where
  "mount_args m gp =
     [''-t'', mp_fs_type m] @
     (if length (mount_opts m) > 0 then [''-o'', join_with '','' (mount_opts m)] else []) @
     [mp_tag m, gp]"

definition mount ::
  "mount_manager \<Rightarrow> mount_payload \<Rightarrow> world \<Rightarrow> go_error option \<times> mount_manager \<times> world" where
  "mount mm m w =
     (case mount_check m of
        Some e \<Rightarrow> (Some e, mm, w)
      | None \<Rightarrow>
          (let gp = clean (mp_guest_path m) in
           case os_mkdir_all gp 0x1ED w of
             (Some e, w1) \<Rightarrow>
               (Some (ErrWrap (''create mount point '' @ go_quote gp @ '': '') e), mm, w1)
           | (None, w1) \<Rightarrow>
          (case mm_commander mm ''mount'' (mount_args m gp) w1 of
             (Some e, w2) \<Rightarrow>
               (Some (ErrWrap (''mount '' @ mp_tag m @ '' at '' @ gp @ '': '') e), mm, w2)
           | (None, w2) \<Rightarrow>
               (let (ignored, w3) = mm_commander mm ''chown'' [''agent:agent'', gp] w2
                in (None, mm\<lparr>mm_mounts := mm_mounts mm @ [m]\<rparr>, w3)))))"

subsection \<open>UnmountAll and ActiveMounts\<close>

fun umount_loop :: "commander \<Rightarrow> mount_payload list \<Rightarrow> world \<Rightarrow> world" where
  "umount_loop run [] w = w"
| "umount_loop run (m # ms) w =
     (let (ignored, w') = run ''umount'' [clean (mp_guest_path m)] w in umount_loop run ms w')"

definition unmount_all :: "mount_manager \<Rightarrow> world \<Rightarrow> mount_manager \<times> world" where
  "unmount_all mm w =
     (mm\<lparr>mm_mounts := []\<rparr>, umount_loop (mm_commander mm) (rev (mm_mounts mm)) w)"

definition active_mounts :: "mount_manager \<Rightarrow> mount_payload list" where
  "active_mounts mm = mm_mounts mm"

subsection \<open>Which payloads pass\<close>

text \<open>
  The guard on paths, stated over the components of the path instead of its text.
\<close>

definition system_names :: "string list" where
  "system_names = [''nix'', ''etc'', ''bin'', ''boot'', ''dev'', ''proc'', ''sys'', ''run'']"

definition guest_path_ok :: "string \<Rightarrow> bool" where
  "guest_path_ok p \<longleftrightarrow>
     is_abs p \<and> (case resolve p of [] \<Rightarrow> False | c # cs \<Rightarrow> c \<notin> set system_names)"

definition mount_valid :: "mount_payload \<Rightarrow> bool" where
  "mount_valid m \<longleftrightarrow>
     mp_tag m \<noteq> '''' \<and> (mp_fs_type m = ''virtiofs'' \<or> mp_fs_type m = ''9p'') \<and>
     guest_path_ok (mp_guest_path m)"

lemma join_slash_prefix:
  assumes "slash \<notin> set c" and "slash \<notin> set n"
  shows "c = n \<and> cs = [] \<or> prefix (n @ ''/'') (join_with ''/'' (c # cs)) \<longleftrightarrow> c = n"
proof -
  have pre: "prefix (n @ ''/'') (c @ r) \<longleftrightarrow> c = n" if h: "r \<noteq> []" "hd r = slash" for r
  proof -
    obtain r' where r: "r = slash # r'" using h by (cases r) auto
    show ?thesis
      unfolding r using assms
    proof (induction c arbitrary: n)
      case Nil
      then show ?case by (cases n) auto
    next
      case (Cons a c)
      then show ?case by (cases n) auto
    qed
  qed
  show ?thesis
  proof (cases cs)
    case Nil
    have "\<not> prefix (n @ ''/'') c" using assms by (auto simp: prefix_def)
    with Nil show ?thesis by auto
  next
    case (Cons d ds)
    then show ?thesis using pre[of "''/'' @ join_with ''/'' cs"] by simp
  qed
qed

lemma blocked_by_name:
  assumes "comps_ok (c # cs)" and "slash \<notin> set n"
  shows "blocked_by (path_string (c # cs)) (''/'' @ n) \<longleftrightarrow> c = n"
proof -
  have c: "slash \<notin> set c" using assms by (simp add: comps_ok_def comp_ok_def)
  have eq: "join_with ''/'' (c # cs) = n \<longleftrightarrow> c = n \<and> cs = []"
  proof
    assume h: "join_with ''/'' (c # cs) = n"
    then have "cs = []" using assms(2) by (cases cs) auto
    with h show "c = n \<and> cs = []" by simp
  qed auto
  show ?thesis
    using join_slash_prefix[OF c assms(2), of cs] eq
    by (simp add: blocked_by_def has_prefix_def path_string_def)
qed

lemma blocked_by_root:
  assumes "comps_ok cs"
  shows "blocked_by (path_string cs) ''/'' \<longleftrightarrow> cs = []"
proof (cases cs)
  case Nil
  then show ?thesis by (simp add: blocked_by_def path_string_def)
next
  case (Cons c ds)
  then obtain x xs where "c = x # xs" "x \<noteq> slash"
    using assms by (cases c) (auto simp: comps_ok_def comp_ok_def)
  with Cons show ?thesis
    by (cases ds) (auto simp: blocked_by_def path_string_def has_prefix_def)
qed

lemma blocked_iff:
  assumes "comps_ok cs"
  shows "list_ex (blocked_by (path_string cs)) system_dirs \<longleftrightarrow>
    (case cs of [] \<Rightarrow> True | c # ds \<Rightarrow> c \<in> set system_names)"
proof (cases cs)
  case Nil
  then show ?thesis by (simp add: system_dirs_def blocked_by_def path_string_def)
next
  case (Cons c ds)
  have n: "blocked_by (path_string cs) (''/'' @ n) \<longleftrightarrow> c = n" if "slash \<notin> set n" for n
    using blocked_by_name[of c ds n] assms that Cons by simp
  show ?thesis
    using n[of "''nix''"] n[of "''etc''"] n[of "''bin''"] n[of "''boot''"] n[of "''dev''"] n[of "''proc''"]
      n[of "''sys''"] n[of "''run''"] blocked_by_root[OF assms] Cons
    by (simp add: system_dirs_def system_names_def)
qed

lemma mount_check_valid: "mount_check m = None \<longleftrightarrow> mount_valid m"
proof -
  have "is_abs p \<Longrightarrow> list_ex (blocked_by (clean p)) system_dirs \<longleftrightarrow> \<not> guest_path_ok p" for p
    by (simp add: clean_abs blocked_iff guest_path_ok_def split: list.split)
  then show ?thesis
    by (auto simp: mount_check_def mount_valid_def guest_path_ok_def Let_def is_abs_nonempty)
qed

text \<open>C22: The checks of Mount accept exactly the payloads with a tag, one of the two file
  system types, and an absolute guest path that, once its dots are resolved, is neither the
  root nor at or below one of the eight system directories. The comparison of the cleaned
  text against each directory, and against it with a slash appended, decides this: a name
  that only starts like a system directory passes.\<close>

theorem mount_check_iff: "mount_check m = None \<longleftrightarrow> mount_valid m"
  by (rule mount_check_valid)

subsection \<open>What Mount and UnmountAll do\<close>

definition umount_cmds :: "mount_payload list \<Rightarrow> string list list" where
  "umount_cmds ms = map (\<lambda>m. [''umount'', clean (mp_guest_path m)]) ms"

context command_runner
begin

lemma umount_loop_run_each:
  "umount_loop run ms w = run_each (map (\<lambda>m. (''umount'', [clean (mp_guest_path m)])) ms) w"
  by (induction ms arbitrary: w) (simp_all add: Let_def split_beta)

lemma umount_loop_trace: "w_trace (umount_loop run ms w) = w_trace w @ map Cmd (umount_cmds ms)"
  by (simp add: umount_loop_run_each run_each_trace umount_cmds_def)

lemma umount_loop_cmds: "cmds (umount_loop run ms w) = cmds w @ umount_cmds ms"
  by (simp add: umount_loop_run_each run_each_cmds umount_cmds_def)

lemma mount_cmds:
  assumes "mm_commander mm = run" and "mount mm m w = (r, mm', w')"
  shows "cmds w' = cmds w @
    (if r = None then [''mount'' # mount_args m (clean (mp_guest_path m)),
                       [''chown'', ''agent:agent'', clean (mp_guest_path m)]]
     else if cmds w' = cmds w then [] else [''mount'' # mount_args m (clean (mp_guest_path m))])"
proof (cases "mount_check m")
  case (Some e)
  with assms(2) have "r = Some e \<and> w' = w" by (auto simp: mount_def)
  then show ?thesis by simp
next
  case None
  obtain a w1 where a: "os_mkdir_all (clean (mp_guest_path m)) 0x1ED w = (a, w1)"
    by (cases "os_mkdir_all (clean (mp_guest_path m)) 0x1ED w")
  have w1: "cmds w1 = cmds w"
    using env_of_cmds[OF env_mkdir_all[of "clean (mp_guest_path m)" "0x1ED" w]] a by simp
  obtain b w2 where b: "run ''mount'' (mount_args m (clean (mp_guest_path m))) w1 = (b, w2)"
    by (cases "run ''mount'' (mount_args m (clean (mp_guest_path m))) w1")
  obtain c w3 where c: "run ''chown'' [''agent:agent'', clean (mp_guest_path m)] w2 = (c, w3)"
    by (cases "run ''chown'' [''agent:agent'', clean (mp_guest_path m)] w2")
  note run_cmds_eq[OF b] run_cmds_eq[OF c]
  with assms(2) a b c w1 show ?thesis
    by (cases a; cases b) (auto simp: mount_def Let_def None assms(1))
qed

end

lemma mount_result:
  "mount mm m w = (r, mm', w') \<Longrightarrow>
   mm' = (if r = None then mm\<lparr>mm_mounts := mm_mounts mm @ [m]\<rparr> else mm) \<and>
   (r = None \<longrightarrow> mount_valid m) \<and> (\<not> mount_valid m \<longrightarrow> w' = w)"
  by (auto simp: mount_def Let_def mount_check_valid[symmetric] split: option.splits prod.splits)

text \<open>One call of Mount, for any commander that records what it runs. On success the
  payload passed the checks, the commands run are the mount itself and then the change of
  ownership to the agent user, whose failure is ignored, and the payload is appended to the
  tracked mounts. On an error nothing is tracked, and at most the mount command was run; a
  payload that fails the checks changes nothing at all.\<close>

theorem mount_effect:
  assumes "command_runner (mm_commander mm)" and "mount mm m w = (r, mm', w')"
  shows "(if r = None then
       mount_valid m \<and> mm_mounts mm' = mm_mounts mm @ [m] \<and>
       cmds w' = cmds w @ [''mount'' # mount_args m (clean (mp_guest_path m)),
                           [''chown'', ''agent:agent'', clean (mp_guest_path m)]]
     else mm' = mm \<and>
       (cmds w' = cmds w \<or> cmds w' = cmds w @ [''mount'' # mount_args m (clean (mp_guest_path m))])) \<and>
     (mount_valid m \<or> w' = w)"
  using mount_result[OF assms(2)] command_runner.mount_cmds[OF assms(1) refl assms(2)]
  by (auto split: if_splits)

lemma unmount_all_cmds:
  assumes "command_runner (mm_commander mm)"
  shows "cmds (snd (unmount_all mm w)) = cmds w @ umount_cmds (rev (mm_mounts mm))"
  by (simp add: unmount_all_def command_runner.umount_loop_cmds[OF assms])

subsection \<open>Sequences of mounts\<close>

text \<open>Several calls of Mount, one after the other; the results in order.\<close>

fun mount_seq ::
  "mount_manager \<Rightarrow> mount_payload list \<Rightarrow> world \<Rightarrow> go_error option list \<times> mount_manager \<times> world" where
  "mount_seq mm [] w = ([], mm, w)"
| "mount_seq mm (m # ms) w =
     (let (r, mm1, w1) = mount mm m w; (rs, mm2, w2) = mount_seq mm1 ms w1 in (r # rs, mm2, w2))"

lemma mount_seq_tracks:
  "mount_seq mm ms w = (rs, mm', w') \<Longrightarrow>
   mm_mounts mm' = mm_mounts mm @ map fst (filter (\<lambda>(m, r). r = None) (zip ms rs)) \<and>
   mm_commander mm' = mm_commander mm \<and> length rs = length ms"
proof (induction ms arbitrary: mm w rs mm' w')
  case Nil
  then show ?case by simp
next
  case (Cons m ms)
  obtain r mm1 w1 where m: "mount mm m w = (r, mm1, w1)" by (cases "mount mm m w")
  obtain rs' mm2 w2 where s: "mount_seq mm1 ms w1 = (rs', mm2, w2)" by (cases "mount_seq mm1 ms w1")
  from Cons.prems m s have eq: "rs = r # rs'" "mm' = mm2" by auto
  show ?case
    using mount_result[OF m] Cons.IH[OF s] by (auto simp: eq split: if_splits)
qed

text \<open>C13: The mount manager is a stack of the mounts that succeeded. After any sequence of
  mounts on a new manager, whatever fails, the tracked mounts are exactly the payloads whose
  Mount returned no error, in order and all of them valid, and UnmountAll then unmounts
  exactly these, last mounted first.\<close>

theorem mount_manager_is_stack:
  assumes "command_runner (mm_commander mm)" and "mm_mounts mm = []"
    and "mount_seq mm ms w = (rs, mm', w')"
    and "done_ms = map fst (filter (\<lambda>(m, r). r = None) (zip ms rs))"
  shows "active_mounts mm' = done_ms \<and> list_all mount_valid done_ms \<and>
    cmds (snd (unmount_all mm' w')) = cmds w' @ umount_cmds (rev done_ms)"
proof -
  have valid: "list_all mount_valid (mm_mounts mm')"
    if "mount_seq mm ms w = (rs, mm', w')" "list_all mount_valid (mm_mounts mm)" for mm ms w rs mm' w'
    using that
  proof (induction ms arbitrary: mm w rs mm' w')
    case Nil
    then show ?case by simp
  next
    case (Cons m ms)
    obtain r mm1 w1 where m: "mount mm m w = (r, mm1, w1)" by (cases "mount mm m w")
    obtain rs' mm2 w2 where s: "mount_seq mm1 ms w1 = (rs', mm2, w2)" by (cases "mount_seq mm1 ms w1")
    have "list_all mount_valid (mm_mounts mm1)"
      using mount_result[OF m] Cons.prems(2) by auto
    from Cons.IH[OF s this] Cons.prems(1) m s show ?case by simp
  qed
  have t: "mm_mounts mm' = done_ms" "mm_commander mm' = mm_commander mm"
    using mount_seq_tracks[OF assms(3)] assms(2,4) by simp_all
  then show ?thesis
    using unmount_all_cmds[of mm' w'] valid[OF assms(3)] assms(1,2)
    by (simp add: active_mounts_def)
qed

text \<open>UnmountAll runs one umount per tracked mount, at its cleaned path, in the reverse
  of the order in which they were mounted, whether or not a umount fails, and tracks nothing
  afterwards: a second UnmountAll runs nothing.\<close>

theorem unmount_all_lifo:
  assumes "command_runner (mm_commander mm)" and "unmount_all mm w = (mm', w')"
  shows "cmds w' = cmds w @ umount_cmds (rev (mm_mounts mm)) \<and>
    active_mounts mm' = [] \<and> unmount_all mm' w' = (mm', w')"
  using unmount_all_cmds[OF assms(1), of w] assms(2)
  by (auto simp: unmount_all_def active_mounts_def)

subsection \<open>The properties at a concrete world\<close>

text \<open>
  An empty root directory; chown fails, as it does where there is no agent user, and so do
  the umounts.
\<close>

definition mount_world :: world where
  "mount_world = quiet_world [([], Dir \<lparr>m_mode = 0x1ED, m_uid = 0, m_gid = 0\<rparr>)]"

definition failing_manager :: mount_manager where
  "failing_manager = new_mount_manager
     (Some (mock_run [(''chown'', ErrMsg ''invalid user''), (''umount'', ErrMsg ''target is busy'')]))"

definition code_share :: mount_payload where
  "code_share = \<lparr>mp_tag = ''code'', mp_guest_path = ''/workspace/./code'', mp_fs_type = ''virtiofs'',
     mp_read_only = True\<rparr>"

definition nix_share :: mount_payload where
  "nix_share = \<lparr>mp_tag = ''store'', mp_guest_path = ''/data/../nix/store'', mp_fs_type = ''9p'',
     mp_read_only = False\<rparr>"

lemma failing_runner: "command_runner (mm_commander failing_manager)"
  by (simp add: failing_manager_def new_mount_manager_def mock_cmd.command_runner_axioms)

theorem mount_effect_witness:
  "mm_mounts (fst (snd (mount failing_manager code_share mount_world))) = [code_share] \<and>
   cmds (snd (snd (mount failing_manager code_share mount_world))) =
     [[''mount'', ''-t'', ''virtiofs'', ''-o'', ''ro'', ''code'', ''/workspace/code''],
      [''chown'', ''agent:agent'', ''/workspace/code'']]"
proof -
  obtain r mm' w' where m: "mount failing_manager code_share mount_world = (r, mm', w')"
    by (metis prod_cases3)
  moreover have "fst (mount failing_manager code_share mount_world) = None"
    by code_simp
  moreover have "clean (mp_guest_path code_share) = ''/workspace/code''"
    "mount_args code_share ''/workspace/code'' =
      [''-t'', ''virtiofs'', ''-o'', ''ro'', ''code'', ''/workspace/code'']"
    "cmds mount_world = []" "mm_mounts failing_manager = []"
    by code_simp+
  ultimately show ?thesis using mount_effect[OF failing_runner m] by simp
qed

theorem unmount_all_lifo_witness:
  "cmds (snd (unmount_all (failing_manager\<lparr>mm_mounts := [code_share, nix_share]\<rparr>) mount_world)) =
     [[''umount'', ''/nix/store''], [''umount'', ''/workspace/code'']]"
proof -
  let ?mm = "failing_manager\<lparr>mm_mounts := [code_share, nix_share]\<rparr>"
  obtain mm' w' where m: "unmount_all ?mm mount_world = (mm', w')" by force
  have r: "command_runner (mm_commander ?mm)" using failing_runner by simp
  have "cmds mount_world = []" "umount_cmds [nix_share, code_share] =
      [[''umount'', ''/nix/store''], [''umount'', ''/workspace/code'']]"
    by code_simp+
  then show ?thesis using unmount_all_lifo[OF r m] m by simp
qed

theorem mount_manager_is_stack_witness:
  "let (rs, mm', w') = mount_seq failing_manager [code_share, nix_share] mount_world
   in active_mounts mm' = [code_share] \<and>
      cmds (snd (unmount_all mm' w')) = cmds w' @ [[''umount'', ''/workspace/code'']]"
proof -
  obtain rs mm' w' where m: "mount_seq failing_manager [code_share, nix_share] mount_world = (rs, mm', w')"
    by (metis prod_cases3)
  have "map (\<lambda>r. r = None) (fst (mount_seq failing_manager [code_share, nix_share] mount_world)) =
      [True, False]"
    by code_simp
  then have rs: "map fst (filter (\<lambda>(m, r). r = None) (zip [code_share, nix_share] rs)) = [code_share]"
    using m by (auto simp: map_eq_Cons_conv)
  have e: "mm_mounts failing_manager = []" "umount_cmds [code_share] = [[''umount'', ''/workspace/code'']]"
    by code_simp+
  show ?thesis
    using mount_manager_is_stack[OF failing_runner e(1) m rs[symmetric]] e(2) m by simp
qed

end
