(* ===== verification/Shutdown.thy ===== *)
theory Shutdown
  imports Lifecycle Mounts
begin

text \<open>
  The shutdown coordinator (pkg/shutdown.go): unmounts the shared directories, syncs, and
  powers the machine off with the strategy it was made with. It shares the mount manager
  and the lifecycle manager with the daemon, so they are passed through.
\<close>

definition poweroff_systemctl :: string where
  "poweroff_systemctl = ''systemctl''"

definition poweroff_signal_init :: string where
  "poweroff_signal_init = ''signal-init''"

type_synonym killer = "world \<Rightarrow> outcome"
type_synonym poweroff_func = "commander \<Rightarrow> killer \<Rightarrow> world \<Rightarrow> outcome"

definition systemctl_poweroff :: poweroff_func where
  "systemctl_poweroff c kill w = c ''systemctl'' [''poweroff''] w"

text \<open>SIGTERM is 15.\<close>

definition kill_pid1 :: killer where
  "kill_pid1 w = sys_kill 1 15 w"

definition signal_init_poweroff :: poweroff_func where
  "signal_init_poweroff c kill w = kill w"

definition validate_poweroff_mode :: "string \<Rightarrow> go_error option" where
  "validate_poweroff_mode mode =
     (if mode = '''' \<or> mode = poweroff_systemctl \<or> mode = poweroff_signal_init then None
      else Some (ErrMsg (''unknown poweroff mode '' @ go_quote mode @ '' (valid: '' @
        go_quote poweroff_systemctl @ '', '' @ go_quote poweroff_signal_init @ '')'')))"

definition poweroff_for :: "string \<Rightarrow> poweroff_func" where
  "poweroff_for mode =
     (if mode = '''' \<or> mode = poweroff_systemctl then systemctl_poweroff
      else if mode = poweroff_signal_init then signal_init_poweroff
      else (\<lambda>c kill w. (validate_poweroff_mode mode, w)))"

record shutdown_coordinator =
  sc_commander :: commander
  sc_poweroff :: poweroff_func
  sc_kill_pid1 :: killer

definition new_shutdown_coordinator_with_killer ::
  "commander option \<Rightarrow> string \<Rightarrow> killer option \<Rightarrow> shutdown_coordinator" where
  "new_shutdown_coordinator_with_killer c mode kill =
     \<lparr>sc_commander = (case c of None \<Rightarrow> exec_run | Some run \<Rightarrow> run),
      sc_poweroff = poweroff_for mode,
      sc_kill_pid1 = (case kill of
          None \<Rightarrow> (\<lambda>w. (Some (ErrMsg ''kill PID 1 function is not configured''), w))
        | Some k \<Rightarrow> k)\<rparr>"

definition new_shutdown_coordinator :: "commander option \<Rightarrow> string \<Rightarrow> shutdown_coordinator" where
  "new_shutdown_coordinator c mode = new_shutdown_coordinator_with_killer c mode (Some kill_pid1)"

definition shutdown_reason :: "shutdown_payload option \<Rightarrow> string" where
  "shutdown_reason p =
     (case p of
        None \<Rightarrow> ''host requested shutdown''
      | Some q \<Rightarrow> if sd_reason q \<noteq> '''' then sd_reason q else ''host requested shutdown'')"

definition execute ::
  "shutdown_coordinator \<Rightarrow> shutdown_payload option \<Rightarrow> mount_manager \<Rightarrow> lifecycle_manager \<Rightarrow> world \<Rightarrow>
   go_error option \<times> mount_manager \<times> lifecycle_manager \<times> world" where
  "execute sc p mm lm w =
     (let (lm1, w1) = transition state_shutdown (shutdown_reason p) lm w;
          (mm1, w2) = unmount_all mm w1;
          (ignored, w3) = sc_commander sc ''sync'' [] w2;
          (r, w4) = sc_poweroff sc (sc_commander sc) (sc_kill_pid1 sc) w3
      in ((case r of None \<Rightarrow> None | Some e \<Rightarrow> Some (ErrWrap ''shutdown: poweroff: '' e)),
          mm1, lm1, w4))"

subsection \<open>The power-off step\<close>

text \<open>What the last step adds to the trace, by mode.\<close>

definition poweroff_events :: "string \<Rightarrow> event list" where
  "poweroff_events mode =
     (if mode = '''' \<or> mode = poweroff_systemctl then [Cmd [''systemctl'', ''poweroff'']]
      else if mode = poweroff_signal_init then [Signal 1 15] else [])"

lemma kill_pid1_trace: "w_trace (snd (kill_pid1 w)) = w_trace w @ [Signal 1 15]"
  by (simp add: kill_pid1_def sys_kill_def call_unfold emit_def split: option.split fault.split)

lemma poweroff_trace:
  assumes "command_runner c"
  shows "w_trace (snd (poweroff_for mode c kill_pid1 w)) = w_trace w @ poweroff_events mode"
  by (simp add: poweroff_for_def poweroff_events_def systemctl_poweroff_def signal_init_poweroff_def
      kill_pid1_trace command_runner.run_trace[OF assms])

text \<open>C33: A mode is valid exactly when its strategy does something: for the three accepted
  modes, the empty one included, validation returns no error and the strategy runs systemctl
  poweroff or sends SIGTERM to process 1, never both; for any other mode it does nothing to
  the world and returns the error that validation returns.\<close>

theorem poweroff_for_validated:
  assumes "command_runner c"
  shows "w_trace (snd (poweroff_for mode c kill_pid1 w)) = w_trace w @ poweroff_events mode \<and>
    (validate_poweroff_mode mode = None \<longleftrightarrow> poweroff_events mode \<noteq> []) \<and>
    (validate_poweroff_mode mode \<noteq> None \<longrightarrow>
       poweroff_for mode c kill_pid1 w = (validate_poweroff_mode mode, w))"
  using poweroff_trace[OF assms]
  by (auto simp: poweroff_events_def validate_poweroff_mode_def poweroff_for_def)

theorem poweroff_for_validated_witness:
  "w_trace (snd (poweroff_for ''signal-init'' (mock_run []) kill_pid1 (quiet_world []))) = [Signal 1 15] \<and>
   fst (poweroff_for ''halt'' (mock_run []) kill_pid1 (quiet_world [])) \<noteq> None"
  using poweroff_for_validated[OF mock_cmd.command_runner_axioms, of "''signal-init''" "[]" "quiet_world []"]
    poweroff_for_validated[OF mock_cmd.command_runner_axioms, of "''halt''" "[]" "quiet_world []"]
  by (simp add: poweroff_events_def poweroff_systemctl_def poweroff_signal_init_def
      validate_poweroff_mode_def quiet_world_def)

subsection \<open>Execute\<close>

text \<open>C15: Execute, for any commander that records what it runs and with any of the steps
  failing: the state becomes shutdown with the reason given, or the default one; then the
  shared directories are unmounted, last mounted first, the file systems are synced, and the
  power-off step runs, in this order and nothing else. Failing umounts and a failing sync do
  not stop it, the mounts are forgotten, and the result is an error exactly when the
  power-off step returned one.\<close>

theorem execute_sequence:
  assumes "command_runner c" and "mm_commander mm = c"
    and "sc = new_shutdown_coordinator (Some c) mode"
    and "execute sc p mm lm w = (r, mm', lm', w')"
  shows "lm_state lm' = state_shutdown \<and> lm_message lm' = shutdown_reason p \<and> active_mounts mm' = [] \<and>
    w_trace w' = w_trace (snd (transition state_shutdown (shutdown_reason p) lm w)) @
      map Cmd (umount_cmds (rev (mm_mounts mm))) @ [Cmd [''sync'']] @ poweroff_events mode \<and>
    (\<exists>u. w' = snd (poweroff_for mode c kill_pid1 u) \<and>
      (r \<noteq> None \<longleftrightarrow> fst (poweroff_for mode c kill_pid1 u) \<noteq> None))"
proof -
  let ?t = "transition state_shutdown (shutdown_reason p) lm w"
  let ?w2 = "umount_loop c (rev (mm_mounts mm)) (snd ?t)"
  let ?w3 = "snd (c ''sync'' [] ?w2)"
  have sc: "sc_commander sc = c" "sc_poweroff sc = poweroff_for mode" "sc_kill_pid1 sc = kill_pid1"
    by (simp_all add: assms(3) new_shutdown_coordinator_def new_shutdown_coordinator_with_killer_def)
  have e: "lm' = fst ?t" "mm' = mm\<lparr>mm_mounts := []\<rparr>" "w' = snd (poweroff_for mode c kill_pid1 ?w3)"
    "r = None \<longleftrightarrow> fst (poweroff_for mode c kill_pid1 ?w3) = None"
    using assms(2,4) by (auto simp: execute_def sc unmount_all_def split_beta Let_def split: option.splits)
  have "w_trace ?w3 = w_trace (snd ?t) @ map Cmd (umount_cmds (rev (mm_mounts mm))) @ [Cmd [''sync'']]"
    by (simp add: command_runner.run_trace[OF assms(1)] command_runner.umount_loop_trace[OF assms(1)])
  then have "w_trace w' = w_trace (snd ?t) @ map Cmd (umount_cmds (rev (mm_mounts mm))) @ [Cmd [''sync'']] @
      poweroff_events mode"
    by (simp add: e(3) poweroff_trace[OF assms(1)])
  then show ?thesis using e by (auto simp: active_mounts_def)
qed

text \<open>
  Two shares are mounted, the umounts fail, and the power-off mode is the empty one.
\<close>

theorem execute_sequence_witness:
  "let mm = failing_manager\<lparr>mm_mounts := [code_share, nix_share]\<rparr>;
       sc = new_shutdown_coordinator (Some (mm_commander failing_manager)) '''';
       (r, mm', lm', w') = execute sc None mm (new_lifecycle_manager mount_world) mount_world
   in lm_message lm' = ''host requested shutdown'' \<and>
      w_trace w' = [Cmd [''umount'', ''/nix/store''], Cmd [''umount'', ''/workspace/code''], Cmd [''sync''],
        Cmd [''systemctl'', ''poweroff'']]"
proof -
  let ?mm = "failing_manager\<lparr>mm_mounts := [code_share, nix_share]\<rparr>"
  let ?sc = "new_shutdown_coordinator (Some (mm_commander failing_manager)) ''''"
  obtain r mm' lm' w' where e: "execute ?sc None ?mm (new_lifecycle_manager mount_world) mount_world = (r, mm', lm', w')"
    by (metis prod_cases4)
  have mm: "mm_commander ?mm = mm_commander failing_manager" by simp
  have "umount_cmds [nix_share, code_share] = [[''umount'', ''/nix/store''], [''umount'', ''/workspace/code'']]"
    by code_simp
  moreover have "w_trace mount_world = []" by (simp add: mount_world_def quiet_world_def)
  moreover have "lm_send (new_lifecycle_manager mount_world) = None" by (simp add: new_lifecycle_manager_def)
  ultimately show ?thesis
    using execute_sequence[OF failing_runner mm refl e] e
    by (simp add: poweroff_events_def shutdown_reason_def)
qed

end
