(* ===== verification/Dirs.thy ===== *)
theory Dirs
  imports GoOSFacts
begin

text \<open>
  The runtime directories (pkg/dirs.go) and the paths and names the daemon is built with
  (the constants of pkg/stereosd.go).
\<close>

definition secret_dir_path :: string where
  "secret_dir_path = ''/run/stereos/secrets''"

definition config_dir_path :: string where
  "config_dir_path = ''/etc/stereos''"

definition config_path :: string where
  "config_path = ''/etc/stereos/jcard.toml''"

definition socket_path :: string where
  "socket_path = ''/run/stereos/stereosd.sock''"

definition admin_group :: string where
  "admin_group = ''admin''"

record runtime_dirs =
  rd_base :: string
  rd_secrets :: string
  rd_config :: string

definition default_runtime_dirs :: runtime_dirs where
  "default_runtime_dirs =
     \<lparr>rd_base = ''/run/stereos'', rd_secrets = secret_dir_path, rd_config = config_dir_path\<rparr>"

text \<open>\<open>user.LookupGroup\<close>: the group id as text, from the system's group database.\<close>

definition lookup_group :: "string \<Rightarrow> world \<Rightarrow> go_error + string" where
  "lookup_group g w =
     (case map_of (w_groups w) g of
        Some gid \<Rightarrow> Inr gid
      | None \<Rightarrow> Inl (ErrMsg (''group: unknown group '' @ g)))"

definition chown_to_group :: "string \<Rightarrow> string \<Rightarrow> world \<Rightarrow> outcome" where
  "chown_to_group p g w =
     (case lookup_group g w of
        Inl e \<Rightarrow> (Some (ErrWrap (''lookup group '' @ g @ '': '') e), w)
      | Inr t \<Rightarrow>
     (case go_atoi t of
        Inl e \<Rightarrow> (Some (ErrWrap (''parse gid '' @ t @ '': '') e), w)
      | Inr gid \<Rightarrow>
          or_fail (os_chown p (- 1) gid w) (''chown '' @ p @ '': '') id (\<lambda>w'. (None, w'))))"

definition dir_specs :: "runtime_dirs \<Rightarrow> (string \<times> 32 word) list" where
  "dir_specs dirs = [(rd_base dirs, 0x1ED), (rd_secrets dirs, 0x1C0), (rd_config dirs, 0x1ED)]"

fun make_dirs :: "(string \<times> 32 word) list \<Rightarrow> world \<Rightarrow> outcome" where
  "make_dirs [] w = (None, w)"
| "make_dirs ((p, mode) # specs) w =
     or_fail (os_mkdir_all p mode w) (''create runtime dir '' @ p @ '': '') id (\<lambda>w1.
     or_fail (os_chmod p mode w1) (''chmod runtime dir '' @ p @ '': '') id (\<lambda>w2.
     make_dirs specs w2))"

definition ensure_runtime_dirs :: "runtime_dirs \<Rightarrow> world \<Rightarrow> outcome" where
  "ensure_runtime_dirs dirs w =
     (case make_dirs (dir_specs dirs) w of
        (Some e, w1) \<Rightarrow> (Some e, w1)
      | (None, w1) \<Rightarrow>
          (let (ignored, w2) = chown_to_group (rd_base dirs) admin_group w1 in (None, w2)))"

subsection \<open>Directories stay directories\<close>

text \<open>What a caller relies on afterwards: the kind and the mode of a directory.\<close>

definition dir_mode :: "fsys \<Rightarrow> path \<Rightarrow> 32 word option" where
  "dir_mode f p = (case lookup f p of Some (Dir m) \<Rightarrow> Some (m_mode m) | _ \<Rightarrow> None)"

context call_effects
begin

lemma make_dirs_R:
  "R P w u \<Longrightarrow> \<forall>(p, m) \<in> set specs. {q. prefix q (resolve p)} \<subseteq> P \<Longrightarrow>
   R P w (snd (make_dirs specs u))"
proof (induction specs arbitrary: u)
  case Nil
  then show ?case by simp
next
  case (Cons spec specs)
  obtain p m where s: "spec = (p, m)" by (cases spec)
  with Cons.prems have "{q. prefix q (resolve p)} \<subseteq> P" "resolve p \<in> P" by auto
  with Cons s show ?case
    by (simp only: make_dirs.simps) (intro R_or_fail R_then R_then_dirs Cons.IH; simp)
qed

lemma chown_to_group_R:
  assumes "resolve p \<in> P"
  shows "R P w (snd (chown_to_group p g w))"
proof -
  have "R P w (snd (or_fail (os_chown p (- 1) gid w) m id (\<lambda>w'. (None, w'))))" for gid m
    by (intro R_or_fail R_then R_refl) (use assms in auto)
  then show ?thesis using R_refl by (simp add: chown_to_group_def split: sum.split)
qed

lemma ensure_runtime_dirs_R:
  assumes "\<forall>(p, m) \<in> set (dir_specs dirs). {q. prefix q (resolve p)} \<subseteq> P"
  shows "R P w (snd (ensure_runtime_dirs dirs w))"
proof -
  obtain r w1 where m: "make_dirs (dir_specs dirs) w = (r, w1)" by force
  have "R P w w1" using make_dirs_R[OF R_refl assms, of w] m by simp
  moreover have "R P w1 (snd (chown_to_group (rd_base dirs) admin_group w1))"
    by (rule chown_to_group_R) (use assms in \<open>auto simp: dir_specs_def\<close>)
  ultimately show ?thesis
    by (auto simp: ensure_runtime_dirs_def m Let_def split_beta split: option.split dest: R_trans)
qed

end

lemma mkdir_all_dir_mode:
  assumes "os_mkdir_all p m w = (r, w')" and "dir_mode (w_fs w) q = Some k"
  shows "dir_mode (w_fs w') q = Some k"
  using assms mkdir_all_keeps[of w q _ p m]
  by (fastforce simp: dir_mode_def split: option.splits node.splits)

lemma chmod_dir_mode:
  assumes "os_chmod p m w = (None, w')" and "is_dir (lookup (w_fs w) (resolve p))"
  shows "dir_mode (w_fs w') q = (if q = resolve p then Some (syscall_mode m) else dir_mode (w_fs w) q)"
  using chmod_mode[OF assms(1)] assms(2) touches_now[OF touches_chmod[of p w m], of q] assms(1)
  by (auto simp: dir_mode_def is_dir_Some)

lemma chown_dir_mode:
  assumes "os_chown p i j w = (r, w')"
  shows "dir_mode (w_fs w') q = dir_mode (w_fs w) q"
proof (cases r)
  case None
  then show ?thesis
    using chown_owned assms touches_now[OF touches_chown[of p w i j], of q]
    by (cases "q = resolve p") (fastforce simp: dir_mode_def split: node.splits)+
next
  case (Some e)
  then have "w_fs w' = w_fs w"
    using change_meta_fail[OF assms[unfolded os_chown_def Some]] by simp
  then show ?thesis by simp
qed

lemma make_dirs_keeps:
  "make_dirs specs w = (r, w') \<Longrightarrow> fs_ok (w_fs w) \<Longrightarrow> q \<notin> resolve ` fst ` set specs \<Longrightarrow>
   dir_mode (w_fs w) q = Some k \<Longrightarrow> dir_mode (w_fs w') q = Some k"
proof (induction specs arbitrary: w r)
  case Nil
  then show ?case by simp
next
  case (Cons spec specs)
  obtain p m where s: "spec = (p, m)" by (cases spec)
  obtain r1 w1 where c1: "os_mkdir_all p m w = (r1, w1)" by force
  obtain r2 w2 where c2: "os_chmod p m w1 = (r2, w2)" by force
  have k1: "dir_mode (w_fs w1) q = Some k" using mkdir_all_dir_mode[OF c1 Cons.prems(4)] .
  have k2: "dir_mode (w_fs w2) q = Some k"
    using touches_now[OF touches_chmod[of p w1 m], of q] Cons.prems(3) s c2 k1 by (simp add: dir_mode_def)
  have fs2: "fs_ok (w_fs w2)"
    using fs_ok_after(4)[OF fs_ok_after(6)[OF Cons.prems(2)], of p m p m] c1 c2 by simp
  show ?case
  proof (cases "r1 = None \<and> r2 = None")
    case True
    then have "make_dirs specs w2 = (r, w')"
      using Cons.prems(1) s c1 c2 by (simp add: or_fail_def)
    from Cons.IH[OF this fs2 _ k2] Cons.prems(3) show ?thesis by simp
  next
    case False
    then have "w' = w1 \<or> w' = w2"
      using Cons.prems(1) s c1 c2 by (cases r1; cases r2) (auto simp: or_fail_def)
    with k1 k2 show ?thesis by blast
  qed
qed

lemma make_dirs_modes:
  "make_dirs specs w = (None, w') \<Longrightarrow> fs_ok (w_fs w) \<Longrightarrow> distinct (map (resolve \<circ> fst) specs) \<Longrightarrow>
   (p, m) \<in> set specs \<Longrightarrow> dir_mode (w_fs w') (resolve p) = Some (syscall_mode m)"
proof (induction specs arbitrary: w)
  case Nil
  then show ?case by simp
next
  case (Cons spec specs)
  obtain p' m' where s: "spec = (p', m')" by (cases spec)
  with Cons.prems(1) obtain w1 w2 where c:
    "os_mkdir_all p' m' w = (None, w1)" "os_chmod p' m' w1 = (None, w2)" "make_dirs specs w2 = (None, w')"
    by (auto simp: or_fail_None)
  have d1: "is_dir (lookup (w_fs w1) (resolve p'))" using mkdir_all_Some[OF c(1) Cons.prems(2)] .
  have fs2: "fs_ok (w_fs w2)"
    using fs_ok_after(4)[OF fs_ok_after(6)[OF Cons.prems(2)], of p' m' p' m'] c by simp
  show ?case
  proof (cases "(p, m) \<in> set specs")
    case True
    then show ?thesis using Cons.IH[OF c(3) fs2] Cons.prems(3) by simp
  next
    case False
    then have "p = p'" "m = m'" using Cons.prems(4) s by auto
    moreover have "dir_mode (w_fs w2) (resolve p') = Some (syscall_mode m')"
      using chmod_dir_mode[OF c(2) d1] by simp
    ultimately show ?thesis
      using make_dirs_keeps[OF c(3) fs2, of "resolve p"] Cons.prems(3) s by (auto simp: image_image)
  qed
qed


lemma chown_to_group_dir_mode: "dir_mode (w_fs (snd (chown_to_group p g w))) q = dir_mode (w_fs w) q"
proof -
  have "dir_mode (w_fs (snd (or_fail (os_chown p (- 1) gid w) m id (\<lambda>w'. (None, w'))))) q = dir_mode (w_fs w) q"
    for gid m
    using chown_dir_mode[of p "- 1" gid w] by (rule or_fail_post) (simp_all add: chown_dir_mode)
  then show ?thesis by (simp add: chown_to_group_def split: sum.split)
qed

subsection \<open>When it succeeds\<close>

lemma mkdirs_no_file:
  "lookup (w_fs (snd (mkdirs d cs m w))) q = Some (File a t) \<Longrightarrow> lookup (w_fs w) q = Some (File a t)"
proof (induction d cs m w rule: mkdirs.induct)
  case (1 d m w)
  then show ?case by simp
next
  case (2 d c cs m w)
  let ?p = "d @ [c]"
  show ?case
  proof (cases "lookup (w_fs w) ?p")
    case (Some n)
    then show ?thesis using "2.prems" "2.IH"(2)[OF refl Some] by (cases n) simp_all
  next
    case None
    obtain r v where v: "call w = (r, v)" by (cases "call w")
    then have eq: "w_fs v = w_fs w" by (auto simp: call_def)
    show ?thesis
    proof (cases r)
      case (Some x)
      then show ?thesis using "2.prems" None v eq by (cases x) simp
    next
      case r: None
      then show ?thesis
        using "2.prems" "2.IH"(1)[OF refl None v[symmetric] r] None v eq by (simp add: Let_def split: if_splits)
    qed
  qed
qed

lemma mkdir_all_no_file:
  "lookup (w_fs (snd (os_mkdir_all p m w))) q = Some (File a t) \<Longrightarrow> lookup (w_fs w) q = Some (File a t)"
  unfolding os_mkdir_all_def by (rule mkdirs_no_file)

lemma chmod_no_file:
  assumes "os_chmod p m w = (r, w')" and "\<And>a. lookup (w_fs w) q \<noteq> Some (File a t)"
  shows "lookup (w_fs w') q \<noteq> Some (File a t)"
proof (cases r)
  case None
  show ?thesis
  proof (cases "q = resolve p")
    case True
    from chmod_mode[OF assms(1)[unfolded None]] obtain n b where n: "lookup (w_fs w) q = Some n"
      "lookup (w_fs w') q = Some (set_meta b n)" using True by blast
    then show ?thesis using assms(2) by (cases n) auto
  next
    case False
    then show ?thesis using touches_now[OF touches_chmod[of p w m], of q] assms by simp
  qed
next
  case (Some e)
  then show ?thesis using change_meta_fail[OF assms(1)[unfolded os_chmod_def Some]] assms(2) by simp
qed

lemma make_dirs_ok:
  "no_faults w \<Longrightarrow> fs_ok (w_fs w) \<Longrightarrow>
   (\<And>q a t p m. (p, m) \<in> set specs \<Longrightarrow> prefix q (resolve p) \<Longrightarrow> lookup (w_fs w) q \<noteq> Some (File a t)) \<Longrightarrow>
   fst (make_dirs specs w) = None"
proof (induction specs arbitrary: w)
  case Nil
  then show ?case by simp
next
  case (Cons spec specs)
  obtain p m where s: "spec = (p, m)" by (cases spec)
  obtain r1 w1 where c1: "os_mkdir_all p m w = (r1, w1)" by force
  obtain r2 w2 where c2: "os_chmod p m w1 = (r2, w2)" by force
  have r1: "r1 = None"
    using mkdir_all_ok[OF Cons.prems(1), of p m] Cons.prems(3)[of p m] s c1 by simp
  have q: "no_faults w1" "fs_ok (w_fs w1)" "no_faults w2" "fs_ok (w_fs w2)"
    using no_faults_after(6)[of p m w] no_faults_after(4)[of p m w1] fs_ok_after(6)[OF Cons.prems(2), of p m]
      fs_ok_after(4)[of w1 p m] Cons.prems(1) c1 c2 by simp_all
  obtain b where "lookup (w_fs w1) (resolve p) = Some (Dir b)"
    using mkdir_all_Some[OF c1[unfolded r1] Cons.prems(2)] by (auto simp: is_dir_Some)
  then have r2: "r2 = None" using chmod_ok[OF q(1,2), of p _ m] c2 by simp
  have "lookup (w_fs w2) y \<noteq> Some (File a t)" if y: "(x, k) \<in> set specs" "prefix y (resolve x)" for x k y a t
  proof -
    have no: "lookup (w_fs w) y \<noteq> Some (File a t)" for a t
      using Cons.prems(3)[of x k y] y by simp
    have "lookup (w_fs w1) y \<noteq> Some (File a t)" for a t
      using mkdir_all_no_file[of p m w y a t] no c1 by auto
    then show ?thesis using chmod_no_file[OF c2] by blast
  qed
  from Cons.IH[OF q(3,4) this] show ?case using s c1 c2 r1 r2 by (simp add: or_fail_ok)
qed


subsection \<open>EnsureRuntimeDirs\<close>

lemma ensure_runtime_dirs_result:
  assumes "fs_ok (w_fs w)" and "ensure_runtime_dirs dirs w = (None, w')"
    and "distinct [resolve (rd_base dirs), resolve (rd_secrets dirs), resolve (rd_config dirs)]"
  shows "dir_mode (w_fs w') (resolve (rd_base dirs)) = Some 0x1ED \<and>
       dir_mode (w_fs w') (resolve (rd_secrets dirs)) = Some 0x1C0 \<and>
       dir_mode (w_fs w') (resolve (rd_config dirs)) = Some 0x1ED"
proof -
  from assms(2) obtain w1 where m1: "make_dirs (dir_specs dirs) w = (None, w1)"
    and w': "w' = snd (chown_to_group (rd_base dirs) admin_group w1)"
    by (auto simp: ensure_runtime_dirs_def split: prod.splits option.splits)
  have "distinct (map (resolve \<circ> fst) (dir_specs dirs))" using assms(3) by (simp add: dir_specs_def)
  note mode = make_dirs_modes[OF m1 assms(1) this]
  have "syscall_mode 0x1ED = 0x1ED" "syscall_mode 0x1C0 = 0x1C0" by (simp_all add: syscall_mode_def)
  with mode[of "rd_base dirs" "0x1ED"] mode[of "rd_secrets dirs" "0x1C0"] mode[of "rd_config dirs" "0x1ED"]
  show ?thesis by (simp add: w' chown_to_group_dir_mode dir_specs_def)
qed

text \<open>Whatever fails on the way, if EnsureRuntimeDirs returns no error then the base, the
  secrets and the configuration directory exist as directories with the modes 0755, 0700 and
  0755, whether they were there before or not and whatever the umask, provided the three
  paths differ; and it only ever touches these paths and the directories above them. A
  failing change of group is not an error.\<close>

theorem ensure_runtime_dirs_modes:
  assumes "fs_ok (w_fs w)" and "ensure_runtime_dirs dirs w = (r, w')"
    and "distinct [resolve (rd_base dirs), resolve (rd_secrets dirs), resolve (rd_config dirs)]"
  shows "touches {q. prefix q (resolve (rd_base dirs)) \<or> prefix q (resolve (rd_secrets dirs)) \<or>
      prefix q (resolve (rd_config dirs))} w w' \<and> fs_ok (w_fs w') \<and>
    (r = None \<longrightarrow>
       dir_mode (w_fs w') (resolve (rd_base dirs)) = Some 0x1ED \<and>
       dir_mode (w_fs w') (resolve (rd_secrets dirs)) = Some 0x1C0 \<and>
       dir_mode (w_fs w') (resolve (rd_config dirs)) = Some 0x1ED)"
proof -
  have "touches {q. prefix q (resolve (rd_base dirs)) \<or> prefix q (resolve (rd_secrets dirs)) \<or>
      prefix q (resolve (rd_config dirs))} w (snd (ensure_runtime_dirs dirs w))"
    by (rule touch.ensure_runtime_dirs_R) (auto simp: dir_specs_def)
  moreover have "fs_ok (w_fs w')"
    using wf.ensure_runtime_dirs_R[of dirs UNIV w] assms(1,2) by (auto dest: observed_now)
  ultimately show ?thesis using ensure_runtime_dirs_result[OF assms(1) _ assms(3)] assms(2) by auto
qed

text \<open>With no failing call and no file where a directory should be, EnsureRuntimeDirs
  returns no error, with or without the admin group.\<close>

theorem ensure_runtime_dirs_succeeds:
  assumes "no_faults w" and "fs_ok (w_fs w)"
    and "\<And>p m q a t. (p, m) \<in> set (dir_specs dirs) \<Longrightarrow> prefix q (resolve p) \<Longrightarrow>
      lookup (w_fs w) q \<noteq> Some (File a t)"
  shows "fst (ensure_runtime_dirs dirs w) = None"
  using make_dirs_ok[OF assms(1,2), of "dir_specs dirs"] assms(3)
  by (auto simp: ensure_runtime_dirs_def Let_def split: prod.split option.split)


subsection \<open>Running it again\<close>

lemma mkdir_all_existing:
  assumes "fs_ok (w_fs w)" and "is_dir (lookup (w_fs w) (resolve p))"
  shows "lookup (w_fs (snd (os_mkdir_all p m w))) q = lookup (w_fs w) q"
proof -
  have "\<not> (prefix q (resolve p) \<and> lookup (w_fs w) q = None)"
  proof
    assume h: "prefix q (resolve p) \<and> lookup (w_fs w) q = None"
    then obtain b where b: "resolve p = q @ b" by (auto simp: prefix_def)
    show False
    proof (cases "b = []")
      case True
      with h b assms(2) show ?thesis by simp
    next
      case False
      with fs_ok_prefix[OF assms(1), of q b] b assms(2) h show ?thesis by (auto simp: is_dir_Some)
    qed
  qed
  then show ?thesis using touches_now[OF touches_mkdir_all[of p w m], of q] by simp
qed

lemma set_meta_node_meta [simp]: "set_meta (node_meta n) n = n"
  by (cases n) auto

lemma chmod_same:
  assumes "dir_mode (w_fs w) (resolve p) = Some (syscall_mode m)"
  shows "lookup (w_fs (snd (os_chmod p m w))) q = lookup (w_fs w) q"
proof -
  from assms obtain b where b: "lookup (w_fs w) (resolve p) = Some (Dir b)" "m_mode b = syscall_mode m"
    by (auto simp: dir_mode_def split: option.splits node.splits)
  then have "b\<lparr>m_mode := syscall_mode m\<rparr> = b" by simp
  with b show ?thesis
    by (auto simp: os_chmod_def change_meta_def call_unfold split: option.split fault.split)
qed

lemma make_dirs_again:
  "fs_ok (w_fs w) \<Longrightarrow> (\<And>p m. (p, m) \<in> set specs \<Longrightarrow> dir_mode (w_fs w) (resolve p) = Some (syscall_mode m)) \<Longrightarrow>
   make_dirs specs w = (r, w') \<Longrightarrow> lookup (w_fs w') q = lookup (w_fs w) q"
proof (induction specs arbitrary: w r q)
  case Nil
  then show ?case by simp
next
  case (Cons spec specs)
  obtain p m where s: "spec = (p, m)" by (cases spec)
  have d: "dir_mode (w_fs w) (resolve p) = Some (syscall_mode m)" using Cons.prems(2) s by simp
  then have id: "is_dir (lookup (w_fs w) (resolve p))"
    by (auto simp: dir_mode_def split: option.splits node.splits)
  obtain r1 w1 where c1: "os_mkdir_all p m w = (r1, w1)" by force
  obtain r2 w2 where c2: "os_chmod p m w1 = (r2, w2)" by force
  have e1: "lookup (w_fs w1) x = lookup (w_fs w) x" for x
    using mkdir_all_existing[OF Cons.prems(1) id, of m x] c1 by simp
  have e2: "lookup (w_fs w2) x = lookup (w_fs w) x" for x
    using chmod_same[of w1 p m x] d e1 c2 by (simp add: dir_mode_def)
  have fs2: "fs_ok (w_fs w2)"
    using fs_ok_after(4)[OF fs_ok_after(6)[OF Cons.prems(1)], of p m p m] c1 c2 by simp
  have d2: "dir_mode (w_fs w2) (resolve x) = Some (syscall_mode k)" if "(x, k) \<in> set specs" for x k
    using Cons.prems(2)[of x k] that e2 by (simp add: dir_mode_def)
  show ?case
  proof (cases "r1 = None \<and> r2 = None")
    case True
    then have "make_dirs specs w2 = (r, w')" using Cons.prems(3) s c1 c2 by (simp add: or_fail_def)
    from Cons.IH[OF fs2 d2 this, of q] e2 show ?thesis by simp
  next
    case False
    then have "w' = w1 \<or> w' = w2"
      using Cons.prems(3) s c1 c2 by (cases r1; cases r2) (auto simp: or_fail_def)
    with e1 e2 show ?thesis by auto
  qed
qed

lemma make_dirs_present_ok:
  assumes "no_faults w" and "fs_ok (w_fs w)"
    and "\<And>p m. (p, m) \<in> set specs \<Longrightarrow> \<exists>k. dir_mode (w_fs w) (resolve p) = Some k"
  shows "fst (make_dirs specs w) = None"
proof (rule make_dirs_ok[OF assms(1,2)])
  fix p m q a t
  assume h: "(p, m) \<in> set specs" "prefix q (resolve p)"
  have d: "is_dir (lookup (w_fs w) (resolve p))"
    using assms(3)[OF h(1)] by (auto simp: dir_mode_def split: option.splits node.splits)
  obtain b where "resolve p = q @ b" using h(2) by (auto simp: prefix_def)
  then show "lookup (w_fs w) q \<noteq> Some (File a t)"
    using d fs_ok_prefix[OF assms(2), of q b] by (cases "b = []") (auto simp: is_dir_Some)
qed

text \<open>The change of group, done twice.\<close>

lemma chown_to_group_cases:
  assumes "no_faults w" and "fs_ok (w_fs w)" and "lookup (w_fs w) (resolve p) = Some (Dir b)"
  shows "lookup (w_fs (snd (chown_to_group p g w))) q =
    (case map_of (w_groups w) g of
       None \<Rightarrow> lookup (w_fs w) q
     | Some t \<Rightarrow> (case go_atoi t of
         Inl e \<Rightarrow> lookup (w_fs w) q
       | Inr gid \<Rightarrow> if q = resolve p then Some (Dir (if gid = - 1 then b else b\<lparr>m_gid := gid\<rparr>))
                   else lookup (w_fs w) q))"
  using fs_ok_walk[OF assms(2,3)] assms(3)
  by (auto simp: chown_to_group_def lookup_group_def or_fail_def os_chown_def change_meta_def
      call_no_faults[OF assms(1)] split: option.split sum.split)

text \<open>C23: EnsureRuntimeDirs is idempotent: with no failing call, running it a second time
  returns no error and changes no file, directory, mode or owner.\<close>

theorem ensure_runtime_dirs_idempotent:
  assumes "no_faults w" and "fs_ok (w_fs w)"
    and "\<And>p m q a t. (p, m) \<in> set (dir_specs dirs) \<Longrightarrow> prefix q (resolve p) \<Longrightarrow>
      lookup (w_fs w) q \<noteq> Some (File a t)"
    and "distinct [resolve (rd_base dirs), resolve (rd_secrets dirs), resolve (rd_config dirs)]"
    and "ensure_runtime_dirs dirs w = (r1, w1)" and "ensure_runtime_dirs dirs w1 = (r2, w2)"
  shows "r1 = None \<and> r2 = None \<and> (\<forall>q. lookup (w_fs w2) q = lookup (w_fs w1) q)"
proof -
  let ?base = "resolve (rd_base dirs)"
  obtain x wa where ma: "make_dirs (dir_specs dirs) w = (x, wa)" by force
  have x: "x = None" using make_dirs_ok[OF assms(1,2), of "dir_specs dirs"] assms(3) ma by simp
  have w1: "w1 = snd (chown_to_group (rd_base dirs) admin_group wa)" and r1: "r1 = None"
    using assms(5) ma x by (auto simp: ensure_runtime_dirs_def split: prod.splits)
  obtain y wb where mb: "make_dirs (dir_specs dirs) w1 = (y, wb)" by force
  have envs: "env_of wa = env_of w" "env_of w1 = env_of w" "env_of wb = env_of w"
    using env.make_dirs_R[where P = UNIV and u = w and w = w and specs = "dir_specs dirs"] ma
      env.chown_to_group_R[where p = "rd_base dirs" and P = UNIV and g = admin_group and w = wa] w1
      env.make_dirs_R[where P = UNIV and u = w1 and w = w1 and specs = "dir_specs dirs"] mb by auto
  then have quiet: "no_faults wa" "no_faults w1" "no_faults wb"
    using assms(1) env_of_no_faults by blast+
  have groups: "w_groups wb = w_groups wa" using env_of_D(6)[OF envs(1)] env_of_D(6)[OF envs(3)] by simp
  have fs: "fs_ok (w_fs wa)" "fs_ok (w_fs w1)" "fs_ok (w_fs wb)"
    using wf.make_dirs_R[where P = UNIV and u = w and w = w and specs = "dir_specs dirs"] ma assms(2)
      wf.chown_to_group_R[where p = "rd_base dirs" and P = UNIV and g = admin_group and w = wa] w1
      wf.make_dirs_R[where P = UNIV and u = w1 and w = w1 and specs = "dir_specs dirs"] mb by (auto dest: fs_ok_now)
  note modes = ensure_runtime_dirs_result[OF assms(2) assms(5)[unfolded r1] assms(4)]
  have dm: "dir_mode (w_fs w1) (resolve p) = Some (syscall_mode m)" if "(p, m) \<in> set (dir_specs dirs)" for p m
    using that modes by (auto simp: dir_specs_def syscall_mode_def)
  have same: "lookup (w_fs wb) q = lookup (w_fs w1) q" for q
    by (rule make_dirs_again[OF fs(2) dm mb])
  have "fst (make_dirs (dir_specs dirs) w1) = None"
    by (rule make_dirs_present_ok[OF quiet(2) fs(2)]) (use dm in blast)
  then have y: "y = None" using mb by simp
  have w2: "w2 = snd (chown_to_group (rd_base dirs) admin_group wb)" and r2: "r2 = None"
    using assms(6) mb y by (auto simp: ensure_runtime_dirs_def split: prod.splits)
  have "dir_mode (w_fs wa) ?base = dir_mode (w_fs w1) ?base" by (simp add: w1 chown_to_group_dir_mode)
  then obtain b where b: "lookup (w_fs wa) ?base = Some (Dir b)"
    using modes by (auto simp: dir_mode_def split: option.splits node.splits)
  note once = chown_to_group_cases[OF quiet(1) fs(1) b, of admin_group, folded w1]
  obtain c where c: "lookup (w_fs wb) ?base = Some (Dir c)"
    using modes same by (auto simp: dir_mode_def split: option.splits node.splits)
  note twice = chown_to_group_cases[OF quiet(3) fs(3) c, of admin_group, folded w2]
  have "lookup (w_fs w2) q = lookup (w_fs w1) q" for q
    using once[of q] once[of ?base] twice[of q] same c groups
    by (auto split: option.splits sum.splits if_splits)
  with r1 r2 show ?thesis by blast
qed


subsection \<open>The properties at a concrete world\<close>

text \<open>
  A fresh system on which /run exists and the runtime directory was left behind with a mode
  that lets everyone write to it.
\<close>

definition boot_world :: world where
  "boot_world =
     (quiet_world [([], Dir \<lparr>m_mode = 0x1ED, m_uid = 0, m_gid = 0\<rparr>),
        ([''run''], Dir \<lparr>m_mode = 0x1ED, m_uid = 0, m_gid = 0\<rparr>),
        ([''run'', ''stereos''], Dir \<lparr>m_mode = 0x1FF, m_uid = 0, m_gid = 0\<rparr>)])
       \<lparr>w_groups := [(''admin'', ''990'')]\<rparr>"

lemma boot_facts:
  "no_faults boot_world" "fs_ok (w_fs boot_world)"
  "resolve (rd_base default_runtime_dirs) = [''run'', ''stereos'']"
  "resolve (rd_secrets default_runtime_dirs) = [''run'', ''stereos'', ''secrets'']"
  "resolve (rd_config default_runtime_dirs) = [''etc'', ''stereos'']"
  by (simp add: no_faults_def boot_world_def quiet_world_def, code_simp+)

lemma boot_no_file: "lookup (w_fs boot_world) q \<noteq> Some (File a t)"
  by (simp add: boot_world_def quiet_world_def lookup_def)

theorem ensure_runtime_dirs_modes_witness:
  "let w' = snd (ensure_runtime_dirs default_runtime_dirs boot_world) in
   dir_mode (w_fs w') [''run'', ''stereos''] = Some 0x1ED \<and>
   dir_mode (w_fs w') [''run'', ''stereos'', ''secrets''] = Some 0x1C0 \<and>
   dir_mode (w_fs w') [''etc'', ''stereos''] = Some 0x1ED"
proof -
  obtain r w' where e: "ensure_runtime_dirs default_runtime_dirs boot_world = (r, w')" by force
  have "fst (ensure_runtime_dirs default_runtime_dirs boot_world) = None" by code_simp
  with ensure_runtime_dirs_modes[OF boot_facts(2) e] boot_facts e show ?thesis by (simp add: Let_def)
qed

theorem ensure_runtime_dirs_succeeds_witness:
  "fst (ensure_runtime_dirs default_runtime_dirs (boot_world\<lparr>w_groups := []\<rparr>)) = None"
  by (rule ensure_runtime_dirs_succeeds)
    (use boot_facts boot_no_file in \<open>simp_all add: no_faults_def\<close>)

theorem ensure_runtime_dirs_idempotent_witness:
  "let w1 = snd (ensure_runtime_dirs default_runtime_dirs boot_world);
       w2 = snd (ensure_runtime_dirs default_runtime_dirs w1)
   in lookup (w_fs w2) [''run'', ''stereos''] = lookup (w_fs w1) [''run'', ''stereos'']"
proof -
  obtain r1 w1 where e: "ensure_runtime_dirs default_runtime_dirs boot_world = (r1, w1)" by force
  obtain r2 w2 where f: "ensure_runtime_dirs default_runtime_dirs w1 = (r2, w2)" by force
  show ?thesis
    using ensure_runtime_dirs_idempotent[OF boot_facts(1,2) _ _ e f] boot_no_file boot_facts e f
    by (simp add: Let_def)
qed

end
