(* ===== verification/IpcServer.thy ===== *)
theory IpcServer
  imports Dirs
begin

text \<open>
  The HTTP server on the unix socket (pkg/ipc.go): the server object, how it is brought up
  and how it is taken down. The socket is a file that holds no bytes; who may connect to it
  is decided by the mode and group of that file. The requests are in the theory Ipc.
\<close>

subsection \<open>Unix sockets\<close>

text \<open>Binding creates the socket file, with all permissions the umask leaves.\<close>

definition net_listen_unix :: "string \<Rightarrow> world \<Rightarrow> outcome" where
  "net_listen_unix p w0 =
     (case call w0 of
        (Some (Fault e k), w) \<Rightarrow> (Some (ErrWrap (''listen unix '' @ p @ '': '') (ErrnoErr e)), w)
      | (None, w) \<Rightarrow>
          (case walk_error (w_fs w) [] (resolve p) of
             Some e \<Rightarrow> (Some (ErrWrap (''listen unix '' @ p @ '': bind: '') (ErrnoErr e)), w)
           | None \<Rightarrow>
          (case lookup (w_fs w) (resolve p) of
             Some n \<Rightarrow> (Some (ErrWrap (''listen unix '' @ p @ '': bind: '') (ErrnoErr EADDRINUSE)), w)
           | None \<Rightarrow>
               (None, set_fs (put (resolve p)
                  (File \<lparr>m_mode = create_mode 0x1FF w, m_uid = w_uid w, m_gid = w_gid w\<rparr> [])
                  (w_fs w)) w))))"

text \<open>
  Closing a listener removes its file, whatever is there by then, unless it was closed
  before; the error is not looked at.
\<close>

record unix_listener =
  ul_path :: string
  ul_open :: bool

definition unlink :: "string \<Rightarrow> world \<Rightarrow> world" where
  "unlink p w0 =
     (case call w0 of
        (Some f, w) \<Rightarrow> w
      | (None, w) \<Rightarrow>
          (case lookup (w_fs w) (resolve p) of
             Some (File m t) \<Rightarrow> set_fs (del (resolve p) (w_fs w)) w
           | _ \<Rightarrow> w))"

definition close_unix :: "unix_listener \<Rightarrow> world \<Rightarrow> unix_listener \<times> world" where
  "close_unix l w = (l\<lparr>ul_open := False\<rparr>, if ul_open l then unlink (ul_path l) w else w)"

subsection \<open>The server\<close>

text \<open>\<open>is_server\<close> is nil before the server is made, and then whether it was closed.\<close>

record ipc_server =
  is_socket_path :: string
  is_listener :: "unix_listener option"
  is_server :: "bool option"

definition new_ipc_server :: "string \<Rightarrow> ipc_server" where
  "new_ipc_server p = \<lparr>is_socket_path = p, is_listener = None, is_server = None\<rparr>"

text \<open>Serve up to the point where requests are accepted.\<close>

definition ipc_start :: "ipc_server \<Rightarrow> world \<Rightarrow> go_error option \<times> ipc_server \<times> world" where
  "ipc_start s w =
     (let p = is_socket_path s;
          (ignored, w1) = os_remove p w
      in
      case net_listen_unix p w1 of
        (Some e, w2) \<Rightarrow> (Some (ErrWrap (''ipc: listen '' @ p @ '': '') e), s, w2)
      | (None, w2) \<Rightarrow>
          (let l = \<lparr>ul_path = p, ul_open = True\<rparr>; s1 = s\<lparr>is_listener := Some l\<rparr> in
           case os_chmod p 0x1B0 w2 of
             (Some e, w3) \<Rightarrow>
               (let (l', w4) = close_unix l w3
                in (Some (ErrWrap (''ipc: chmod '' @ p @ '': '') e), s1\<lparr>is_listener := Some l'\<rparr>, w4))
           | (None, w3) \<Rightarrow>
               (let (warning, w4) = chown_to_group p admin_group w3
                in (None, s1\<lparr>is_server := Some True\<rparr>, w4))))"

text \<open>
  The rest of Serve: what \<open>http.Server.Serve\<close> returned, \<open>None\<close> being that the server was
  closed or shut down. It closes the listener on its way out.
\<close>

definition ipc_finish ::
  "go_error option \<Rightarrow> ipc_server \<Rightarrow> world \<Rightarrow> go_error option \<times> ipc_server \<times> world" where
  "ipc_finish r s w =
     (let (l, w1) = (case is_listener s of
            None \<Rightarrow> (None, w)
          | Some l \<Rightarrow> (let (l', w') = close_unix l w in (Some l', w')))
      in ((case r of None \<Rightarrow> None | Some e \<Rightarrow> Some (ErrWrap ''ipc: serve: '' e)),
          s\<lparr>is_listener := l\<rparr>, w1))"

definition ipc_close :: "ipc_server \<Rightarrow> world \<Rightarrow> ipc_server \<times> world" where
  "ipc_close s w =
     (let s1 = s\<lparr>is_server := map_option (\<lambda>x. False) (is_server s)\<rparr>;
          (l, w1) = (case is_listener s1 of
            None \<Rightarrow> (None, w)
          | Some l \<Rightarrow> (let (l', w') = close_unix l w in (Some l', w')));
          (ignored, w2) = os_remove (is_socket_path s1) w1
      in (s1\<lparr>is_listener := l\<rparr>, w2))"

text \<open>
  What the goroutine of Serve does when the context is cancelled: \<open>http.Server.Shutdown\<close> closes
  the listener, and Serve then returns; waiting for the requests under way changes nothing here.
\<close>

definition ipc_drain :: "ipc_server \<Rightarrow> world \<Rightarrow> ipc_server \<times> world" where
  "ipc_drain s w =
     (let s1 = s\<lparr>is_server := map_option (\<lambda>x. False) (is_server s)\<rparr>;
          (l, w1) = (case is_listener s1 of
            None \<Rightarrow> (None, w)
          | Some l \<Rightarrow> (let (l', w') = close_unix l w in (Some l', w')))
      in (s1\<lparr>is_listener := l\<rparr>, w1))"

subsection \<open>The socket file\<close>

lemma net_listen_unix_result:
  "net_listen_unix p w = (r, w') \<Longrightarrow>
   (case r of
      Some e \<Rightarrow> w_fs w' = w_fs w \<and> w_hist w' = w_hist w
    | None \<Rightarrow> lookup (w_fs w) (resolve p) = None \<and>
        (\<exists>m. lookup (w_fs w') (resolve p) = Some (File m [])))"
  by (auto simp: net_listen_unix_def call_unfold split: option.splits fault.splits)

lemma touches_listen_unix: "touches {resolve p} w (snd (net_listen_unix p w))"
  by (simp add: net_listen_unix_def call_unfold split: option.split fault.split)

lemma touches_unlink: "touches {resolve p} w (unlink p w)"
  by (simp add: unlink_def call_unfold split: option.split node.split)

lemma touches_close_unix: "ul_path l = p \<Longrightarrow> touches {resolve p} w (snd (close_unix l w))"
  using touches_unlink by (simp add: close_unix_def)

text \<open>Changing the group keeps the kind of the file, its content and its mode.\<close>

lemma chown_to_group_file:
  assumes "lookup (w_fs w) (resolve p) = Some (File m t)"
  shows "\<exists>m'. lookup (w_fs (snd (chown_to_group p g w))) (resolve p) = Some (File m' t) \<and> m_mode m' = m_mode m"
proof -
  have "\<exists>m'. lookup (w_fs (snd (or_fail (os_chown p (- 1) gid w) msg id (\<lambda>w'. (None, w'))))) (resolve p) =
      Some (File m' t) \<and> m_mode m' = m_mode m" for gid msg
  proof (cases "os_chown p (- 1) gid w")
    case (Pair r w')
    show ?thesis
    proof (cases r)
      case None
      then show ?thesis using chown_owned[of p "- 1" gid w w'] Pair assms by (auto simp: or_fail_def)
    next
      case (Some e)
      then have "w_fs w' = w_fs w" using Pair change_meta_fail by (simp add: os_chown_def)
      then show ?thesis using Pair Some assms by (simp add: or_fail_def)
    qed
  qed
  then show ?thesis using assms by (simp add: chown_to_group_def split: sum.split)
qed

text \<open>C32: When the server comes up, whatever was at its socket path before, a file that holds the
  fresh socket is there with mode 0660, so that only its owner and its group can connect, and
  the group is that of the admin group when there is one that can be set. On the way nothing
  but the socket path is touched, also when it fails.\<close>

theorem ipc_start_socket:
  "touches {resolve (is_socket_path s)} w (snd (snd (ipc_start s w))) \<and>
   (fst (ipc_start s w) = None \<longrightarrow>
     (\<exists>m. lookup (w_fs (snd (snd (ipc_start s w)))) (resolve (is_socket_path s)) = Some (File m []) \<and>
        m_mode m = 0x1B0) \<and>
     is_server (fst (snd (ipc_start s w))) = Some True)"
proof -
  let ?p = "is_socket_path s"
  obtain r1 w1 where c1: "os_remove ?p w = (r1, w1)" by force
  obtain r2 w2 where c2: "net_listen_unix ?p w1 = (r2, w2)" by force
  obtain r3 w3 where c3: "os_chmod ?p 0x1B0 w2 = (r3, w3)" by force
  obtain r4 w4 where c4: "chown_to_group ?p admin_group w3 = (r4, w4)" by force
  have t1: "touches {resolve ?p} w w1" using touches_remove[of ?p w] c1 by simp
  have t2: "touches {resolve ?p} w w2"
    using touches_trans[OF t1] touches_listen_unix[of ?p w1] c2 by simp
  have t3: "touches {resolve ?p} w w3" using touches_trans[OF t2] touches_chmod[of ?p w2 "0x1B0"] c3 by simp
  have t4: "touches {resolve ?p} w w4"
    using touches_trans[OF t3] touch.chown_to_group_R[where p = ?p and P = "{resolve ?p}" and g = admin_group and w = w3] c4
    by simp
  have t5: "touches {resolve ?p} w (unlink ?p w3)"
    using touches_trans[OF t3] touches_unlink[of ?p w3] by simp
  have mode: "syscall_mode 0x1B0 = 0x1B0" by code_simp
  show ?thesis
  proof (cases r2)
    case (Some e)
    then show ?thesis using c1 c2 t2 by (simp add: ipc_start_def Let_def)
  next
    case r2: None
    show ?thesis
    proof (cases r3)
      case (Some e)
      then show ?thesis using c1 c2 c3 r2 t5 by (simp add: ipc_start_def close_unix_def Let_def)
    next
      case None
      obtain m where "lookup (w_fs w2) (resolve ?p) = Some (File m [])"
        using net_listen_unix_result[OF c2] r2 by auto
      then obtain m' where "lookup (w_fs w3) (resolve ?p) = Some (File m' [])" "m_mode m' = 0x1B0"
        using chmod_mode[of ?p "0x1B0" w2 w3] c3 None mode by auto
      with chown_to_group_file[of w3 ?p m' "[]" admin_group] c4
      obtain m4 where "lookup (w_fs w4) (resolve ?p) = Some (File m4 [])" "m_mode m4 = 0x1B0" by auto
      then show ?thesis using c1 c2 c3 c4 r2 None t4 by (simp add: ipc_start_def Let_def)
    qed
  qed
qed

subsection \<open>Taking it down\<close>

lemma unlink_cases:
  "w_fs (unlink p w) = w_fs w \<or> lookup (w_fs (unlink p w)) (resolve p) = None"
  by (simp add: unlink_def call_unfold split: option.split node.split)

text \<open>A server closes the socket it was made for.\<close>

definition ipc_ok :: "ipc_server \<Rightarrow> bool" where
  "ipc_ok s \<longleftrightarrow> (case is_listener s of None \<Rightarrow> True | Some l \<Rightarrow> ul_path l = is_socket_path s)"

lemma ipc_ok_new [simp]: "ipc_ok (new_ipc_server p)"
  by (simp add: ipc_ok_def new_ipc_server_def)

lemma ipc_ok_start: "ipc_ok s \<Longrightarrow> ipc_ok (fst (snd (ipc_start s w)))"
  by (auto simp: ipc_start_def ipc_ok_def close_unix_def Let_def split: prod.split option.splits)

lemma ipc_ok_close: "ipc_ok s \<Longrightarrow> ipc_ok (fst (ipc_close s w))"
  by (auto simp: ipc_close_def ipc_ok_def close_unix_def Let_def split: prod.split option.splits)

lemma ipc_start_path [simp]: "is_socket_path (fst (snd (ipc_start s w))) = is_socket_path s"
  by (simp add: ipc_start_def close_unix_def Let_def split: prod.split option.split)

lemma unlink_no_faults [simp]: "no_faults (unlink p w) = no_faults w"
  by (rule env_of_no_faults) (simp add: unlink_def call_unfold split: option.split node.split)

lemma unlink_fs_ok: "fs_ok (w_fs w) \<Longrightarrow> fs_ok (w_fs (unlink p w))"
  by (auto simp: unlink_def call_unfold intro!: fs_ok_del split: option.split node.split
        dest: fs_ok_parent)

lemma remove_missing:
  "lookup (w_fs w) (resolve p) = None \<Longrightarrow> w_fs (snd (os_remove p w)) = w_fs w"
  by (cases "w_faults w (w_tick w)"; cases "walk_error (w_fs w) [] (resolve p)")
     (auto simp: os_remove_def call_unfold split: fault.split)

lemma remove_gone:
  assumes "no_faults w" and "fs_ok (w_fs w)" and "\<not> is_dir (lookup (w_fs w) (resolve p))"
  shows "lookup (w_fs (snd (os_remove p w))) (resolve p) = None"
proof (cases "lookup (w_fs w) (resolve p)")
  case None
  then have "w_fs (snd (os_remove p w)) = w_fs w" by (rule remove_missing)
  with None show ?thesis by simp
next
  case (Some n)
  then obtain m t where "lookup (w_fs w) (resolve p) = Some (File m t)" using assms(3) by (cases n) auto
  then have "fst (os_remove p w) = None" using remove_ok assms(1,2) by blast
  then show ?thesis using remove_Some[of p w] by (cases "os_remove p w") auto
qed

lemma ipc_close_world:
  assumes "ipc_ok s"
  shows "snd (ipc_close s w) =
    snd (os_remove (is_socket_path s)
      (case is_listener s of Some l \<Rightarrow> if ul_open l then unlink (is_socket_path s) w else w | None \<Rightarrow> w))"
  using assms by (cases "is_listener s") (simp_all add: ipc_close_def ipc_ok_def close_unix_def Let_def split: prod.split)

text \<open>When no call fails and the socket path is not a directory, closing the server leaves no
  file at its socket path and touches no other, whether the server was started or not, and
  closing it a second time changes no file at all. The order matters: a start that comes
  after the close binds the socket again.\<close>

theorem ipc_close_removes_socket:
  assumes "no_faults w" and "fs_ok (w_fs w)" and "ipc_ok s"
    and "\<not> is_dir (lookup (w_fs w) (resolve (is_socket_path s)))"
  shows "lookup (w_fs (snd (ipc_close s w))) (resolve (is_socket_path s)) = None \<and>
    touches {resolve (is_socket_path s)} w (snd (ipc_close s w)) \<and>
    is_server (fst (ipc_close s w)) \<noteq> Some True \<and>
    w_fs (snd (ipc_close (fst (ipc_close s w)) (snd (ipc_close s w)))) = w_fs (snd (ipc_close s w))"
proof -
  let ?p = "is_socket_path s"
  let ?w1 = "case is_listener s of Some l \<Rightarrow> if ul_open l then unlink ?p w else w | None \<Rightarrow> w"
  have w1: "?w1 = w \<or> ?w1 = unlink ?p w" by (simp split: option.split)
  have q: "no_faults ?w1" "fs_ok (w_fs ?w1)"
    using w1 assms(1,2) unlink_fs_ok[OF assms(2), of ?p] by (elim disjE; simp)+
  have nd: "\<not> is_dir (lookup (w_fs ?w1) (resolve ?p))"
    using w1 assms(4) unlink_cases[of ?p w] by (elim disjE; auto)
  have t1: "touches {resolve ?p} w ?w1" using w1 touches_unlink[of ?p w] by (elim disjE; simp)
  have e: "snd (ipc_close s w) = snd (os_remove ?p ?w1)" by (rule ipc_close_world[OF assms(3)])
  have gone: "lookup (w_fs (snd (ipc_close s w))) (resolve ?p) = None"
    unfolding e by (rule remove_gone[OF q nd])
  have touched: "touches {resolve ?p} w (snd (ipc_close s w))"
    unfolding e by (rule touches_trans[OF t1 touches_remove])
  let ?s2 = "fst (ipc_close s w)" and ?w2 = "snd (ipc_close s w)"
  have s2: "is_socket_path ?s2 = ?p" "ipc_ok ?s2" "is_server ?s2 \<noteq> Some True"
    "\<forall>l. is_listener ?s2 = Some l \<longrightarrow> \<not> ul_open l"
    using ipc_ok_close[OF assms(3)]
    by (auto simp: ipc_close_def close_unix_def Let_def split: prod.splits option.splits)
  have "snd (ipc_close ?s2 ?w2) = snd (os_remove ?p ?w2)"
    using ipc_close_world[OF s2(2), of ?w2] s2(1,4) by (simp split: option.splits)
  moreover have "w_fs (snd (os_remove ?p ?w2)) = w_fs ?w2"
    using gone by (rule remove_missing)
  ultimately show ?thesis using gone touched s2(3) by simp
qed

theorem ipc_close_removes_socket_witness:
  "lookup (w_fs (snd (ipc_close (new_ipc_server socket_path)
     (boot_world\<lparr>w_fs := put [''run'', ''stereos'', ''stereosd.sock'']
        (File \<lparr>m_mode = 0x1B0, m_uid = 0, m_gid = 0\<rparr> []) (w_fs boot_world)\<rparr>))))
     [''run'', ''stereos'', ''stereosd.sock''] = None"
proof -
  let ?w = "boot_world\<lparr>w_fs := put [''run'', ''stereos'', ''stereosd.sock'']
        (File \<lparr>m_mode = 0x1B0, m_uid = 0, m_gid = 0\<rparr> []) (w_fs boot_world)\<rparr>"
  have r: "resolve socket_path = [''run'', ''stereos'', ''stereosd.sock'']" by code_simp
  have f: "fs_ok (w_fs ?w)" by code_simp
  have n: "no_faults ?w" using boot_facts(1) by (simp add: no_faults_def)
  have p: "is_socket_path (new_ipc_server socket_path) = socket_path" by (simp add: new_ipc_server_def)
  have "\<not> is_dir (lookup (w_fs ?w) (resolve socket_path))" by (simp add: r)
  then show ?thesis
    using ipc_close_removes_socket[OF n f ipc_ok_new, of socket_path] p r by simp
qed

theorem ipc_start_socket_witness:
  "\<exists>m. lookup (w_fs (snd (snd (ipc_start (new_ipc_server socket_path) boot_world))))
     [''run'', ''stereos'', ''stereosd.sock''] = Some (File m []) \<and> m_mode m = 0x1B0"
proof -
  have "resolve socket_path = [''run'', ''stereos'', ''stereosd.sock'']"
    "fst (ipc_start (new_ipc_server socket_path) boot_world) = None"
    by code_simp+
  moreover have "is_socket_path (new_ipc_server socket_path) = socket_path" by (simp add: new_ipc_server_def)
  ultimately show ?thesis using ipc_start_socket[of "new_ipc_server socket_path" boot_world] by simp
qed

subsection \<open>Cancellation and Close at the same time\<close>

text \<open>
  When the context is cancelled, the goroutine of Serve drains the server, Serve returns, and the
  main goroutine closes the server; nothing orders the three.
\<close>

datatype down = Drain | Finish "go_error option" | CloseServer

fun down_step :: "down \<Rightarrow> ipc_server \<times> world \<Rightarrow> ipc_server \<times> world" where
  "down_step Drain (s, w) = ipc_drain s w"
| "down_step (Finish r) (s, w) = snd (ipc_finish r s w)"
| "down_step CloseServer (s, w) = ipc_close s w"

definition down_ok :: "ipc_server \<times> world \<Rightarrow> bool" where
  "down_ok x \<longleftrightarrow> (case x of (s, w) \<Rightarrow> ipc_ok s \<and> no_faults w \<and> fs_ok (w_fs w) \<and>
     \<not> is_dir (lookup (w_fs w) (resolve (is_socket_path s))))"

definition socket_gone :: "ipc_server \<times> world \<Rightarrow> bool" where
  "socket_gone x \<longleftrightarrow> (case x of (s, w) \<Rightarrow> lookup (w_fs w) (resolve (is_socket_path s)) = None)"

lemma unlink_ok:
  assumes "no_faults w" and "fs_ok (w_fs w)" and "\<not> is_dir (lookup (w_fs w) (resolve p))"
  shows "no_faults (unlink p w)" and "fs_ok (w_fs (unlink p w))" and "lookup (w_fs (unlink p w)) (resolve p) = None"
    and "touches {resolve p} w (unlink p w)"
proof -
  show "lookup (w_fs (unlink p w)) (resolve p) = None"
    using assms(1,3) by (auto simp: unlink_def call_unfold no_faults_def split: option.split node.split)
qed (use assms unlink_fs_ok touches_unlink in auto)

lemma close_listener_ok:
  assumes "down_ok (s, w)" and "is_listener s = Some l"
  shows "ul_path (fst (close_unix l w)) = is_socket_path s" and "no_faults (snd (close_unix l w))"
    and "fs_ok (w_fs (snd (close_unix l w)))" and "\<not> is_dir (lookup (w_fs (snd (close_unix l w))) (resolve (is_socket_path s)))"
    and "touches {resolve (is_socket_path s)} w (snd (close_unix l w))"
    and "lookup (w_fs w) (resolve (is_socket_path s)) = None \<Longrightarrow>
      lookup (w_fs (snd (close_unix l w))) (resolve (is_socket_path s)) = None"
    and "ul_open l \<Longrightarrow> lookup (w_fs (snd (close_unix l w))) (resolve (is_socket_path s)) = None"
  using assms unlink_ok[of w "is_socket_path s"] by (auto simp: close_unix_def down_ok_def ipc_ok_def)

lemma ipc_close_drain:
  "ipc_close s w = (let (s1, w1) = ipc_drain s w in (s1, snd (os_remove (is_socket_path s) w1)))"
  by (simp add: ipc_close_def ipc_drain_def Let_def split: option.split prod.split)

lemma down_remove:
  assumes "down_ok (s, w)"
  shows "down_ok (s, snd (os_remove (is_socket_path s) w))"
    and "socket_gone (s, snd (os_remove (is_socket_path s) w))"
proof -
  let ?w' = "snd (os_remove (is_socket_path s) w)"
  have w: "no_faults w" "fs_ok (w_fs w)" "ipc_ok s" "\<not> is_dir (lookup (w_fs w) (resolve (is_socket_path s)))"
    using assms by (simp_all add: down_ok_def)
  have gone: "lookup (w_fs ?w') (resolve (is_socket_path s)) = None" by (rule remove_gone[OF w(1,2,4)])
  have "no_faults ?w'" using env_of_no_faults[OF env_remove] w(1) by simp
  moreover have "fs_ok (w_fs ?w')" by (rule fs_ok_now[OF ok_remove[OF w(2)] w(2)])
  ultimately show "down_ok (s, ?w')" "socket_gone (s, ?w')"
    using gone w(3) by (simp_all add: down_ok_def socket_gone_def)
qed

lemma drain_ok:
  assumes "down_ok (s, w)" and "ipc_drain s w = (s', w')"
  shows "down_ok (s', w')" and "is_socket_path s' = is_socket_path s"
    and "touches {resolve (is_socket_path s)} w w'" and "socket_gone (s, w) \<Longrightarrow> socket_gone (s', w')"
  using close_listener_ok[OF assms(1)] assms
  by (auto simp: ipc_drain_def down_ok_def ipc_ok_def socket_gone_def Let_def split: option.splits prod.splits)

lemma down_step_ok:
  assumes "down_ok x"
  shows "down_ok (down_step a x) \<and> is_socket_path (fst (down_step a x)) = is_socket_path (fst x) \<and>
    touches {resolve (is_socket_path (fst x))} (snd x) (snd (down_step a x)) \<and>
    (socket_gone x \<or> a = CloseServer \<longrightarrow> socket_gone (down_step a x))"
proof -
  obtain s w where x: "x = (s, w)" by force
  obtain s1 w1 where d: "ipc_drain s w = (s1, w1)" by force
  note dr = drain_ok[OF assms[unfolded x] d] and ok = close_listener_ok[OF assms[unfolded x]]
  show ?thesis
  proof (cases a)
    case Drain
    then show ?thesis using dr d x by simp
  next
    case (Finish r)
    then show ?thesis
      using ok assms x by (auto simp: ipc_finish_def down_ok_def ipc_ok_def socket_gone_def split: option.split prod.split)
  next
    case CloseServer
    then show ?thesis
      using dr(2) down_remove[OF dr(1)] touches_trans[OF dr(3) touches_remove] x d
      by (simp add: ipc_close_drain)
  qed
qed

text \<open>However the draining after a cancellation, the return of Serve and the Close of the main
  goroutine are ordered and repeated, the socket file is gone once Close was among them, no path
  but that of the socket is touched, and nothing brings the file back.\<close>

theorem ipc_down_any_order:
  assumes "no_faults w" and "fs_ok (w_fs w)" and "ipc_ok s"
    and "\<not> is_dir (lookup (w_fs w) (resolve (is_socket_path s)))" and "CloseServer \<in> set as"
  shows "lookup (w_fs (snd (fold down_step as (s, w)))) (resolve (is_socket_path s)) = None \<and>
    touches {resolve (is_socket_path s)} w (snd (fold down_step as (s, w)))"
proof -
  have "down_ok (fold down_step as x) \<and> is_socket_path (fst (fold down_step as x)) = is_socket_path (fst x) \<and>
      touches {resolve (is_socket_path (fst x))} (snd x) (snd (fold down_step as x)) \<and>
      (socket_gone x \<or> CloseServer \<in> set as \<longrightarrow> socket_gone (fold down_step as x))" if "down_ok x" for x
    using that
  proof (induction as arbitrary: x)
    case (Cons a as)
    show ?case
      using Cons.IH[of "down_step a x"] down_step_ok[OF Cons.prems, of a]
        touches_trans[of "{resolve (is_socket_path (fst x))}" "snd x" "snd (down_step a x)"] by auto
  qed simp
  from this[of "(s, w)"] show ?thesis
    using assms by (auto simp: down_ok_def socket_gone_def split_beta)
qed

end
