(* ===== verification/Net.thy ===== *)
theory Net
  imports GoErrors "HOL-Library.Word"
begin

text \<open>
  Sockets as the kernel keeps them: the open descriptors of the process, each with what it
  stands for. Every call may fail; the field \<open>n_fail\<close> says whether the n-th call does.
  The last part states what the control plane relies on in a listener, whatever its
  transport is.
\<close>

datatype endpoint =
    DevFile string
  | VsockNew
  | VsockBound "32 word" "32 word"
  | VsockListening "32 word" "32 word"
  | VsockStream
  | TcpListening string
  | TcpStream

record net =
  n_open :: "(int \<times> endpoint) list"
  n_local_cid :: "32 word"
  n_calls :: nat
  n_fail :: "nat \<Rightarrow> errno option"

definition net_call :: "net \<Rightarrow> errno option \<times> net" where
  "net_call n = (n_fail n (n_calls n), n\<lparr>n_calls := Suc (n_calls n)\<rparr>)"

text \<open>The lowest descriptor that is not open.\<close>

definition free_fd :: "net \<Rightarrow> int" where
  "free_fd n =
     (case find (\<lambda>i. int i \<notin> fst ` set (n_open n)) [0..<Suc (length (n_open n))] of
        Some i \<Rightarrow> int i
      | None \<Rightarrow> 0)"

lemma free_fd_free: "0 \<le> free_fd n \<and> free_fd n \<notin> fst ` set (n_open n)"
proof -
  have "\<exists>i\<in>set [0..<Suc (length (n_open n))]. int i \<notin> fst ` set (n_open n)"
  proof (rule ccontr)
    assume "\<not> ?thesis"
    then have "int ` set [0..<Suc (length (n_open n))] \<subseteq> fst ` set (n_open n)" by blast
    then have "card (int ` set [0..<Suc (length (n_open n))]) \<le> card (fst ` set (n_open n))"
      by (intro card_mono) simp_all
    also have "\<dots> \<le> length (n_open n)" by (metis card_length length_map set_map)
    finally show False by (simp add: card_image inj_on_def del: upt_Suc)
  qed
  then obtain i where i: "find (\<lambda>i. int i \<notin> fst ` set (n_open n)) [0..<Suc (length (n_open n))] = Some i"
    by (metis (mono_tags, lifting) find_None_iff option.exhaust)
  then have "int i \<notin> fst ` set (n_open n)" by (auto simp: find_Some_iff)
  with i show ?thesis by (simp add: free_fd_def del: upt_Suc)
qed

definition open_fd :: "endpoint \<Rightarrow> net \<Rightarrow> int \<times> net" where
  "open_fd ep n = (free_fd n, n\<lparr>n_open := (free_fd n, ep) # n_open n\<rparr>)"

definition set_fd :: "int \<Rightarrow> endpoint \<Rightarrow> net \<Rightarrow> net" where
  "set_fd fd ep n = n\<lparr>n_open := AList.update fd ep (n_open n)\<rparr>"

definition close_fd :: "int \<Rightarrow> net \<Rightarrow> net" where
  "close_fd fd n = n\<lparr>n_open := AList.delete fd (n_open n)\<rparr>"

subsection \<open>Calls\<close>

text \<open>A call that gives a descriptor, or fails with an error number.\<close>

definition open_call :: "endpoint \<Rightarrow> net \<Rightarrow> (errno + int) \<times> net" where
  "open_call ep n0 =
     (case net_call n0 of
        (Some e, n) \<Rightarrow> (Inl e, n)
      | (None, n) \<Rightarrow> (let (fd, n') = open_fd ep n in (Inr fd, n')))"

text \<open>A call on an open descriptor that changes what it stands for.\<close>

definition change_call :: "int \<Rightarrow> endpoint \<Rightarrow> net \<Rightarrow> errno option \<times> net" where
  "change_call fd ep n0 =
     (case net_call n0 of (Some e, n) \<Rightarrow> (Some e, n) | (None, n) \<Rightarrow> (None, set_fd fd ep n))"

definition sys_close :: "int \<Rightarrow> net \<Rightarrow> errno option \<times> net" where
  "sys_close fd n0 = (let (r, n) = net_call n0 in (r, close_fd fd n))"

text \<open>The ioctl that reads the local context id.\<close>

definition sys_local_cid :: "net \<Rightarrow> (errno + 32 word) \<times> net" where
  "sys_local_cid n0 =
     (case net_call n0 of (Some e, n) \<Rightarrow> (Inl e, n) | (None, n) \<Rightarrow> (Inr (n_local_cid n), n))"

text \<open>The open descriptors with what they stand for, as a map.\<close>

definition fds :: "net \<Rightarrow> int \<Rightarrow> endpoint option" where
  "fds n = map_of (n_open n)"

lemma fds_close [simp]: "fds (close_fd fd n) = (fds n)(fd := None)"
  by (simp add: fds_def close_fd_def fun_eq_iff delete_conv')

lemma fds_set [simp]: "fds (set_fd fd ep n) = (fds n)(fd \<mapsto> ep)"
  by (simp add: fds_def set_fd_def fun_eq_iff update_conv')

lemma fds_free [simp]: "fds n (free_fd n) = None"
  using free_fd_free[of n] by (auto simp: fds_def map_of_eq_None_iff)

lemma fds_calls [simp]: "fds (n\<lparr>n_calls := k\<rparr>) = fds n"
  by (simp add: fds_def)

lemma open_call_result:
  "open_call ep n = (r, n') \<Longrightarrow>
   (case r of Inl e \<Rightarrow> fds n' = fds n | Inr fd \<Rightarrow> 0 \<le> fd \<and> fds n fd = None \<and> fds n' = (fds n)(fd \<mapsto> ep))"
  using fds_free[of "n\<lparr>n_calls := Suc (n_calls n)\<rparr>"] free_fd_free[of "n\<lparr>n_calls := Suc (n_calls n)\<rparr>"]
  by (auto simp: open_call_def net_call_def open_fd_def split: option.splits)
     (auto simp: fds_def fun_eq_iff)

lemma change_call_result:
  "change_call fd ep n = (r, n') \<Longrightarrow> fds n' = (if r = None then (fds n)(fd \<mapsto> ep) else fds n)"
  by (auto simp: change_call_def net_call_def split: option.splits)

lemma sys_close_result: "fds (snd (sys_close fd n)) = (fds n)(fd := None)"
  by (simp add: sys_close_def net_call_def)

lemma sys_close_eq: "sys_close fd n = (r, n') \<Longrightarrow> fds n' = (fds n)(fd := None)"
  using sys_close_result[of fd n] by simp

lemma sys_local_cid_result:
  "sys_local_cid n = (r, n') \<Longrightarrow>
   fds n' = fds n \<and> r = (case n_fail n (n_calls n) of Some e \<Rightarrow> Inl e | None \<Rightarrow> Inr (n_local_cid n))"
  by (auto simp: sys_local_cid_def net_call_def split: option.splits)

subsection \<open>What the control plane relies on\<close>

text \<open>
  A constructor of listeners and its \<open>Close\<close>: a failing constructor leaves no descriptor
  behind, a succeeding one opens exactly the listener's, and closing releases exactly that.
\<close>

locale listener_provider =
  fixes mk :: "'a \<Rightarrow> net \<Rightarrow> (go_error + 'l) \<times> net"
    and fd_of :: "'l \<Rightarrow> int"
    and close :: "'l \<Rightarrow> net \<Rightarrow> errno option \<times> net"
    and listening :: "'a \<Rightarrow> endpoint"
  assumes mk_fails: "mk a n = (Inl e, n') \<Longrightarrow> fds n' = fds n"
    and mk_opens: "mk a n = (Inr l, n') \<Longrightarrow>
      fds n (fd_of l) = None \<and> fds n' = (fds n)(fd_of l \<mapsto> listening a)"
    and close_releases: "fds (snd (close l n)) = (fds n)(fd_of l := None)"
begin

lemma mk_cases:
  "case mk a n of
     (Inl e, n') \<Rightarrow> fds n' = fds n
   | (Inr l, n') \<Rightarrow> fds n (fd_of l) = None \<and> fds n' = (fds n)(fd_of l \<mapsto> listening a)"
  using mk_fails mk_opens by (auto split: prod.split sum.split)

text \<open>Opening a listener and closing it again leaves no descriptor.\<close>

lemma mk_close: "mk a n = (Inr l, n') \<Longrightarrow> fds (snd (close l n')) = fds n"
  using mk_opens[of a n l n'] close_releases[of l n'] by (auto simp: fun_eq_iff)

end

end
