(* ===== verification/Vsock.thy ===== *)
theory Vsock
  imports Net
begin

text \<open>
  The virtio-vsock transport (pkg/vsock): the listener over a raw descriptor, the check
  that a transport is attached, and the connections it accepts. Reading, writing and the
  deadlines of a connection are the calls of \<open>os.File\<close> on its descriptor, a parameter. The CLOEXEC
  flag and the backlog of NewListener are not represented.
\<close>

definition dev_vsock_path :: string where
  "dev_vsock_path = ''/dev/vsock''"

definition vsock_network :: string where
  "vsock_network = ''vsock''"

record vsock_addr =
  va_cid :: "32 word"
  va_port :: "32 word"

definition addr_network :: "vsock_addr \<Rightarrow> string" where
  "addr_network a = vsock_network"

definition show_word :: "32 word \<Rightarrow> string" where
  "show_word x = show_nat (unat x)"

definition addr_string :: "vsock_addr \<Rightarrow> string" where
  "addr_string a = ''vsock('' @ show_word (va_cid a) @ '':'' @ show_word (va_port a) @ '')''"

definition vmaddr_cid_any :: "32 word" where
  "vmaddr_cid_any = 0xFFFFFFFF"

subsection \<open>The listener\<close>

record vsock_listener =
  vl_fd :: int
  vl_port :: "32 word"

definition new_vsock_listener :: "32 word \<Rightarrow> net \<Rightarrow> (go_error + vsock_listener) \<times> net" where
  "new_vsock_listener port n =
     (case open_call VsockNew n of
        (Inl e, n1) \<Rightarrow> (Inl (ErrWrap ''vsock socket: '' (ErrnoErr e)), n1)
      | (Inr fd, n1) \<Rightarrow>
     (case change_call fd (VsockBound vmaddr_cid_any port) n1 of
        (Some e, n2) \<Rightarrow>
          (let (ignored, n3) = sys_close fd n2
           in (Inl (ErrWrap (''vsock bind port '' @ show_word port @ '': '') (ErrnoErr e)), n3))
      | (None, n2) \<Rightarrow>
     (case change_call fd (VsockListening vmaddr_cid_any port) n2 of
        (Some e, n3) \<Rightarrow>
          (let (ignored, n4) = sys_close fd n3 in (Inl (ErrWrap ''vsock listen: '' (ErrnoErr e)), n4))
      | (None, n3) \<Rightarrow> (Inr \<lparr>vl_fd = fd, vl_port = port\<rparr>, n3))))"

definition vsock_close :: "vsock_listener \<Rightarrow> net \<Rightarrow> errno option \<times> net" where
  "vsock_close l n = sys_close (vl_fd l) n"

definition vsock_addr_of :: "vsock_listener \<Rightarrow> vsock_addr" where
  "vsock_addr_of l = \<lparr>va_cid = vmaddr_cid_any, va_port = vl_port l\<rparr>"

text \<open>The device is opened, asked and closed again; a failure at any step means no.\<close>

definition transport_available :: "net \<Rightarrow> bool \<times> net" where
  "transport_available n =
     (case open_call (DevFile dev_vsock_path) n of
        (Inl e, n1) \<Rightarrow> (False, n1)
      | (Inr fd, n1) \<Rightarrow>
     (case sys_local_cid n1 of
        (Inl e, n2) \<Rightarrow> (let (ignored, n3) = sys_close fd n2 in (False, n3))
      | (Inr cid, n2) \<Rightarrow>
          (let (ignored, n3) = sys_close fd n2 in (3 \<le> cid \<and> cid \<noteq> vmaddr_cid_any, n3))))"

subsection \<open>Connections\<close>

record vsock_conn =
  vc_fd :: int
  vc_remote :: vsock_addr
  vc_local :: vsock_addr

text \<open>\<open>os.NewFile\<close> gives nil for a negative descriptor.\<close>

definition os_new_file :: "int \<Rightarrow> int option" where
  "os_new_file fd = (if fd < 0 then None else Some fd)"

text \<open>\<open>peer\<close> is the address the kernel reports, when it is one of the vsock family.\<close>

definition vsock_accept ::
  "vsock_listener \<Rightarrow> (32 word \<times> 32 word) option \<Rightarrow> net \<Rightarrow> (go_error + vsock_conn) \<times> net" where
  "vsock_accept l peer n =
     (case open_call VsockStream n of
        (Inl e, n1) \<Rightarrow> (Inl (ErrnoErr e), n1)
      | (Inr nfd, n1) \<Rightarrow>
          (let (remote_cid, remote_port) = (case peer of Some (c, p) \<Rightarrow> (c, p) | None \<Rightarrow> (0, 0)) in
           case os_new_file nfd of
             None \<Rightarrow>
               (let (ignored, n2) = sys_close nfd n1
                in (Inl (ErrMsg (''vsock accept: invalid fd '' @ show_int nfd)), n2))
           | Some file \<Rightarrow>
               (Inr \<lparr>vc_fd = file,
                     vc_remote = \<lparr>va_cid = remote_cid, va_port = remote_port\<rparr>,
                     vc_local = \<lparr>va_cid = vmaddr_cid_any, va_port = vl_port l\<rparr>\<rparr>, n1)))"

definition conn_close :: "vsock_conn \<Rightarrow> net \<Rightarrow> errno option \<times> net" where
  "conn_close c n = sys_close (vc_fd c) n"

definition conn_remote_addr :: "vsock_conn \<Rightarrow> vsock_addr" where
  "conn_remote_addr c = vc_remote c"

definition conn_local_addr :: "vsock_conn \<Rightarrow> vsock_addr" where
  "conn_local_addr c = vc_local c"

text \<open>
  The calls of \<open>os.File\<close> are a parameter: what each does to the files \<open>'f\<close> of the process, given
  the descriptor. Reading takes the size of the buffer, and a deadline is a time in nanoseconds.
\<close>

record 'f file_ops =
  fo_read :: "int \<Rightarrow> nat \<Rightarrow> 'f \<Rightarrow> (go_error + string) \<times> 'f"
  fo_write :: "int \<Rightarrow> string \<Rightarrow> 'f \<Rightarrow> (go_error + nat) \<times> 'f"
  fo_set_deadline :: "int \<Rightarrow> int \<Rightarrow> 'f \<Rightarrow> go_error option \<times> 'f"
  fo_set_read_deadline :: "int \<Rightarrow> int \<Rightarrow> 'f \<Rightarrow> go_error option \<times> 'f"
  fo_set_write_deadline :: "int \<Rightarrow> int \<Rightarrow> 'f \<Rightarrow> go_error option \<times> 'f"

definition conn_read :: "'f file_ops \<Rightarrow> vsock_conn \<Rightarrow> nat \<Rightarrow> 'f \<Rightarrow> (go_error + string) \<times> 'f" where
  "conn_read ops c len f = fo_read ops (vc_fd c) len f"

definition conn_write :: "'f file_ops \<Rightarrow> vsock_conn \<Rightarrow> string \<Rightarrow> 'f \<Rightarrow> (go_error + nat) \<times> 'f" where
  "conn_write ops c b f = fo_write ops (vc_fd c) b f"

definition conn_set_deadline :: "'f file_ops \<Rightarrow> vsock_conn \<Rightarrow> int \<Rightarrow> 'f \<Rightarrow> go_error option \<times> 'f" where
  "conn_set_deadline ops c t f = fo_set_deadline ops (vc_fd c) t f"

definition conn_set_read_deadline :: "'f file_ops \<Rightarrow> vsock_conn \<Rightarrow> int \<Rightarrow> 'f \<Rightarrow> go_error option \<times> 'f" where
  "conn_set_read_deadline ops c t f = fo_set_read_deadline ops (vc_fd c) t f"

definition conn_set_write_deadline :: "'f file_ops \<Rightarrow> vsock_conn \<Rightarrow> int \<Rightarrow> 'f \<Rightarrow> go_error option \<times> 'f" where
  "conn_set_write_deadline ops c t f = fo_set_write_deadline ops (vc_fd c) t f"

subsection \<open>Other platforms\<close>

definition new_listener_other :: "32 word \<Rightarrow> net \<Rightarrow> (go_error + vsock_listener) \<times> net" where
  "new_listener_other port n = (Inl (ErrMsg ''AF_VSOCK not available on this platform''), n)"

definition transport_available_other :: bool where
  "transport_available_other = False"

subsection \<open>Descriptors\<close>

lemma new_vsock_listener_fds:
  "new_vsock_listener port n = (r, n') \<Longrightarrow>
   (case r of Inl e \<Rightarrow> fds n' = fds n
    | Inr l \<Rightarrow> vl_port l = port \<and> fds n (vl_fd l) = None \<and>
        fds n' = (fds n)(vl_fd l \<mapsto> VsockListening vmaddr_cid_any port))"
  by (auto simp: new_vsock_listener_def fun_eq_iff split: prod.splits sum.splits option.splits
        dest!: open_call_result change_call_result sys_close_eq)

interpretation vsock_lq: listener_provider new_vsock_listener vl_fd vsock_close
    "\<lambda>port. VsockListening vmaddr_cid_any port"
  by unfold_locales
    (auto simp: vsock_close_def sys_close_result dest!: new_vsock_listener_fds)

lemma transport_available_fds: "fds (snd (transport_available n)) = fds n"
  by (auto simp: transport_available_def fun_eq_iff split: prod.splits sum.splits
        dest!: open_call_result sys_local_cid_result sys_close_eq)

text \<open>Whatever fails, creating a vsock listener never leaks a descriptor: on an error every
  descriptor of the process is as before, and on success exactly one more is open, listening
  on the requested port for any context id. Closing the listener releases it again.\<close>

theorem vsock_listener_no_leak:
  "(case new_vsock_listener port n of
      (Inl e, n') \<Rightarrow> fds n' = fds n
    | (Inr l, n') \<Rightarrow>
        fds n (vl_fd l) = None \<and> fds n' = (fds n)(vl_fd l \<mapsto> VsockListening vmaddr_cid_any port) \<and>
        fds (snd (vsock_close l n')) = fds n)"
  using vsock_lq.mk_cases[where a = port and n = n] vsock_lq.mk_close[where a = port and n = n] by (auto split: prod.splits sum.splits)

lemma open_call_ok:
  "n_fail n (n_calls n) = None \<Longrightarrow>
   open_call ep n = (Inr (free_fd (n\<lparr>n_calls := Suc (n_calls n)\<rparr>)),
     n\<lparr>n_calls := Suc (n_calls n), n_open := (free_fd (n\<lparr>n_calls := Suc (n_calls n)\<rparr>), ep) # n_open n\<rparr>)"
  by (simp add: open_call_def net_call_def open_fd_def)

text \<open>The check for a transport answers yes exactly when the device opens, the query
  succeeds, and the local context id is one a hypervisor assigns to a guest: at least 3 and
  not the wildcard. It leaves no descriptor open in any case.\<close>

theorem transport_available_iff:
  "(fst (transport_available n) \<longleftrightarrow>
      n_fail n (n_calls n) = None \<and> n_fail n (Suc (n_calls n)) = None \<and>
      3 \<le> unat (n_local_cid n) \<and> unat (n_local_cid n) < 2 ^ 32 - 1) \<and>
   fds (snd (transport_available n)) = fds n"
proof -
  have any: "c \<noteq> vmaddr_cid_any \<longleftrightarrow> unat c < 2 ^ 32 - 1" for c :: "32 word"
  proof -
    have "unat c \<noteq> 2 ^ 32 - 1 \<longleftrightarrow> c \<noteq> vmaddr_cid_any"
      using word_unat_eq_iff[of c "0xFFFFFFFF"] by (simp add: vmaddr_cid_any_def)
    moreover have "unat c < 2 ^ 32" using unsigned_less[of c] by simp
    ultimately show ?thesis by auto
  qed
  have three: "3 \<le> c \<longleftrightarrow> 3 \<le> unat c" for c :: "32 word"
    by (simp add: word_le_nat_alt)
  show ?thesis
    using transport_available_fds[of n] any three
    by (auto simp: transport_available_def open_call_def open_fd_def net_call_def sys_local_cid_def
          split: option.split prod.split sum.split)
qed

text \<open>An accepted connection carries the address the kernel reported (zero when it is not a
  vsock address) and the wildcard with the listener's port as its own; the branch for an
  invalid descriptor is never taken, and a failed accept opens nothing.\<close>

theorem vsock_accept_result:
  "(case vsock_accept l peer n of
      (Inl e, n') \<Rightarrow> (\<exists>x. e = ErrnoErr x) \<and> fds n' = fds n
    | (Inr c, n') \<Rightarrow>
        fds n (vc_fd c) = None \<and> fds n' = (fds n)(vc_fd c \<mapsto> VsockStream) \<and>
        (va_cid (vc_remote c), va_port (vc_remote c)) = (case peer of Some a \<Rightarrow> a | None \<Rightarrow> (0, 0)) \<and>
        vc_local c = vsock_addr_of l)"
proof -
  obtain r n1 where o: "open_call VsockStream n = (r, n1)" by force
  show ?thesis
    using open_call_result[OF o]
    by (cases r; cases peer) (auto simp: vsock_accept_def o os_new_file_def vsock_addr_of_def)
qed

text \<open>Connections accepted one after the other have descriptors of their own, so a read, a write or
  a deadline of one never concerns the other; closing them, in either order, leaves the
  descriptors as they were before.\<close>

lemma vsock_conns_apart:
  assumes "vsock_accept l p1 n = (Inr c1, n1)" and "vsock_accept l p2 n1 = (Inr c2, n2)"
  shows "vc_fd c1 \<noteq> vc_fd c2"
    and "fds (snd (conn_close c1 (snd (conn_close c2 n2)))) = fds n"
    and "fds (snd (conn_close c2 (snd (conn_close c1 n2)))) = fds n"
proof -
  have f: "fds n (vc_fd c1) = None" "fds n1 = (fds n)(vc_fd c1 \<mapsto> VsockStream)"
      "fds n1 (vc_fd c2) = None" "fds n2 = (fds n1)(vc_fd c2 \<mapsto> VsockStream)"
    using vsock_accept_result[where l = l and peer = p1 and n = n] vsock_accept_result[where l = l and peer = p2 and n = n1] assms by simp_all
  then show neq: "vc_fd c1 \<noteq> vc_fd c2" by auto
  show "fds (snd (conn_close c1 (snd (conn_close c2 n2)))) = fds n"
    "fds (snd (conn_close c2 (snd (conn_close c1 n2)))) = fds n"
    using f neq by (auto simp: conn_close_def sys_close_result fun_eq_iff)
qed

end
