(* ===== verification/Tcp.thy ===== *)
theory Tcp
  imports Vsock
begin

text \<open>
  The TCP listener that replaces vsock in development (pkg/tcp). \<open>net.Listen\<close> refuses a
  port of more than 16 bits before it asks the kernel for anything.
\<close>

definition net_listen_tcp :: "string \<Rightarrow> net \<Rightarrow> (go_error + int) \<times> net" where
  "net_listen_tcp addr n =
     (let port = last (split_on (CHR '':'') addr) in
      case read_nat port of
        None \<Rightarrow> (Inl (ErrMsg (''listen tcp: lookup tcp/'' @ port @ '': unknown port'')), n)
      | Some p \<Rightarrow>
          if 65535 < p then (Inl (ErrMsg (''listen tcp: address '' @ port @ '': invalid port'')), n)
          else
            (case open_call (TcpListening addr) n of
               (Inl e, n1) \<Rightarrow> (Inl (ErrWrap (''listen tcp '' @ addr @ '': '') (ErrnoErr e)), n1)
             | (Inr fd, n1) \<Rightarrow> (Inr fd, n1)))"

record tcp_listener =
  tl_fd :: int
  tl_addr :: string

definition tcp_address :: "32 word \<Rightarrow> string" where
  "tcp_address port = ''0.0.0.0:'' @ show_word port"

definition new_tcp_listener :: "32 word \<Rightarrow> net \<Rightarrow> (go_error + tcp_listener) \<times> net" where
  "new_tcp_listener port n =
     (let addr = tcp_address port in
      case net_listen_tcp addr n of
        (Inl e, n1) \<Rightarrow> (Inl (ErrWrap (''tcp listen '' @ addr @ '': '') e), n1)
      | (Inr fd, n1) \<Rightarrow> (Inr \<lparr>tl_fd = fd, tl_addr = addr\<rparr>, n1))"

definition tcp_accept :: "tcp_listener \<Rightarrow> net \<Rightarrow> (errno + int) \<times> net" where
  "tcp_accept l n = open_call TcpStream n"

definition tcp_close :: "tcp_listener \<Rightarrow> net \<Rightarrow> errno option \<times> net" where
  "tcp_close l n = sys_close (tl_fd l) n"

definition tcp_addr_of :: "tcp_listener \<Rightarrow> string" where
  "tcp_addr_of l = tl_addr l"

lemma tcp_port_text: "last (split_on (CHR '':'') (tcp_address port)) = show_word port"
proof -
  have "CHR '':'' \<notin> set (show_nat (unat port))"
    using show_nat_digits[of "unat port"] by (auto simp: list_all_iff is_digit_def)
  then show ?thesis
    using split_on_append_sep[of "CHR '':''" "''0.0.0.0''" "show_word port"]
    by (simp add: tcp_address_def show_word_def split_on_no_sep)
qed

lemma new_tcp_listener_unfold:
  "new_tcp_listener port n =
     (if 65535 < unat port then
        (Inl (ErrWrap (''tcp listen '' @ tcp_address port @ '': '')
           (ErrMsg (''listen tcp: address '' @ show_word port @ '': invalid port''))), n)
      else case open_call (TcpListening (tcp_address port)) n of
        (Inl e, n1) \<Rightarrow>
          (Inl (ErrWrap (''tcp listen '' @ tcp_address port @ '': '')
             (ErrWrap (''listen tcp '' @ tcp_address port @ '': '') (ErrnoErr e))), n1)
      | (Inr fd, n1) \<Rightarrow> (Inr \<lparr>tl_fd = fd, tl_addr = tcp_address port\<rparr>, n1))"
  by (simp add: new_tcp_listener_def net_listen_tcp_def Let_def tcp_port_text show_word_def
        split: prod.split sum.split)

interpretation tcp_lq: listener_provider new_tcp_listener tl_fd tcp_close
    "\<lambda>port. TcpListening (tcp_address port)"
  by unfold_locales
    (auto simp: new_tcp_listener_unfold tcp_close_def sys_close_result
       split: if_splits prod.splits sum.splits dest!: open_call_result)

text \<open>A TCP listener is created exactly when the port fits in 16 bits and the kernel call
  does not fail, although the port is configured as a 32-bit number: a larger port is refused
  without any system call, and no error leaves a descriptor open.\<close>

theorem tcp_listener_ports:
  "((\<exists>l. fst (new_tcp_listener port n) = Inr l) \<longleftrightarrow>
      unat port < 2 ^ 16 \<and> n_fail n (n_calls n) = None) \<and>
   (2 ^ 16 \<le> unat port \<longrightarrow> snd (new_tcp_listener port n) = n) \<and>
   (\<forall>e n'. new_tcp_listener port n = (Inl e, n') \<longrightarrow> fds n' = fds n)"
  using tcp_lq.mk_fails[where a = port and n = n]
  by (auto simp: new_tcp_listener_unfold open_call_def open_fd_def net_call_def split: option.splits)

theorem tcp_listener_ports_witness:
  "snd (new_tcp_listener 0x11170 \<lparr>n_open = [], n_local_cid = 2, n_calls = 0, n_fail = \<lambda>k. None\<rparr>) =
   \<lparr>n_open = [], n_local_cid = 2, n_calls = 0, n_fail = \<lambda>k. None\<rparr>"
  using tcp_listener_ports[of "0x11170" "\<lparr>n_open = [], n_local_cid = 2, n_calls = 0, n_fail = \<lambda>k. None\<rparr>"]
  by simp

end
