(* ===== verification/Daemon.thy ===== *)
theory Daemon
  imports Agentd Secrets SSHKeys Shutdown IpcServer Tcp
begin

text \<open>
  The daemon (pkg/stereosd.go): its configuration, how it is put together, the listener it
  chooses, and what it does with each message of the host. A goroutine that was started and
  has not run yet is kept in the daemon's state until the scheduler runs it.
\<close>

definition default_vsock_port :: "32 word" where
  "default_vsock_port = 1024"

definition default_vsock_cid :: "32 word" where
  "default_vsock_cid = 3"

record daemon_config =
  dc_vsock_port :: "32 word"
  dc_listen_mode :: string
  dc_socket_path :: string
  dc_agentd_socket_path :: string
  dc_poll_interval :: int
  dc_runtime_dirs :: runtime_dirs
  dc_commander :: "commander option"
  dc_poweroff_mode :: string

definition default_config :: daemon_config where
  "default_config =
     \<lparr>dc_vsock_port = default_vsock_port, dc_listen_mode = ''auto'', dc_socket_path = socket_path,
      dc_agentd_socket_path = agentd_socket_path, dc_poll_interval = default_poll_interval,
      dc_runtime_dirs = default_runtime_dirs, dc_commander = None,
      dc_poweroff_mode = poweroff_systemctl\<rparr>"

datatype listener = VsockListener vsock_listener | TcpListener tcp_listener

text \<open>
  \<open>d_shutdown_requested\<close> is whether the channel is closed, \<open>d_shutdown_once\<close> whether the
  once-guard has fired, \<open>d_jobs\<close> the shutdown goroutines that have not run.
\<close>

record daemon =
  d_config :: daemon_config
  d_lifecycle :: lifecycle_manager
  d_secrets :: secret_manager
  d_sshkeys :: ssh_key_manager
  d_mounts :: mount_manager
  d_ipc :: ipc_server
  d_agentd :: agentd_client
  d_shutdown :: shutdown_coordinator
  d_listener :: "listener option"
  d_shutdown_requested :: bool
  d_shutdown_once :: bool
  d_jobs :: "shutdown_payload list"

definition new_daemon_with_config :: "daemon_config \<Rightarrow> world \<Rightarrow> daemon" where
  "new_daemon_with_config config0 w =
     (let commander = (case dc_commander config0 of None \<Rightarrow> exec_run | Some c \<Rightarrow> c);
          config1 = (if dc_agentd_socket_path config0 = ''''
                     then config0\<lparr>dc_agentd_socket_path := agentd_socket_path\<rparr> else config0);
          config = (if dc_poll_interval config1 = 0
                    then config1\<lparr>dc_poll_interval := default_poll_interval\<rparr> else config1)
      in \<lparr>d_config = config,
          d_lifecycle = new_lifecycle_manager w,
          d_secrets = new_secret_manager (rd_secrets (dc_runtime_dirs config)),
          d_sshkeys = new_ssh_key_manager,
          d_mounts = new_mount_manager (Some commander),
          d_ipc = new_ipc_server (dc_socket_path config),
          d_agentd = new_agentd_client (dc_agentd_socket_path config),
          d_shutdown = new_shutdown_coordinator (Some commander) (dc_poweroff_mode config),
          d_listener = None,
          d_shutdown_requested = False,
          d_shutdown_once = False,
          d_jobs = []\<rparr>)"

definition new_daemon :: "world \<Rightarrow> daemon" where
  "new_daemon w = new_daemon_with_config default_config w"

text \<open>The accessors.\<close>

definition lifecycle_of :: "daemon \<Rightarrow> lifecycle_manager" where
  "lifecycle_of d = d_lifecycle d"

definition secrets_manager_of :: "daemon \<Rightarrow> secret_manager" where
  "secrets_manager_of d = d_secrets d"

definition mounts_of :: "daemon \<Rightarrow> mount_manager" where
  "mounts_of d = d_mounts d"

definition sshkeys_of :: "daemon \<Rightarrow> ssh_key_manager" where
  "sshkeys_of d = d_sshkeys d"

definition agentd_of :: "daemon \<Rightarrow> agentd_client" where
  "agentd_of d = d_agentd d"

subsection \<open>The control plane listener\<close>

text \<open>The two constructors, as values of the common interface.\<close>

definition listen_tcp :: "32 word \<Rightarrow> net \<Rightarrow> (go_error + listener) \<times> net" where
  "listen_tcp port n =
     (case new_tcp_listener port n of
        (Inl e, n1) \<Rightarrow> (Inl e, n1)
      | (Inr l, n1) \<Rightarrow> (Inr (TcpListener l), n1))"

definition listen_vsock :: "32 word \<Rightarrow> net \<Rightarrow> (go_error + listener) \<times> net" where
  "listen_vsock port n =
     (case new_vsock_listener port n of
        (Inl e, n1) \<Rightarrow> (Inl e, n1)
      | (Inr l, n1) \<Rightarrow> (Inr (VsockListener l), n1))"

definition create_listener :: "daemon \<Rightarrow> net \<Rightarrow> (go_error + listener) \<times> net" where
  "create_listener d n =
     (let port = dc_vsock_port (d_config d); mode = dc_listen_mode (d_config d) in
      case d_listener d of
        Some l \<Rightarrow> (Inr l, n)
      | None \<Rightarrow>
          (if mode = ''tcp'' then listen_tcp port n
           else if mode = ''vsock'' then listen_vsock port n
           else
             (let (available, n1) = transport_available n in
              if \<not> available then listen_tcp port n1
              else
                (case listen_vsock port n1 of
                   (Inl e, n2) \<Rightarrow> listen_tcp port n2
                 | (Inr l, n2) \<Rightarrow> (Inr l, n2)))))"

fun listener_fd :: "listener \<Rightarrow> int" where
  "listener_fd (VsockListener l) = vl_fd l"
| "listener_fd (TcpListener l) = tl_fd l"

fun listener_close :: "listener \<Rightarrow> net \<Rightarrow> errno option \<times> net" where
  "listener_close (VsockListener l) n = vsock_close l n"
| "listener_close (TcpListener l) n = tcp_close l n"

subsection \<open>Shutting down\<close>

text \<open>Closing a channel that is closed panics: \<open>None\<close>.\<close>

definition close_channel :: "bool \<Rightarrow> bool option" where
  "close_channel closed = (if closed then None else Some True)"

definition request_shutdown :: "daemon \<Rightarrow> daemon option" where
  "request_shutdown d =
     (if d_shutdown_once d then Some d
      else
        (case close_channel (d_shutdown_requested d) of
           None \<Rightarrow> None
         | Some b \<Rightarrow> Some (d\<lparr>d_shutdown_requested := b, d_shutdown_once := True\<rparr>)))"

text \<open>
  The body of a shutdown goroutine, with nothing else running beside it; the error of the
  coordinator is only logged. Its loop over the mounts is taken apart in the theory MountRace.
\<close>

definition shutdown_job :: "shutdown_payload \<Rightarrow> daemon \<Rightarrow> world \<Rightarrow> (daemon \<times> world) option" where
  "shutdown_job p d w =
     (let (r, mm, lm, w1) = execute (d_shutdown d) (Some p) (d_mounts d) (d_lifecycle d) w;
          d1 = d\<lparr>d_mounts := mm, d_lifecycle := lm\<rparr>
      in map_option (\<lambda>d2. (d2, w1)) (request_shutdown d1))"

definition start_job :: "shutdown_payload \<Rightarrow> daemon \<Rightarrow> daemon" where
  "start_job p d = d\<lparr>d_jobs := d_jobs d @ [p]\<rparr>"

subsection \<open>Messages of the host\<close>

definition reply :: "message_type \<Rightarrow> json option \<Rightarrow> go_error + envelope option" where
  "reply t p = map_sum id Some (new_envelope t (map_option Inr p))"

text \<open>The acknowledgement of a command, from the error of its operation.\<close>

definition ack_of :: "message_type \<Rightarrow> go_error option \<Rightarrow> ack_payload" where
  "ack_of t r =
     (case r of
        None \<Rightarrow> \<lparr>ap_reply_to = t, ap_ok = True, ap_error = ''''\<rparr>
      | Some e \<Rightarrow> \<lparr>ap_reply_to = t, ap_ok = False, ap_error = error_text e\<rparr>)"

definition send_ack :: "message_type \<Rightarrow> go_error option \<Rightarrow> go_error + envelope option" where
  "send_ack t r = reply msg_ack (Some (enc_ack (ack_of t r)))"

text \<open>
  The steps the commands share: decode the payload into its zero value, stop on an error,
  run the operation on it, acknowledge.
\<close>

type_synonym handled = "(go_error + envelope option) \<times> daemon \<times> world"

definition command ::
  "message_type \<Rightarrow> string \<Rightarrow> 'p decoder \<Rightarrow> 'p \<Rightarrow>
   ('p \<Rightarrow> daemon \<Rightarrow> world \<Rightarrow> go_error option \<times> daemon \<times> world) \<Rightarrow>
   envelope \<Rightarrow> daemon \<Rightarrow> world \<Rightarrow> handled" where
  "command t what dec zero run env d w =
     (case decode_payload dec env zero of
        (p, Some e) \<Rightarrow> (Inl (ErrWrap (''decode '' @ what @ '' payload: '') e), d, w)
      | (p, None) \<Rightarrow> (let (r, d1, w1) = run p d w in (send_ack t r, d1, w1)))"

definition set_config_op :: "config_payload \<Rightarrow> daemon \<Rightarrow> world \<Rightarrow> go_error option \<times> daemon \<times> world" where
  "set_config_op p d w = (let (r, w1) = os_write_file config_path (cp_content p) 0x1A4 w in (r, d, w1))"

definition inject_op :: "secret_payload \<Rightarrow> daemon \<Rightarrow> world \<Rightarrow> go_error option \<times> daemon \<times> world" where
  "inject_op p d w = (let (r, p1, w1) = inject (d_secrets d) p w in (r, d, w1))"

definition ssh_key_op :: "ssh_key_payload \<Rightarrow> daemon \<Rightarrow> world \<Rightarrow> go_error option \<times> daemon \<times> world" where
  "ssh_key_op p d w = (let (r, w1) = inject_authorized_key (d_sshkeys d) p w in (r, d, w1))"

definition mount_op :: "mount_payload \<Rightarrow> daemon \<Rightarrow> world \<Rightarrow> go_error option \<times> daemon \<times> world" where
  "mount_op p d w = (let (r, mm, w1) = mount (d_mounts d) p w in (r, d\<lparr>d_mounts := mm\<rparr>, w1))"

definition shutdown_op :: "envelope \<Rightarrow> daemon \<Rightarrow> daemon" where
  "shutdown_op env d =
     start_job
       (case env_payload env of
          None \<Rightarrow> zero_shutdown
        | Some j \<Rightarrow> fst (decode_payload dec_shutdown env zero_shutdown)) d"

definition handle_message :: "daemon \<Rightarrow> envelope \<Rightarrow> world \<Rightarrow> handled" where
  "handle_message d env w =
     (let t = env_type env in
      if t = msg_ping then (reply msg_pong None, d, w)
      else if t = msg_get_health then
        (reply msg_health (Some (enc_health (health (d_lifecycle d) w))), d, w)
      else if t = msg_set_config then
        command msg_set_config ''config'' dec_config zero_config set_config_op env d w
      else if t = msg_inject_secret then
        command msg_inject_secret ''secret'' dec_secret zero_secret inject_op env d w
      else if t = msg_inject_ssh_key then
        command msg_inject_ssh_key ''ssh key'' dec_ssh_key zero_ssh_key ssh_key_op env d w
      else if t = msg_mount then command msg_mount ''mount'' dec_mount zero_mount mount_op env d w
      else if t = msg_shutdown then (send_ack msg_shutdown None, shutdown_op env d, w)
      else (Inl (ErrMsg (''unknown message type: '' @ t)), d, w))"

subsection \<open>Choosing the listener\<close>

lemma listener_close_result: "fds (snd (listener_close l n)) = (fds n)(listener_fd l := None)"
  by (cases l) (simp_all add: vsock_lq.close_releases tcp_lq.close_releases)

interpretation vsock_ctl: listener_provider listen_vsock listener_fd listener_close
    "\<lambda>port. VsockListening vmaddr_cid_any port"
  by unfold_locales
    (auto simp: listen_vsock_def listener_close_result split: prod.splits sum.splits
       dest: vsock_lq.mk_fails vsock_lq.mk_opens)

interpretation tcp_ctl: listener_provider listen_tcp listener_fd listener_close
    "\<lambda>port. TcpListening (tcp_address port)"
  by unfold_locales
    (auto simp: listen_tcp_def listener_close_result split: prod.splits sum.splits
       dest: tcp_lq.mk_fails tcp_lq.mk_opens)

text \<open>What choosing a listener may do to the descriptors, as a relation.\<close>

fun listening_on :: "32 word \<Rightarrow> listener \<Rightarrow> endpoint" where
  "listening_on port (VsockListener v) = VsockListening vmaddr_cid_any port"
| "listening_on port (TcpListener t) = TcpListening (tcp_address port)"

definition opens_one :: "32 word \<Rightarrow> net \<Rightarrow> (go_error + listener) \<times> net \<Rightarrow> bool" where
  "opens_one port n x \<longleftrightarrow>
     (case x of
        (Inl e, n') \<Rightarrow> fds n' = fds n
      | (Inr l, n') \<Rightarrow> fds n (listener_fd l) = None \<and> fds n' = (fds n)(listener_fd l \<mapsto> listening_on port l))"

lemma opens_one_frame: "fds n1 = fds n \<Longrightarrow> opens_one port n1 x = opens_one port n x"
  by (simp add: opens_one_def split: prod.split sum.split)

lemma listen_tcp_kind: "listen_tcp port n = (Inr l, n') \<Longrightarrow> \<exists>t. l = TcpListener t"
  by (auto simp: listen_tcp_def split: prod.splits sum.splits)

lemma listen_vsock_kind: "listen_vsock port n = (Inr l, n') \<Longrightarrow> \<exists>v. l = VsockListener v"
  by (auto simp: listen_vsock_def split: prod.splits sum.splits)

lemma opens_one_tcp: "opens_one port n (listen_tcp port n)"
  using tcp_ctl.mk_cases[where a = port and n = n] listen_tcp_kind[of port n]
  by (force simp: opens_one_def split: prod.splits sum.splits)

lemma opens_one_vsock: "opens_one port n (listen_vsock port n)"
  using vsock_ctl.mk_cases[where a = port and n = n] listen_vsock_kind[of port n]
  by (force simp: opens_one_def split: prod.splits sum.splits)

lemma create_listener_modes:
  assumes "d_listener d = None"
  shows "dc_listen_mode (d_config d) = ''tcp'' \<Longrightarrow> create_listener d n = listen_tcp (dc_vsock_port (d_config d)) n"
    and "dc_listen_mode (d_config d) = ''vsock'' \<Longrightarrow> create_listener d n = listen_vsock (dc_vsock_port (d_config d)) n"
    and "dc_listen_mode (d_config d) \<notin> {''tcp'', ''vsock''} \<Longrightarrow> transport_available n = (False, n1) \<Longrightarrow>
      create_listener d n = listen_tcp (dc_vsock_port (d_config d)) n1"
    and "dc_listen_mode (d_config d) \<notin> {''tcp'', ''vsock''} \<Longrightarrow> transport_available n = (True, n1) \<Longrightarrow>
      listen_vsock (dc_vsock_port (d_config d)) n1 = (Inr l, n2) \<Longrightarrow> create_listener d n = (Inr l, n2)"
    and "dc_listen_mode (d_config d) \<notin> {''tcp'', ''vsock''} \<Longrightarrow> transport_available n = (True, n1) \<Longrightarrow>
      listen_vsock (dc_vsock_port (d_config d)) n1 = (Inl e, n2) \<Longrightarrow>
      create_listener d n = listen_tcp (dc_vsock_port (d_config d)) n2"
  using assms by (simp_all add: create_listener_def)

text \<open>The five ways it goes.\<close>

lemma create_listener_cases:
  assumes "d_listener d = None"
  obtains (tcp) "dc_listen_mode (d_config d) = ''tcp''"
      "create_listener d n = listen_tcp (dc_vsock_port (d_config d)) n"
  | (vsock) "dc_listen_mode (d_config d) = ''vsock''"
      "create_listener d n = listen_vsock (dc_vsock_port (d_config d)) n"
  | (absent) n1 where "dc_listen_mode (d_config d) \<notin> {''tcp'', ''vsock''}"
      "transport_available n = (False, n1)"
      "create_listener d n = listen_tcp (dc_vsock_port (d_config d)) n1"
  | (present) n1 l n2 where "dc_listen_mode (d_config d) \<notin> {''tcp'', ''vsock''}"
      "transport_available n = (True, n1)"
      "listen_vsock (dc_vsock_port (d_config d)) n1 = (Inr l, n2)" "create_listener d n = (Inr l, n2)"
  | (fallback) n1 e n2 where "dc_listen_mode (d_config d) \<notin> {''tcp'', ''vsock''}"
      "transport_available n = (True, n1)"
      "listen_vsock (dc_vsock_port (d_config d)) n1 = (Inl e, n2)"
      "create_listener d n = listen_tcp (dc_vsock_port (d_config d)) n2"
proof -
  note m = create_listener_modes[OF assms]
  obtain av n1 where a: "transport_available n = (av, n1)" by force
  obtain rv n2 where v: "listen_vsock (dc_vsock_port (d_config d)) n1 = (rv, n2)" by force
  show thesis
  proof (cases "dc_listen_mode (d_config d) \<in> {''tcp'', ''vsock''}")
    case True
    then show thesis using m(1,2) tcp vsock by blast
  next
    case False
    show thesis
    proof (cases av)
      case True
      show thesis
      proof (cases rv)
        case (Inl e)
        then show thesis using m(5)[OF False] a v \<open>av\<close> False fallback by simp
      next
        case (Inr l)
        then show thesis using m(4)[OF False] a v \<open>av\<close> False present by simp
      qed
    next
      case unavailable: False
      then show thesis using m(3)[OF False] a False absent by simp
    qed
  qed
qed

lemma create_listener_opens_one:
  assumes "d_listener d = None"
  shows "opens_one (dc_vsock_port (d_config d)) n (create_listener d n)"
proof -
  let ?port = "dc_vsock_port (d_config d)"
  from assms show ?thesis
  proof (cases rule: create_listener_cases[where n = n])
    case (absent n1)
    then have "fds n1 = fds n" using transport_available_fds[of n] by simp
    then show ?thesis using opens_one_tcp[of ?port n1] absent(3) by (simp add: opens_one_frame[of n1 n])
  next
    case (present n1 l n2)
    then have "fds n1 = fds n" using transport_available_fds[of n] by simp
    then show ?thesis using opens_one_vsock[of ?port n1] present(3,4) by (simp add: opens_one_frame[of n1 n])
  next
    case (fallback n1 e n2)
    then have "fds n1 = fds n" using transport_available_fds[of n] by simp
    then have "fds n2 = fds n" using opens_one_vsock[of ?port n1] fallback(3) by (simp add: opens_one_def)
    then show ?thesis using opens_one_tcp[of ?port n2] fallback(4) by (simp add: opens_one_frame[of n2 n])
  qed (simp_all add: opens_one_tcp opens_one_vsock)
qed

lemma create_listener_kind:
  assumes "d_listener d = None" and c: "create_listener d n = (Inr l, n')"
  shows "(dc_listen_mode (d_config d) = ''tcp'' \<longrightarrow> (\<exists>t. l = TcpListener t)) \<and>
    (dc_listen_mode (d_config d) = ''vsock'' \<longrightarrow> (\<exists>v. l = VsockListener v)) \<and>
    (dc_listen_mode (d_config d) \<notin> {''tcp'', ''vsock''} \<and> (\<exists>v. l = VsockListener v) \<longrightarrow>
       fst (transport_available n))"
  using assms(1)
proof (cases rule: create_listener_cases[where n = n])
  case tcp
  then show ?thesis using listen_tcp_kind[of "dc_vsock_port (d_config d)" n l n'] c by auto
next
  case vsock
  then show ?thesis using listen_vsock_kind[of "dc_vsock_port (d_config d)" n l n'] c by auto
next
  case (absent n1)
  then show ?thesis using listen_tcp_kind[of "dc_vsock_port (d_config d)" n1 l n'] c by auto
qed (use c in auto)

text \<open>C31: Choosing the control plane listener never leaks a descriptor: an error leaves the open
  descriptors as they were, and otherwise exactly the new listener's is open, which closing it
  releases. An explicit mode is never changed for the other transport; in automatic mode the
  listener is the vsock one only if a transport is attached.\<close>

theorem create_listener_choice:
  assumes "d_listener d = None" and "create_listener d n = (r, n')"
  shows "(case r of
      Inl e \<Rightarrow> fds n' = fds n
    | Inr l \<Rightarrow>
        fds n (listener_fd l) = None \<and>
        fds n' = (fds n)(listener_fd l \<mapsto> listening_on (dc_vsock_port (d_config d)) l) \<and>
        fds (snd (listener_close l n')) = fds n \<and>
        (dc_listen_mode (d_config d) = ''tcp'' \<longrightarrow> (\<exists>t. l = TcpListener t)) \<and>
        (dc_listen_mode (d_config d) = ''vsock'' \<longrightarrow> (\<exists>v. l = VsockListener v)) \<and>
        (dc_listen_mode (d_config d) \<notin> {''tcp'', ''vsock''} \<and> (\<exists>v. l = VsockListener v) \<longrightarrow>
           fst (transport_available n)))"
proof (cases r)
  case (Inl e)
  then show ?thesis using create_listener_opens_one[OF assms(1), of n] assms(2) by (simp add: opens_one_def)
next
  case (Inr l)
  note k = create_listener_kind[OF assms(1), of n l n', OF assms(2)[unfolded Inr]]
  have o: "fds n (listener_fd l) = None \<and>
      fds n' = (fds n)(listener_fd l \<mapsto> listening_on (dc_vsock_port (d_config d)) l)"
    using create_listener_opens_one[OF assms(1), of n] assms(2) Inr by (simp add: opens_one_def)
  then have "fds (snd (listener_close l n')) = fds n"
    by (auto simp: listener_close_result fun_eq_iff)
  with o k Inr show ?thesis by simp
qed

theorem create_listener_choice_witness:
  "let d = (new_daemon (quiet_world []))\<lparr>d_config := default_config\<lparr>dc_listen_mode := ''tcp''\<rparr>\<rparr>;
       n = \<lparr>n_open = [(0, DevFile ''log'')], n_local_cid = 2, n_calls = 0, n_fail = \<lambda>k. None\<rparr>
   in \<exists>l n'. create_listener d n = (Inr l, n') \<and> fds (snd (listener_close l n')) = fds n"
proof -
  let ?d = "(new_daemon (quiet_world []))\<lparr>d_config := default_config\<lparr>dc_listen_mode := ''tcp''\<rparr>\<rparr>"
  let ?n = "\<lparr>n_open = [(0, DevFile ''log'')], n_local_cid = 2, n_calls = 0, n_fail = \<lambda>k. None\<rparr>"
  have d: "d_listener (new_daemon (quiet_world [])) = None"
    by (simp add: new_daemon_def new_daemon_with_config_def Let_def)
  have "\<exists>l n'. create_listener ?d ?n = (Inr l, n')"
    by (simp add: create_listener_def Let_def d listen_tcp_def new_tcp_listener_unfold open_call_ok
        default_config_def default_vsock_port_def)
  then obtain l n' where c: "create_listener ?d ?n = (Inr l, n')" by blast
  then show ?thesis using create_listener_choice[OF _ c] d by (auto simp: Let_def)
qed

subsection \<open>What the host gets back\<close>

lemma reply_Some [simp]: "reply t p = Inr (Some \<lparr>env_type = t, env_payload = p\<rparr>)"
  by (cases p) (simp_all add: reply_def new_envelope_def)

lemma msg_neq [simp]:
  "msg_get_health \<noteq> msg_ping" "msg_set_config \<noteq> msg_ping" "msg_inject_secret \<noteq> msg_ping"
  "msg_inject_ssh_key \<noteq> msg_ping" "msg_mount \<noteq> msg_ping" "msg_shutdown \<noteq> msg_ping"
  "msg_set_config \<noteq> msg_get_health" "msg_inject_secret \<noteq> msg_get_health"
  "msg_inject_ssh_key \<noteq> msg_get_health" "msg_mount \<noteq> msg_get_health" "msg_shutdown \<noteq> msg_get_health"
  "msg_inject_secret \<noteq> msg_set_config" "msg_inject_ssh_key \<noteq> msg_set_config"
  "msg_mount \<noteq> msg_set_config" "msg_shutdown \<noteq> msg_set_config"
  "msg_inject_ssh_key \<noteq> msg_inject_secret" "msg_mount \<noteq> msg_inject_secret"
  "msg_shutdown \<noteq> msg_inject_secret" "msg_mount \<noteq> msg_inject_ssh_key"
  "msg_shutdown \<noteq> msg_inject_ssh_key" "msg_shutdown \<noteq> msg_mount"
  by (simp_all add: msg_defs)

lemmas msg_neq_sym [simp] = msg_neq[symmetric]

lemma handle_message_simps:
  "env_type env = msg_ping \<Longrightarrow> handle_message d env w = (reply msg_pong None, d, w)"
  "env_type env = msg_get_health \<Longrightarrow>
     handle_message d env w = (reply msg_health (Some (enc_health (health (d_lifecycle d) w))), d, w)"
  "env_type env = msg_set_config \<Longrightarrow> handle_message d env w =
     command msg_set_config ''config'' dec_config zero_config set_config_op env d w"
  "env_type env = msg_inject_secret \<Longrightarrow> handle_message d env w =
     command msg_inject_secret ''secret'' dec_secret zero_secret inject_op env d w"
  "env_type env = msg_inject_ssh_key \<Longrightarrow> handle_message d env w =
     command msg_inject_ssh_key ''ssh key'' dec_ssh_key zero_ssh_key ssh_key_op env d w"
  "env_type env = msg_mount \<Longrightarrow> handle_message d env w =
     command msg_mount ''mount'' dec_mount zero_mount mount_op env d w"
  "env_type env = msg_shutdown \<Longrightarrow> handle_message d env w = (send_ack msg_shutdown None, shutdown_op env d, w)"
  by (simp_all add: handle_message_def Let_def)

definition commands :: "message_type list" where
  "commands = [msg_set_config, msg_inject_secret, msg_inject_ssh_key, msg_mount, msg_shutdown]"

lemma handle_message_unknown:
  "env_type env \<notin> set (msg_ping # msg_get_health # commands) \<Longrightarrow>
   handle_message d env w = (Inl (ErrMsg (''unknown message type: '' @ env_type env)), d, w)"
  by (simp add: handle_message_def commands_def Let_def)

text \<open>The two ways a command can go.\<close>

lemma command_cases:
  "case decode_payload dec env zero of
     (p, Some e) \<Rightarrow> command t what dec zero run env d w = (Inl (ErrWrap (''decode '' @ what @ '' payload: '') e), d, w)
   | (p, None) \<Rightarrow> command t what dec zero run env d w =
       (send_ack t (fst (run p d w)), fst (snd (run p d w)), snd (snd (run p d w)))"
  by (simp add: command_def split: prod.split option.split)

definition ack_envelope :: "ack_payload \<Rightarrow> envelope" where
  "ack_envelope a = \<lparr>env_type = msg_ack, env_payload = Some (enc_ack a)\<rparr>"

lemma send_ack_eq: "send_ack t r = Inr (Some (ack_envelope (ack_of t r)))"
  by (simp add: send_ack_def ack_envelope_def)

lemma ack_of_fields [simp]:
  "ap_reply_to (ack_of t r) = t" "ap_ok (ack_of t r) \<longleftrightarrow> r = None"
  "ap_error (ack_of t r) = (case r of None \<Rightarrow> '''' | Some e \<Rightarrow> error_text e)"
  by (simp_all add: ack_of_def split: option.split)

text \<open>What comes back from a command, as a relation.\<close>

definition acknowledged :: "message_type \<Rightarrow> daemon \<Rightarrow> world \<Rightarrow> handled \<Rightarrow> bool" where
  "acknowledged t d w x \<longleftrightarrow>
     (case fst x of
        Inl e \<Rightarrow> snd x = (d, w)
      | Inr r \<Rightarrow> \<exists>a. r = Some (ack_envelope a) \<and> ap_reply_to a = t \<and> (ap_ok a \<longrightarrow> ap_error a = ''''))"

lemma acknowledged_send: "acknowledged t d w (send_ack t r, x)"
proof -
  have "ap_ok (ack_of t r) \<longrightarrow> ap_error (ack_of t r) = ''''" by simp
  then show ?thesis using ack_of_fields(1)[of t r] by (auto simp: acknowledged_def send_ack_eq)
qed

lemma acknowledged_error: "acknowledged t d w (Inl e, d, w)"
  by (simp add: acknowledged_def)

lemma command_acknowledged: "acknowledged t d w (command t what dec zero run env d w)"
  by (simp add: command_def acknowledged_send acknowledged_error split: prod.split option.split)

lemma handle_message_acknowledged:
  "env_type env \<in> set commands \<Longrightarrow> acknowledged (env_type env) d w (handle_message d env w)"
  by (auto simp: commands_def handle_message_simps command_acknowledged acknowledged_send)

text \<open>The one answer to a message that is not refused.\<close>

definition answer_to :: "envelope \<Rightarrow> daemon \<Rightarrow> world \<Rightarrow> envelope \<Rightarrow> bool" where
  "answer_to env d w r \<longleftrightarrow>
     (if env_type env = msg_ping then r = \<lparr>env_type = msg_pong, env_payload = None\<rparr>
      else if env_type env = msg_get_health then
        r = \<lparr>env_type = msg_health, env_payload = Some (enc_health (health (d_lifecycle d) w))\<rparr>
      else env_type env \<in> set commands \<and>
        (\<exists>a. r = ack_envelope a \<and> ap_reply_to a = env_type env \<and> (ap_ok a \<longrightarrow> ap_error a = '''')))"

text \<open>C10: Every message of the host is answered exactly once: it is refused with an error, or
  there is one response. A ping gets a pong, a health query the current health, and a command
  one acknowledgement that names it as what it replies to, with no error text on success; any
  other type is refused. Queries and refused messages change nothing.\<close>

theorem handle_message_answers:
  assumes "handle_message d env w = (x, d', w')"
  shows "(case x of
      Inl e \<Rightarrow> env_type env \<notin> {msg_ping, msg_get_health, msg_shutdown} \<and> d' = d \<and> w' = w
    | Inr r \<Rightarrow> (\<exists>v. r = Some v \<and> answer_to env d w v) \<and>
        (env_type env \<in> {msg_ping, msg_get_health} \<longrightarrow> d' = d \<and> w' = w))"
proof -
  consider "env_type env = msg_ping" | "env_type env = msg_get_health"
    | "env_type env \<in> set commands" "env_type env \<noteq> msg_shutdown" | "env_type env = msg_shutdown"
    | "env_type env \<notin> set (msg_ping # msg_get_health # commands)"
    by auto
  then show ?thesis
  proof cases
    case 1
    then show ?thesis using assms by (auto simp: handle_message_simps answer_to_def)
  next
    case 2
    then show ?thesis using assms by (auto simp: handle_message_simps answer_to_def)
  next
    case 3
    have "env_type env \<notin> {msg_ping, msg_get_health}" using 3(1) by (auto simp: commands_def)
    then show ?thesis
      using handle_message_acknowledged[OF 3(1), of d w] assms 3
      by (cases x) (auto simp: acknowledged_def answer_to_def)
  next
    case 4
    then have "env_type env \<in> set commands" by (simp add: commands_def)
    from handle_message_acknowledged[OF this, of d w] show ?thesis
      using assms 4
      by (cases x) (auto simp: handle_message_simps acknowledged_def answer_to_def send_ack_eq commands_def)
  next
    case 5
    then show ?thesis using assms handle_message_unknown[OF 5, of d w] by (auto simp: commands_def)
  qed
qed

theorem handle_message_answers_witness:
  "\<exists>v. fst (handle_message (new_daemon (quiet_world [])) \<lparr>env_type = msg_ping, env_payload = None\<rparr> (quiet_world [])) =
     Inr (Some v) \<and> env_type v = msg_pong"
proof -
  let ?e = "\<lparr>env_type = msg_ping, env_payload = None\<rparr> :: envelope"
  obtain x d' w' where h: "handle_message (new_daemon (quiet_world [])) ?e (quiet_world []) = (x, d', w')"
    using prod_cases3 by blast
  show ?thesis
    using handle_message_answers[OF h] h by (cases x) (auto simp: answer_to_def)
qed

lemma command_results:
  "handle_message d \<lparr>env_type = msg_inject_secret, env_payload = Some (enc_secret sp)\<rparr> w =
     (let (r, p, w') = inject (d_secrets d) sp w in (send_ack msg_inject_secret r, d, w'))"
  "handle_message d \<lparr>env_type = msg_inject_ssh_key, env_payload = Some (enc_ssh_key kp)\<rparr> w =
     (let (r, w') = inject_authorized_key (d_sshkeys d) kp w in (send_ack msg_inject_ssh_key r, d, w'))"
  "handle_message d \<lparr>env_type = msg_mount, env_payload = Some (enc_mount mp)\<rparr> w =
     (let (r, mm, w') = mount (d_mounts d) mp w in (send_ack msg_mount r, d\<lparr>d_mounts := mm\<rparr>, w'))"
  "handle_message d \<lparr>env_type = msg_set_config, env_payload = Some (enc_config cp)\<rparr> w =
     (let (r, w') = os_write_file config_path (cp_content cp) 0x1A4 w in (send_ack msg_set_config r, d, w'))"
  "handle_message d \<lparr>env_type = msg_shutdown, env_payload = Some (enc_shutdown sd)\<rparr> w =
     (send_ack msg_shutdown None, d\<lparr>d_jobs := d_jobs d @ [sd]\<rparr>, w)"
  by (simp_all add: handle_message_simps command_def decode_payload_def dec_enc_secret dec_enc_ssh_key
      dec_enc_mount dec_enc_config dec_enc_shutdown inject_op_def ssh_key_op_def mount_op_def
      set_config_op_def shutdown_op_def start_job_def split: prod.split)

subsection \<open>The fixed configuration file\<close>

lemma open_trunc_content:
  "open_trunc p m w = (None, w') \<Longrightarrow> \<exists>a. lookup (w_fs w') (resolve p) = Some (File a [])"
  using open_trunc_Some[of p m w w'] by blast

lemma write_close_faulted:
  assumes "w_faults w (w_tick w) = Some (Fault e k)" and "lookup (w_fs w) (resolve p) = Some (File a t)"
  shows "fst (write_close p s w) = Some (PathError ''write'' p e) \<and>
    lookup (w_fs (snd (write_close p s w))) (resolve p) = Some (File a (take k s))"
  using assms by (simp add: write_close_def call_unfold set_content_def)

text \<open>A new configuration is written over the old one in place. If the write fails after
  \<open>k\<close> bytes, the host is told that it failed, but the file holds the first \<open>k\<close> bytes of the new
  configuration and nothing of the old one. The file is the fixed path, whatever directories
  the daemon was configured with.\<close>

theorem set_config_not_atomic:
  assumes "handle_message d \<lparr>env_type = msg_set_config, env_payload = Some (enc_config cp)\<rparr> w = (x, d', w')"
    and "open_trunc config_path 0x1A4 w = (None, w1)" and "w_faults w (w_tick w1) = Some (Fault e k)"
  shows "x = Inr (Some (ack_envelope \<lparr>ap_reply_to = msg_set_config, ap_ok = False,
       ap_error = error_text (PathError ''write'' config_path e)\<rparr>)) \<and>
    (\<exists>a. lookup (w_fs w') (resolve config_path) = Some (File a (take k (cp_content cp))))"
proof -
  obtain a where a: "lookup (w_fs w1) (resolve config_path) = Some (File a [])"
    using open_trunc_content[OF assms(2)] by blast
  have f: "w_faults w1 (w_tick w1) = Some (Fault e k)"
    using env_of_D(8)[of w1 w] env_open_trunc[of config_path "0x1A4" w] assms(2,3) by simp
  note wc = write_close_faulted[OF f a, of "cp_content cp"]
  have o: "os_write_file config_path (cp_content cp) 0x1A4 w = write_close config_path (cp_content cp) w1"
    using assms(2) by (simp add: os_write_file_def)
  obtain r v where rv: "write_close config_path (cp_content cp) w1 = (r, v)" by force
  have h: "handle_message d \<lparr>env_type = msg_set_config, env_payload = Some (enc_config cp)\<rparr> w =
      (send_ack msg_set_config r, d, v)"
    using rv o by (simp add: handle_message_simps command_def decode_payload_def dec_enc_config set_config_op_def)
  show ?thesis
    using wc rv h assms(1) by (auto simp: send_ack_eq ack_of_def)
qed

text \<open>A full disk: the third call of the world, the write, gets two bytes onto the device.\<close>

definition full_disk :: world where
  "full_disk =
     (quiet_world [([], Dir \<lparr>m_mode = 0x1ED, m_uid = 0, m_gid = 0\<rparr>),
        ([''etc''], Dir \<lparr>m_mode = 0x1ED, m_uid = 0, m_gid = 0\<rparr>),
        ([''etc'', ''stereos''], Dir \<lparr>m_mode = 0x1ED, m_uid = 0, m_gid = 0\<rparr>),
        ([''etc'', ''stereos'', ''jcard.toml''], File \<lparr>m_mode = 0x1A4, m_uid = 0, m_gid = 0\<rparr> ''old'')])
       \<lparr>w_faults := \<lambda>n. if n = 1 then Some (Fault ENOSPC 2) else None\<rparr>"

theorem set_config_not_atomic_witness:
  "\<exists>a. lookup (w_fs (snd (snd (handle_message (new_daemon full_disk)
      \<lparr>env_type = msg_set_config, env_payload = Some (enc_config \<lparr>cp_content = ''model''\<rparr>)\<rparr> full_disk))))
     [''etc'', ''stereos'', ''jcard.toml''] = Some (File a ''mo'')"
proof -
  let ?e = "\<lparr>env_type = msg_set_config, env_payload = Some (enc_config \<lparr>cp_content = ''model''\<rparr>)\<rparr> :: envelope"
  obtain x d' w' where h: "handle_message (new_daemon full_disk) ?e full_disk = (x, d', w')"
    using prod_cases3 by blast
  obtain r w1 where o: "open_trunc config_path 0x1A4 full_disk = (r, w1)" by force
  have "fst (open_trunc config_path 0x1A4 full_disk) = None"
    "w_tick (snd (open_trunc config_path 0x1A4 full_disk)) = 1"
    "resolve config_path = [''etc'', ''stereos'', ''jcard.toml'']"
    by code_simp+
  moreover have "w_faults full_disk 1 = Some (Fault ENOSPC 2)" by (simp add: full_disk_def)
  ultimately show ?thesis
    using set_config_not_atomic[OF h, of w1 ENOSPC 2] o h by simp
qed

subsection \<open>The shutdown jobs\<close>

text \<open>
  What holds of the daemon at every moment: the channel is closed only by the once-guard,
  nothing pushes lifecycle changes, the state is one of four, and the tracked mounts are valid.
\<close>

definition daemon_ok :: "daemon \<Rightarrow> bool" where
  "daemon_ok d \<longleftrightarrow>
     d_shutdown_requested d = d_shutdown_once d \<and> lm_send (d_lifecycle d) = None \<and>
     lm_state (d_lifecycle d) \<in> {state_booting, state_ready, state_healthy, state_shutdown} \<and>
     (\<forall>m\<in>set (mm_mounts (d_mounts d)). mount_valid m)"

lemma new_daemon_ok: "daemon_ok (new_daemon_with_config c w)"
  by (simp add: daemon_ok_def new_daemon_with_config_def Let_def new_lifecycle_manager_def new_mount_manager_def)

lemma request_shutdown_ok:
  assumes "daemon_ok d"
  shows "request_shutdown d = Some (d\<lparr>d_shutdown_requested := True, d_shutdown_once := True\<rparr>)"
proof (cases "d_shutdown_once d")
  case True
  then have "d\<lparr>d_shutdown_requested := True, d_shutdown_once := True\<rparr> = d"
    using assms by (cases d) (simp add: daemon_ok_def)
  with True show ?thesis by (simp add: request_shutdown_def)
next
  case False
  then show ?thesis using assms by (simp add: request_shutdown_def close_channel_def daemon_ok_def)
qed

lemma execute_fields:
  assumes "execute sc p mm lm w = (r, mm', lm', w')"
  shows "mm_mounts mm' = []" and "mm_commander mm' = mm_commander mm"
    and "lm_state lm' = state_shutdown" and "lm_send lm' = lm_send lm"
    and "lm_message lm' = shutdown_reason p"
  using assms by (auto simp: execute_def unmount_all_def split_beta Let_def)

lemma shutdown_job_ok:
  assumes "daemon_ok d"
  obtains d' w' where "shutdown_job p d w = Some (d', w')" and "daemon_ok d'"
    and "d_shutdown_requested d'" and "mm_mounts (d_mounts d') = []"
    and "lm_state (d_lifecycle d') = state_shutdown" and "d_jobs d' = d_jobs d"
proof -
  obtain r mm lm w1 where e: "execute (d_shutdown d) (Some p) (d_mounts d) (d_lifecycle d) w = (r, mm, lm, w1)"
    using prod_cases4 by blast
  note f = execute_fields[OF e]
  let ?d1 = "d\<lparr>d_mounts := mm, d_lifecycle := lm\<rparr>"
  have ok: "daemon_ok ?d1" using assms f by (simp add: daemon_ok_def)
  then have ok2: "daemon_ok (?d1\<lparr>d_shutdown_requested := True, d_shutdown_once := True\<rparr>)"
    by (simp add: daemon_ok_def)
  have "shutdown_job p d w = Some (?d1\<lparr>d_shutdown_requested := True, d_shutdown_once := True\<rparr>, w1)"
    unfolding shutdown_job_def e by (simp only: Let_def prod.case request_shutdown_ok[OF ok] option.map)
  from that[OF this ok2] f show thesis by simp
qed

lemma mount_valid_all:
  assumes "\<forall>m\<in>set (mm_mounts mm). mount_valid m" and "mount mm p w = (r, mm', w')"
  shows "\<forall>m\<in>set (mm_mounts mm'). mount_valid m"
  using assms mount_check_valid[of p]
  by (auto simp: mount_def Let_def split: option.splits prod.splits)

text \<open>What a message can change of the daemon: the mounts, which stay valid, and the jobs.\<close>

definition mounts_only :: "daemon \<Rightarrow> daemon \<Rightarrow> bool" where
  "mounts_only d d' \<longleftrightarrow>
     d' = d\<lparr>d_mounts := d_mounts d', d_jobs := d_jobs d'\<rparr> \<and>
     mm_commander (d_mounts d') = mm_commander (d_mounts d) \<and>
     ((\<forall>m\<in>set (mm_mounts (d_mounts d)). mount_valid m) \<longrightarrow> (\<forall>m\<in>set (mm_mounts (d_mounts d')). mount_valid m))"

lemma mounts_only_refl [simp]: "mounts_only d d"
  by (simp add: mounts_only_def)

lemma mounts_only_command:
  assumes "\<And>p. mounts_only d (fst (snd (run p d w)))"
  shows "mounts_only d (fst (snd (command t what dec zero run env d w)))"
proof -
  obtain p x where p: "decode_payload dec env zero = (p, x)" by force
  show ?thesis
    using assms[of p] by (cases x; cases "run p d w") (simp_all add: command_def p)
qed

lemma mounts_only_ops:
  "mounts_only d (fst (snd (set_config_op p1 d w)))" "mounts_only d (fst (snd (inject_op p2 d w)))"
  "mounts_only d (fst (snd (ssh_key_op p3 d w)))" "mounts_only d (fst (snd (mount_op p4 d w)))"
  "mounts_only d (shutdown_op env d)"
proof -
  obtain r mm w' where m: "mount (d_mounts d) p4 w = (r, mm, w')" using prod_cases3 by blast
  have "mm_commander mm = mm_commander (d_mounts d)"
    using m by (auto simp: mount_def Let_def split: option.splits prod.splits)
  then show "mounts_only d (fst (snd (mount_op p4 d w)))"
    using m mount_valid_all[OF _ m] by (simp add: mount_op_def mounts_only_def)
qed (simp_all add: set_config_op_def inject_op_def ssh_key_op_def shutdown_op_def start_job_def mounts_only_def
      split: prod.split)

lemma handle_message_frame: "mounts_only d (fst (snd (handle_message d env w)))"
proof -
  consider "env_type env = msg_ping" | "env_type env = msg_get_health" | "env_type env = msg_set_config"
    | "env_type env = msg_inject_secret" | "env_type env = msg_inject_ssh_key" | "env_type env = msg_mount"
    | "env_type env = msg_shutdown" | "env_type env \<notin> set (msg_ping # msg_get_health # commands)"
    by (auto simp: commands_def)
  then show ?thesis
    by cases (simp_all add: handle_message_simps handle_message_unknown mounts_only_command mounts_only_ops)
qed

lemma handle_message_ok: "daemon_ok d \<Longrightarrow> daemon_ok (fst (snd (handle_message d env w)))"
  using handle_message_frame[of d env w] unfolding mounts_only_def
  by (cases d; cases "fst (snd (handle_message d env w))") (simp add: daemon_ok_def)

end
