(* ===== verification/Ipc.thy ===== *)
theory Ipc
  imports Daemon
begin

text \<open>
  The HTTP API (pkg/ipc.go): the routes as the multiplexer of net/http matches them, and one
  handler per route. A request is its method, its path as it was sent (escaped) and its body;
  a response is a status with a JSON body, or one of the answers the multiplexer gives itself.
\<close>

record http_request =
  rq_method :: string
  rq_path :: string
  rq_body :: string

datatype http_response =
    JsonResponse int json
  | Redirect string
  | PlainResponse int

subsection \<open>Paths\<close>

text \<open>\<open>url.PathUnescape\<close>: \<open>None\<close> for a percent sign that no two hexadecimal digits follow.\<close>

function path_unescape :: "string \<Rightarrow> string option" where
  "path_unescape [] = Some []"
| "path_unescape (c # cs) =
     (if c = CHR ''%'' then
        (case cs of
           a # b # ds \<Rightarrow>
             (case (hex_val a, hex_val b) of
                (Some x, Some y) \<Rightarrow> map_option ((#) (char_of (16 * x + y))) (path_unescape ds)
              | _ \<Rightarrow> None)
         | _ \<Rightarrow> None)
      else map_option ((#) c) (path_unescape cs))"
  by pat_completeness auto
termination
  by (relation "measure length") auto

text \<open>The canonical form a request path must have, or the client is redirected to it.\<close>

definition clean_path :: "string \<Rightarrow> string" where
  "clean_path p =
     (if p = '''' then ''/''
      else
        (let p1 = (if hd p = slash then p else slash # p);
             np = clean p1
         in if last p1 = slash \<and> np \<noteq> ''/'' then np @ ''/'' else np))"

text \<open>
  The segments the multiplexer compares, each unescaped by itself; a final slash is a
  segment of its own.
\<close>

definition unescape_segment :: "string \<Rightarrow> string" where
  "unescape_segment s = (case path_unescape s of None \<Rightarrow> s | Some t \<Rightarrow> t)"

definition segments :: "string \<Rightarrow> string list" where
  "segments p =
     (let cs = split_on slash (drop 1 p)
      in if last cs = [] then map unescape_segment (butlast cs) @ [''/''] else map unescape_segment cs)"

subsection \<open>Routes\<close>

datatype route =
    RPing | RHealth | RInjectSecret | RListSecrets | RDeleteSecret | RMount | RListMounts
  | RShutdown | RListAgents

text \<open>A pattern: method, path, and the handler. A path that ends in a slash matches below it.\<close>

definition register_routes :: "(string \<times> string \<times> route) list" where
  "register_routes =
     [(''GET'', ''/v1/ping'', RPing),
      (''GET'', ''/v1/health'', RHealth),
      (''POST'', ''/v1/secrets'', RInjectSecret),
      (''GET'', ''/v1/secrets'', RListSecrets),
      (''DELETE'', ''/v1/secrets/'', RDeleteSecret),
      (''POST'', ''/v1/mounts'', RMount),
      (''GET'', ''/v1/mounts'', RListMounts),
      (''POST'', ''/v1/shutdown'', RShutdown),
      (''GET'', ''/v1/agents'', RListAgents)]"

definition path_matches :: "string \<Rightarrow> string \<Rightarrow> bool" where
  "path_matches pat p \<longleftrightarrow>
     (if last pat = slash then prefix (butlast (segments pat)) (segments p) \<and>
        length (segments pat) \<le> length (segments p)
      else segments p = segments pat)"

text \<open>A pattern for GET matches HEAD requests too.\<close>

definition method_matches :: "string \<Rightarrow> string \<Rightarrow> bool" where
  "method_matches pat m \<longleftrightarrow> m = pat \<or> m = ''HEAD'' \<and> pat = ''GET''"

definition find_route :: "string \<Rightarrow> string \<Rightarrow> (string \<times> string \<times> route) option" where
  "find_route m p = find (\<lambda>(pm, pp, r). method_matches pm m \<and> path_matches pp p) register_routes"

definition path_known :: "string \<Rightarrow> bool" where
  "path_known p \<longleftrightarrow>
     list_ex (\<lambda>(pm, pp, r). path_matches pp p \<or> last p \<noteq> slash \<and> path_matches pp (p @ ''/'')) register_routes"

datatype routed =
    Handle route string
  | Answer http_response

text \<open>
  The multiplexer: a path whose escapes are broken is a bad request; a missing trailing slash
  that would make it match is added by a redirect, and so is the canonical form; a path that
  some other method has is 405 and any other 404. The handler gets the unescaped path.
\<close>

definition dispatch :: "http_request \<Rightarrow> routed" where
  "dispatch rq =
     (case path_unescape (rq_path rq) of
        None \<Rightarrow> Answer (PlainResponse 400)
      | Some url_path \<Rightarrow>
          (let p = clean_path (rq_path rq) in
           case find_route (rq_method rq) p of
             None \<Rightarrow>
               if last p \<noteq> slash \<and> find_route (rq_method rq) (p @ ''/'') \<noteq> None then
                 Answer (Redirect (clean_path url_path @ ''/''))
               else if p \<noteq> rq_path rq then Answer (Redirect p)
               else if path_known p then Answer (PlainResponse 405)
               else Answer (PlainResponse 404)
           | Some (pm, pp, r) \<Rightarrow>
               if p \<noteq> rq_path rq then Answer (Redirect p) else Handle r url_path))"

subsection \<open>Responses\<close>

definition write_json :: "int \<Rightarrow> json \<Rightarrow> http_response" where
  "write_json status v = JsonResponse status v"

definition write_error :: "int \<Rightarrow> string \<Rightarrow> http_response" where
  "write_error status msg = write_json status (JObj [(''error'', JStr msg)])"

text \<open>A map of strings is marshalled with its keys sorted.\<close>

definition enc_map :: "(string \<times> string) list \<Rightarrow> json" where
  "enc_map kvs = JObj (map (\<lambda>(k, v). (k, JStr v)) (sort_key fst kvs))"

subsection \<open>Handlers\<close>

type_synonym handler_result = "http_response \<times> daemon \<times> world"

definition handle_ping :: "daemon \<Rightarrow> world \<Rightarrow> handler_result" where
  "handle_ping d w = (write_json 200 (enc_map [(''status'', ''ok'')]), d, w)"

definition handle_get_health :: "daemon \<Rightarrow> world \<Rightarrow> handler_result" where
  "handle_get_health d w = (write_json 200 (enc_health (health (d_lifecycle d) w)), d, w)"

text \<open>
  Decoding the body: the first JSON value in it, into the zero value; what follows is ignored.
\<close>

definition decode_body :: "'p decoder \<Rightarrow> 'p \<Rightarrow> string \<Rightarrow> 'p \<times> go_error option" where
  "decode_body dec zero body =
     (case decode_text body of
        None \<Rightarrow> (zero, Some (if skip_ws body = [] then ErrMsg ''EOF'' else json_syntax_error))
      | Some j \<Rightarrow> dec j zero)"

definition handle_inject_secret :: "string \<Rightarrow> daemon \<Rightarrow> world \<Rightarrow> handler_result" where
  "handle_inject_secret body d w =
     (case decode_body dec_secret zero_secret body of
        (p, Some e) \<Rightarrow> (write_error 400 (''invalid JSON: '' @ error_text e), d, w)
      | (p, None) \<Rightarrow>
          (case inject (d_secrets d) p w of
             (Some e, p1, w1) \<Rightarrow> (write_error 422 (error_text e), d, w1)
           | (None, p1, w1) \<Rightarrow>
               (write_json 201 (enc_map [(''status'', ''ok''), (''name'', sp_name p1)]), d, w1)))"

definition handle_list_secrets :: "daemon \<Rightarrow> world \<Rightarrow> handler_result" where
  "handle_list_secrets d w =
     (case list_secrets (d_secrets d) w of
        (Inl e, w1) \<Rightarrow> (write_error 500 (''list secrets: '' @ error_text e), d, w1)
      | (Inr names, w1) \<Rightarrow> (write_json 200 (JObj [(''secrets'', JArr (map JStr names))]), d, w1))"

definition handle_delete_secret :: "string \<Rightarrow> daemon \<Rightarrow> world \<Rightarrow> handler_result" where
  "handle_delete_secret url_path d w =
     (let name = trim_prefix url_path ''/v1/secrets/'' in
      if name = '''' then (write_error 400 ''secret name required'', d, w)
      else
        (case remove_secret (d_secrets d) name w of
           (Some e, w1) \<Rightarrow> (write_error 422 (error_text e), d, w1)
         | (None, w1) \<Rightarrow> (write_json 200 (enc_map [(''status'', ''ok''), (''name'', name)]), d, w1)))"

definition handle_mount :: "string \<Rightarrow> daemon \<Rightarrow> world \<Rightarrow> handler_result" where
  "handle_mount body d w =
     (case decode_body dec_mount zero_mount body of
        (p, Some e) \<Rightarrow> (write_error 400 (''invalid JSON: '' @ error_text e), d, w)
      | (p, None) \<Rightarrow>
          (case mount (d_mounts d) p w of
             (Some e, mm, w1) \<Rightarrow> (write_error 422 (error_text e), d\<lparr>d_mounts := mm\<rparr>, w1)
           | (None, mm, w1) \<Rightarrow>
               (write_json 201 (enc_map [(''status'', ''ok''), (''tag'', mp_tag p),
                  (''guest_path'', mp_guest_path p)]), d\<lparr>d_mounts := mm\<rparr>, w1)))"

definition handle_list_mounts :: "daemon \<Rightarrow> world \<Rightarrow> handler_result" where
  "handle_list_mounts d w =
     (write_json 200 (JObj [(''mounts'', JArr (map enc_mount (active_mounts (d_mounts d))))]), d, w)"

definition handle_shutdown :: "string \<Rightarrow> daemon \<Rightarrow> world \<Rightarrow> handler_result" where
  "handle_shutdown body d w =
     (write_json 202 (enc_map [(''status'', ''shutting_down'')]),
      start_job (fst (decode_body dec_shutdown zero_shutdown body)) d, w)"

definition handle_list_agents :: "daemon \<Rightarrow> world \<Rightarrow> handler_result" where
  "handle_list_agents d w =
     (write_json 200 (JObj [(''agents'', JArr (map enc_agent (hp_agents (health (d_lifecycle d) w))))]), d, w)"

definition run_route :: "route \<Rightarrow> string \<Rightarrow> string \<Rightarrow> daemon \<Rightarrow> world \<Rightarrow> handler_result" where
  "run_route r url_path body d w =
     (case r of
        RPing \<Rightarrow> handle_ping d w
      | RHealth \<Rightarrow> handle_get_health d w
      | RInjectSecret \<Rightarrow> handle_inject_secret body d w
      | RListSecrets \<Rightarrow> handle_list_secrets d w
      | RDeleteSecret \<Rightarrow> handle_delete_secret url_path d w
      | RMount \<Rightarrow> handle_mount body d w
      | RListMounts \<Rightarrow> handle_list_mounts d w
      | RShutdown \<Rightarrow> handle_shutdown body d w
      | RListAgents \<Rightarrow> handle_list_agents d w)"

definition serve_request :: "http_request \<Rightarrow> daemon \<Rightarrow> world \<Rightarrow> handler_result" where
  "serve_request rq d w =
     (case dispatch rq of
        Answer a \<Rightarrow> (a, d, w)
      | Handle r url_path \<Rightarrow> run_route r url_path (rq_body rq) d w)"

subsection \<open>Which handler a request reaches\<close>

lemma dispatch_body: "dispatch \<lparr>rq_method = m, rq_path = p, rq_body = b\<rparr> = dispatch \<lparr>rq_method = m, rq_path = p, rq_body = []\<rparr>"
  by (simp add: dispatch_def Let_def cong: option.case_cong)

text \<open>Each documented endpoint reaches its handler under its method, and GET endpoints under
  HEAD as well; every other method on a documented path is answered with 405, except that the
  collection path of the secrets redirects a DELETE to the path with the trailing slash.\<close>

theorem documented_routes:
  "map (\<lambda>(m, p). dispatch \<lparr>rq_method = m, rq_path = p, rq_body = b\<rparr>)
     [(''GET'', ''/v1/ping''), (''HEAD'', ''/v1/health''), (''POST'', ''/v1/secrets''), (''GET'', ''/v1/secrets''),
      (''POST'', ''/v1/mounts''), (''GET'', ''/v1/mounts''), (''POST'', ''/v1/shutdown''), (''GET'', ''/v1/agents''),
      (''PUT'', ''/v1/secrets''), (''GET'', ''/v1/shutdown''), (''DELETE'', ''/v1/secrets''), (''GET'', ''/v2/ping'')] =
   [Handle RPing ''/v1/ping'', Handle RHealth ''/v1/health'', Handle RInjectSecret ''/v1/secrets'',
    Handle RListSecrets ''/v1/secrets'', Handle RMount ''/v1/mounts'', Handle RListMounts ''/v1/mounts'',
    Handle RShutdown ''/v1/shutdown'', Handle RListAgents ''/v1/agents'',
    Answer (PlainResponse 405), Answer (PlainResponse 405), Answer (Redirect ''/v1/secrets/''),
    Answer (PlainResponse 404)]"
  unfolding dispatch_body[of _ _ b] by code_simp

lemma find_route_delete:
  "find_route ''DELETE'' p = (if path_matches ''/v1/secrets/'' p then Some (''DELETE'', ''/v1/secrets/'', RDeleteSecret) else None)"
  by (simp add: find_route_def register_routes_def method_matches_def)

text \<open>A name with every byte written as a percent sign and two hexadecimal digits.\<close>

definition esc_byte :: "char \<Rightarrow> string" where
  "esc_byte c = [CHR ''%'', hex_digit (of_char c div 16), hex_digit (of_char c mod 16)]"

definition esc_all :: "string \<Rightarrow> string" where
  "esc_all n = concat (map esc_byte n)"

lemma of_char_256: "of_char c < (256 :: nat)"
  by simp

lemma path_unescape_esc: "path_unescape (esc_all n @ s) = map_option ((@) n) (path_unescape s)"
proof (induction n)
  case Nil
  then show ?case by (cases "path_unescape s") (simp_all add: esc_all_def)
next
  case (Cons c n)
  have "of_char c div 16 < (16 :: nat)"
    using of_char_256[of c] by (intro less_mult_imp_div_less) simp
  moreover have "of_char c mod 16 < (16 :: nat)" by simp
  ultimately have v: "hex_val (hex_digit (of_char c div 16)) = Some (of_char c div 16)"
    "hex_val (hex_digit (of_char c mod 16)) = Some (of_char c mod 16)"
    by (simp_all add: hex_val_digit)
  have "char_of (16 * (of_char c div 16) + of_char c mod 16 :: nat) = c"
    by (simp only: mult_div_mod_eq char_of_char)
  then show ?case
    using Cons.IH v by (simp add: esc_all_def esc_byte_def option.map_comp comp_def)
qed

lemma hex_digit_plain:
  assumes "n < 16"
  shows "hex_digit n \<noteq> slash \<and> hex_digit n \<noteq> CHR ''.''"
  using hex_val_digit[OF assms] by (auto simp: hex_val_def between_def byte_of_def)

lemma esc_all_chars: "c \<in> set (esc_all n) \<Longrightarrow> c \<noteq> slash \<and> c \<noteq> CHR ''.''"
proof -
  assume "c \<in> set (esc_all n)"
  then obtain b where "c \<in> set (esc_byte b)" by (auto simp: esc_all_def)
  moreover have "of_char b div 16 < (16 :: nat)"
    using of_char_256[of b] by (intro less_mult_imp_div_less) simp
  moreover have "of_char b mod 16 < (16 :: nat)" by simp
  ultimately show ?thesis using hex_digit_plain by (auto simp: esc_byte_def)
qed

lemma delete_path:
  assumes "n \<noteq> ''''"
  shows "dispatch \<lparr>rq_method = ''DELETE'', rq_path = ''/v1/secrets/'' @ esc_all n, rq_body = b\<rparr> =
    Handle RDeleteSecret (''/v1/secrets/'' @ n)"
proof -
  let ?e = "esc_all n"
  have ne: "?e \<noteq> ''''" using assms by (cases n) (simp_all add: esc_all_def esc_byte_def)
  have ok: "comp_ok ?e"
    using esc_all_chars[of _ n] ne by (fastforce simp: comp_ok_def)
  have path: "''/v1/secrets/'' @ ?e = path_string [''v1'', ''secrets'', ?e]" by (simp add: path_string_def)
  have comps: "comps_ok [''v1'', ''secrets'', ?e]" using ok by (simp add: comps_ok_def comp_ok_def)
  have lst: "last (''/v1/secrets/'' @ ?e) \<noteq> slash"
    using ne esc_all_chars[of "last ?e" n] by simp
  have cp: "clean_path (''/v1/secrets/'' @ ?e) = ''/v1/secrets/'' @ ?e"
  proof -
    have "clean (''/v1/secrets/'' @ ?e) = ''/v1/secrets/'' @ ?e"
      unfolding path by (rule clean_path_string[OF comps])
    then show ?thesis using lst by (simp add: clean_path_def Let_def)
  qed
  have un: "path_unescape (''/v1/secrets/'' @ ?e) = Some (''/v1/secrets/'' @ n)"
    using path_unescape_esc[of n "[]"] by simp
  have sp: "split_on slash (''v1/secrets/'' @ ?e) = [''v1'', ''secrets'', ?e]"
    using split_path_string[OF comps] by (simp add: path_string_def)
  have "segments (''/v1/secrets/'' @ ?e) = [''v1'', ''secrets'', unescape_segment ?e]"
    using sp ne by (simp add: segments_def Let_def unescape_segment_def)
  moreover have "segments ''/v1/secrets/'' = [''v1'', ''secrets'', ''/'']" by code_simp
  ultimately have "path_matches ''/v1/secrets/'' (''/v1/secrets/'' @ ?e)"
    by (simp add: path_matches_def)
  then show ?thesis using cp un by (simp add: dispatch_def Let_def find_route_delete)
qed

text \<open>Through a DELETE request with an escaped path every non-empty byte string reaches
  \<open>Remove\<close> as a name, those with slashes and the names dot and root included; the response is
  200 with the name when it returned no error and 422 with its error otherwise.\<close>

theorem delete_reaches_remove:
  assumes "n \<noteq> ''''"
  shows "serve_request \<lparr>rq_method = ''DELETE'', rq_path = ''/v1/secrets/'' @ esc_all n, rq_body = b\<rparr> d w =
    (let (r, w') = remove_secret (d_secrets d) n w in
     ((case r of None \<Rightarrow> write_json 200 (JObj [(''name'', JStr n), (''status'', JStr ''ok'')])
       | Some e \<Rightarrow> write_error 422 (error_text e)), d, w'))"
proof -
  have "trim_prefix (''/v1/secrets/'' @ n) ''/v1/secrets/'' = n"
    by (simp add: trim_prefix_def has_prefix_def)
  moreover have "enc_map [(''status'', ''ok''), (''name'', n)] = JObj [(''name'', JStr n), (''status'', JStr ''ok'')]"
    by (simp add: enc_map_def)
  ultimately show ?thesis
    unfolding serve_request_def delete_path[OF assms]
    by (simp add: run_route_def handle_delete_secret_def assms Let_def split: prod.split option.split)
qed

theorem delete_reaches_remove_witness:
  "serve_request \<lparr>rq_method = ''DELETE'', rq_path = ''/v1/secrets/%2e'', rq_body = ''''\<rparr> (new_daemon (quiet_world [])) (quiet_world []) =
    (let (r, w') = remove_secret (d_secrets (new_daemon (quiet_world []))) ''.'' (quiet_world []) in
     ((case r of None \<Rightarrow> write_json 200 (JObj [(''name'', JStr ''.''), (''status'', JStr ''ok'')])
       | Some e \<Rightarrow> write_error 422 (error_text e)), new_daemon (quiet_world []), w'))"
proof -
  have "esc_all ''.'' = ''%2e''" by code_simp
  then show ?thesis using delete_reaches_remove[of "''.''" "''''" "new_daemon (quiet_world [])" "quiet_world []"] by simp
qed

subsection \<open>Effects and status codes\<close>

lemma list_secrets_quiet:
  "w_fs (snd (list_secrets sm w)) = w_fs w \<and> w_trace (snd (list_secrets sm w)) = w_trace w"
  by (simp add: list_secrets_def os_read_dir_def call_unfold split: prod.split option.split sum.split node.split fault.split)

lemma get_routes:
  "find_route m p = Some (''GET'', pp, r) \<Longrightarrow> r \<in> {RPing, RHealth, RListSecrets, RListMounts, RListAgents}"
  by (auto simp: find_route_def register_routes_def split: if_splits)

lemma dispatch_Handle:
  "dispatch rq = Handle r p \<Longrightarrow>
   \<exists>pm pp. find_route (rq_method rq) (clean_path (rq_path rq)) = Some (pm, pp, r) \<and> path_unescape (rq_path rq) = Some p"
  by (auto simp: dispatch_def Let_def split: option.splits prod.splits if_splits)

lemma method_get:
  assumes "find_route m p = Some (pm, pp, r)" and "m \<in> {''GET'', ''HEAD''}"
  shows "pm = ''GET''"
  using assms by (auto simp: find_route_def register_routes_def method_matches_def split: if_splits)

text \<open>Reading through the API is safe: a request that reaches a GET endpoint, whatever its
  answer, changes nothing of the daemon, no file, and runs no command.\<close>

theorem get_requests_are_safe:
  assumes "rq_method rq \<in> {''GET'', ''HEAD''}"
  shows "fst (snd (serve_request rq d w)) = d \<and>
    w_fs (snd (snd (serve_request rq d w))) = w_fs w \<and>
    w_trace (snd (snd (serve_request rq d w))) = w_trace w"
proof (cases "dispatch rq")
  case (Answer a)
  then show ?thesis by (simp add: serve_request_def)
next
  case (Handle r p)
  from dispatch_Handle[OF Handle] obtain pm pp
    where f: "find_route (rq_method rq) (clean_path (rq_path rq)) = Some (pm, pp, r)" by blast
  have "r \<in> {RPing, RHealth, RListSecrets, RListMounts, RListAgents}"
    using get_routes f method_get[OF f assms] by simp
  then show ?thesis
    using Handle list_secrets_quiet[of "d_secrets d" w]
    by (auto simp: serve_request_def run_route_def handle_ping_def handle_get_health_def
        handle_list_secrets_def handle_list_mounts_def handle_list_agents_def split: prod.split sum.split)
qed

text \<open>The wording of the two interfaces: a POST request, and a message of the host.\<close>

definition post :: "string \<Rightarrow> string \<Rightarrow> http_request" where
  "post p body = \<lparr>rq_method = ''POST'', rq_path = p, rq_body = body\<rparr>"

lemma dispatch_post:
  "dispatch (post ''/v1/secrets'' b) = Handle RInjectSecret ''/v1/secrets''"
  "dispatch (post ''/v1/mounts'' b) = Handle RMount ''/v1/mounts''"
  "dispatch (post ''/v1/shutdown'' b) = Handle RShutdown ''/v1/shutdown''"
  unfolding post_def dispatch_body[of _ _ b] by code_simp+

lemma serve_post:
  "serve_request (post ''/v1/secrets'' b) d w = handle_inject_secret b d w"
  "serve_request (post ''/v1/mounts'' b) d w = handle_mount b d w"
  "serve_request (post ''/v1/shutdown'' b) d w = handle_shutdown b d w"
  by (simp_all add: serve_request_def dispatch_post run_route_def) (simp_all add: post_def)

text \<open>C24: The two ways into the daemon agree. The same payload, sent as the body of a POST
  request (followed by anything that cannot continue it) or as a message of the host, does the
  same to the daemon and to the world, for injecting a secret, mounting and shutting down, and
  the API answers 201 exactly when the host gets a positive acknowledgement.\<close>

theorem api_agrees_with_messages:
  assumes "\<forall>s \<in> {sp_name sp, sp_value sp, mp_tag mp, mp_guest_path mp, mp_fs_type mp, sd_reason sd}. utf8_ok s"
    and "ends_number r"
  shows "(let api = serve_request (post ''/v1/secrets'' (print_json (enc_secret sp) @ r)) d w;
        msg = handle_message d \<lparr>env_type = msg_inject_secret, env_payload = Some (enc_secret sp)\<rparr> w
      in snd api = snd msg \<and> ((\<exists>j. fst api = JsonResponse 201 j) \<longleftrightarrow> fst msg = send_ack msg_inject_secret None)) \<and>
    (let api = serve_request (post ''/v1/mounts'' (print_json (enc_mount mp) @ r)) d w;
        msg = handle_message d \<lparr>env_type = msg_mount, env_payload = Some (enc_mount mp)\<rparr> w
      in snd api = snd msg \<and> ((\<exists>j. fst api = JsonResponse 201 j) \<longleftrightarrow> fst msg = send_ack msg_mount None)) \<and>
    snd (serve_request (post ''/v1/shutdown'' (print_json (enc_shutdown sd) @ r)) d w) =
      snd (handle_message d \<lparr>env_type = msg_shutdown, env_payload = Some (enc_shutdown sd)\<rparr> w)"
proof -
  have "wire_ok max_nesting (enc_secret sp)" "wire_ok max_nesting (enc_mount mp)" "wire_ok max_nesting (enc_shutdown sd)"
    using assms(1) by (simp_all add: enc_defs ball_Un max_nesting_def)
  note dt = this[THEN decode_text_print, OF assms(2)]
  have db: "decode_body dec_secret zero_secret (print_json (enc_secret sp) @ r) = (sp, None)"
    "decode_body dec_mount zero_mount (print_json (enc_mount mp) @ r) = (mp, None)"
    "decode_body dec_shutdown zero_shutdown (print_json (enc_shutdown sd) @ r) = (sd, None)"
    by (simp_all add: decode_body_def dt dec_enc_secret dec_enc_mount dec_enc_shutdown)
  obtain rs p1 w1 where i: "inject (d_secrets d) sp w = (rs, p1, w1)" using prod_cases3 by blast
  obtain rm mm w2 where m: "mount (d_mounts d) mp w = (rm, mm, w2)" using prod_cases3 by blast
  have pos: "send_ack t x = send_ack t None \<longleftrightarrow> x = None" for t x
    by (cases x) (simp_all add: send_ack_eq ack_envelope_def ack_of_def enc_ack_def)
  show ?thesis
    by (intro conjI; cases rs; cases rm)
       (simp_all add: serve_post command_results handle_inject_secret_def handle_mount_def
         handle_shutdown_def db i m pos write_json_def write_error_def start_job_def)
qed

theorem api_agrees_with_messages_witness:
  "snd (serve_request (post ''/v1/secrets'' (print_json (enc_secret \<lparr>sp_name = ''k'', sp_value = ''v'', sp_mode = 0\<rparr>) @ [])) (new_daemon (quiet_world [])) (quiet_world [])) =
   snd (handle_message (new_daemon (quiet_world [])) \<lparr>env_type = msg_inject_secret, env_payload = Some (enc_secret \<lparr>sp_name = ''k'', sp_value = ''v'', sp_mode = 0\<rparr>)\<rparr> (quiet_world []))"
proof -
  have "utf8_ok ''k''" "utf8_ok ''v''" by code_simp+
  then show ?thesis
    using api_agrees_with_messages[of "\<lparr>sp_name = ''k'', sp_value = ''v'', sp_mode = 0\<rparr>" zero_mount zero_shutdown "[]" "new_daemon (quiet_world [])" "quiet_world []"]
    by (simp add: zero_mount_def zero_shutdown_def Let_def)
qed

theorem get_requests_are_safe_witness:
  "fst (snd (serve_request \<lparr>rq_method = ''HEAD'', rq_path = ''/v1/secrets'', rq_body = ''''\<rparr> (new_daemon (quiet_world [])) (quiet_world []))) =
   new_daemon (quiet_world [])"
  using get_requests_are_safe[of "\<lparr>rq_method = ''HEAD'', rq_path = ''/v1/secrets'', rq_body = ''''\<rparr>" "new_daemon (quiet_world [])" "quiet_world []"] by simp

end
