(* ===== verification/Server.thy ===== *)
theory Server
  imports Daemon
begin

text \<open>
  The control plane server (pkg/server.go): connections carry newline-delimited JSON messages,
  read by a scanner with a limit on the length of a line, given to a handler one after the
  other, and answered on the same connection.
\<close>

subsection \<open>The scanner\<close>

text \<open>
  \<open>bufio.Scanner\<close> with \<open>ScanLines\<close>: the bytes that arrive before the end of the stream (or a read
  error) are cut at newlines; a carriage return before the newline is dropped; the rest after
  the last newline is a line too, if there is any. A line that fills the buffer without its
  newline ends the scan with an error, which the flag says.
\<close>

definition max_token :: nat where
  "max_token = 1024 * 1024"

definition drop_cr :: "string \<Rightarrow> string" where
  "drop_cr l = (if l \<noteq> [] \<and> last l = CHR 0x0D then butlast l else l)"

function scan_lines :: "string \<Rightarrow> string list \<times> bool" where
  "scan_lines [] = ([], False)"
| "scan_lines (c # cs) =
     (let l = takeWhile (\<lambda>x. x \<noteq> newline) (c # cs); rest = dropWhile (\<lambda>x. x \<noteq> newline) (c # cs) in
      if max_token \<le> length l then ([], True)
      else
        (case rest of
           [] \<Rightarrow> ([drop_cr l], False)
         | n # rest1 \<Rightarrow> (let (ls, long) = scan_lines rest1 in (drop_cr l # ls, long))))"
  by pat_completeness auto
termination
proof (relation "measure length")
  fix c cs l rest n rest1
  assume "rest = dropWhile (\<lambda>x. x \<noteq> newline) (c # cs)" and "rest = n # rest1"
  then have "length (n # rest1) \<le> length (c # cs)" by (metis length_dropWhile_le)
  then show "(rest1, c # cs) \<in> measure length" by simp
qed simp

subsection \<open>Answers on a connection\<close>

text \<open>
  The encoder of the connection: what it sent, and whether a write failed, after which it
  sends nothing more. \<open>fails\<close> says which write fails and after how many bytes.
\<close>

record conn_out =
  co_sent :: string
  co_err :: bool
  co_writes :: nat

definition new_conn_out :: conn_out where
  "new_conn_out = \<lparr>co_sent = [], co_err = False, co_writes = 0\<rparr>"

definition encode :: "(nat \<Rightarrow> nat option) \<Rightarrow> envelope \<Rightarrow> conn_out \<Rightarrow> bool \<times> conn_out" where
  "encode fails v out =
     (if co_err out then (False, out)
      else
        (case fails (co_writes out) of
           None \<Rightarrow> (True, out\<lparr>co_sent := co_sent out @ encode_line (enc_envelope v),
                             co_writes := Suc (co_writes out)\<rparr>)
         | Some k \<Rightarrow> (False, out\<lparr>co_sent := co_sent out @ take k (encode_line (enc_envelope v)),
                                co_err := True, co_writes := Suc (co_writes out)\<rparr>)))"

type_synonym 's handler = "envelope \<Rightarrow> 's \<Rightarrow> (go_error + envelope option) \<times> 's"

datatype line_reply = ErrorAck envelope | Response envelope | NoResponse

definition error_ack :: "message_type \<Rightarrow> string \<Rightarrow> envelope" where
  "error_ack t msg = ack_envelope \<lparr>ap_reply_to = t, ap_ok = False, ap_error = msg\<rparr>"

text \<open>One line that is not empty: the message in it, and what the handler says.\<close>

definition process_line :: "'s handler \<Rightarrow> string \<Rightarrow> 's \<Rightarrow> line_reply \<times> 's" where
  "process_line h line s =
     (case receive_line line of
        None \<Rightarrow> (ErrorAck (error_ack '''' (''malformed JSON: '' @ error_text json_syntax_error)), s)
      | Some (env, Some e) \<Rightarrow> (ErrorAck (error_ack '''' (''malformed JSON: '' @ error_text e)), s)
      | Some (env, None) \<Rightarrow>
          (case h env s of
             (Inl e, s1) \<Rightarrow> (ErrorAck (error_ack (env_type env) (error_text e)), s1)
           | (Inr None, s1) \<Rightarrow> (NoResponse, s1)
           | (Inr (Some v), s1) \<Rightarrow> (Response v, s1)))"

text \<open>
  The loop of a connection; \<open>ctx i\<close> is whether the context is seen cancelled before the i-th line.
  A failed write ends the loop only when it was that of a response.
\<close>

fun serve_lines ::
  "'s handler \<Rightarrow> (nat \<Rightarrow> nat option) \<Rightarrow> (nat \<Rightarrow> bool) \<Rightarrow> nat \<Rightarrow> string list \<Rightarrow> 's \<Rightarrow> conn_out \<Rightarrow> 's \<times> conn_out" where
  "serve_lines h fails ctx i [] s out = (s, out)"
| "serve_lines h fails ctx i (l # ls) s out =
     (if ctx i then (s, out)
      else if l = [] then serve_lines h fails ctx (Suc i) ls s out
      else
        (case process_line h l s of
           (ErrorAck v, s1) \<Rightarrow>
             (let (ignored, out1) = encode fails v out in serve_lines h fails ctx (Suc i) ls s1 out1)
         | (Response v, s1) \<Rightarrow>
             (let (ok, out1) = encode fails v out in
              if ok then serve_lines h fails ctx (Suc i) ls s1 out1 else (s1, out1))
         | (NoResponse, s1) \<Rightarrow> serve_lines h fails ctx (Suc i) ls s1 out))"

definition handle_connection ::
  "'s handler \<Rightarrow> (nat \<Rightarrow> nat option) \<Rightarrow> (nat \<Rightarrow> bool) \<Rightarrow> string \<Rightarrow> 's \<Rightarrow> 's \<times> conn_out" where
  "handle_connection h fails ctx input s =
     serve_lines h fails ctx 0 (fst (scan_lines input)) s new_conn_out"

subsection \<open>Accepting\<close>

text \<open>
  What Accept gives: a connection, or an error together with whether the context is done. The
  loop hands every connection to a goroutine; it returns only on an error, and the result is
  \<open>None\<close> while it is still waiting.
\<close>

datatype accept_event = Accepted string | AcceptFailed go_error bool

fun serve_loop :: "accept_event list \<Rightarrow> string list \<times> go_error option option" where
  "serve_loop [] = ([], None)"
| "serve_loop (Accepted input # es) = (let (cs, r) = serve_loop es in (input # cs, r))"
| "serve_loop (AcceptFailed e done # es) =
     ([], Some (if done then None else Some (ErrWrap ''accept: '' e)))"

subsection \<open>What a connection answers\<close>

text \<open>The answers to a list of lines when nothing fails, and the state after them.\<close>

fun line_envelopes :: "line_reply \<Rightarrow> envelope list" where
  "line_envelopes (ErrorAck v) = [v]"
| "line_envelopes (Response v) = [v]"
| "line_envelopes NoResponse = []"

fun replies :: "'s handler \<Rightarrow> string list \<Rightarrow> 's \<Rightarrow> envelope list \<times> 's" where
  "replies h [] s = ([], s)"
| "replies h (l # ls) s =
     (if l = [] then replies h ls s
      else
        (let (r, s1) = process_line h l s; (vs, s2) = replies h ls s1 in (line_envelopes r @ vs, s2)))"

definition wire_text :: "envelope list \<Rightarrow> string" where
  "wire_text vs = concat (map (\<lambda>v. encode_line (enc_envelope v)) vs)"

lemma wire_text_simps [simp]:
  "wire_text [] = []" "wire_text (v # vs) = encode_line (enc_envelope v) @ wire_text vs"
  "wire_text (us @ vs) = wire_text us @ wire_text vs"
  by (simp_all add: wire_text_def)

lemma replies_append: "replies h (ls @ ms) s =
  (fst (replies h ls s) @ fst (replies h ms (snd (replies h ls s))), snd (replies h ms (snd (replies h ls s))))"
  by (induction ls arbitrary: s) (simp_all split: prod.split)

lemma serve_lines_ok:
  assumes "\<And>n. fails n = None" and "\<And>n. \<not> ctx n" and "\<not> co_err out"
  shows "fst (serve_lines h fails ctx i ls s out) = snd (replies h ls s) \<and>
    co_sent (snd (serve_lines h fails ctx i ls s out)) = co_sent out @ wire_text (fst (replies h ls s))"
  using assms(3)
proof (induction ls arbitrary: i s out)
  case Nil
  then show ?case by simp
next
  case (Cons l ls)
  show ?case
  proof (cases "l = []")
    case True
    then show ?thesis using Cons assms(2) by simp
  next
    case False
    obtain r s1 where p: "process_line h l s = (r, s1)" by force
    have e: "encode fails v out = (True, out\<lparr>co_sent := co_sent out @ encode_line (enc_envelope v),
        co_writes := Suc (co_writes out)\<rparr>)" for v
      using Cons.prems assms(1) by (simp add: encode_def)
    show ?thesis
    proof (cases r)
      case NoResponse
      then show ?thesis using Cons False p assms(2) by (simp split: prod.split)
    next
      case (ErrorAck v)
      then show ?thesis using Cons.IH[of "out\<lparr>co_sent := co_sent out @ encode_line (enc_envelope v),
        co_writes := Suc (co_writes out)\<rparr>" "Suc i" s1] Cons.prems False p assms(2) e
        by (simp split: prod.split)
    next
      case (Response v)
      then show ?thesis using Cons.IH[of "out\<lparr>co_sent := co_sent out @ encode_line (enc_envelope v),
        co_writes := Suc (co_writes out)\<rparr>" "Suc i" s1] Cons.prems False p assms(2) e
        by (simp split: prod.split)
    qed
  qed
qed

text \<open>While nothing fails, a connection sends the answers to its lines, in the order of the
  lines and each on a line of its own; empty lines get none, and every line is given to the
  handler in the state the line before it left.\<close>

theorem connection_answers_in_order:
  assumes "\<And>n. fails n = None" and "\<And>n. \<not> ctx n"
  shows "let ls = fst (scan_lines input) in
    fst (handle_connection h fails ctx input s) = snd (replies h ls s) \<and>
    co_sent (snd (handle_connection h fails ctx input s)) = wire_text (fst (replies h ls s))"
  using serve_lines_ok[of fails ctx new_conn_out h 0 "fst (scan_lines input)" s] assms
  by (simp add: handle_connection_def new_conn_out_def Let_def)

lemma encode_stuck: "co_err out \<Longrightarrow> encode fails v out = (False, out)"
  by (simp add: encode_def)

text \<open>\<open>s'\<close> is the state after some first lines of \<open>ls\<close> from \<open>s\<close>.\<close>

definition given :: "'s handler \<Rightarrow> string list \<Rightarrow> 's \<Rightarrow> 's \<Rightarrow> bool" where
  "given h ls s s' \<longleftrightarrow> (\<exists>k. s' = snd (replies h (take k ls) s))"

lemma given_start: "given h ls s s"
  by (auto simp: given_def intro!: exI[of _ 0])

lemma given_skip: "given h ls s s' \<Longrightarrow> given h ([] # ls) s s'"
  unfolding given_def by (metis replies.simps(2) take_Suc_Cons)

lemma given_step:
  assumes "l \<noteq> []" and "process_line h l s = (r, s1)" and "given h ls s1 s'"
  shows "given h (l # ls) s s'"
proof -
  from assms(3) obtain k where k: "s' = snd (replies h (take k ls) s1)" by (auto simp: given_def)
  have "s' = snd (replies h (take (Suc k) (l # ls)) s)"
    using assms(1,2) k by (simp split: prod.split)
  then show ?thesis unfolding given_def by blast
qed

lemma serve_lines_stuck:
  "co_err out \<Longrightarrow> snd (serve_lines h fails ctx i ls s out) = out \<and>
   given h ls s (fst (serve_lines h fails ctx i ls s out))"
proof (induction ls arbitrary: i s)
  case Nil
  then show ?case by (simp add: given_start)
next
  case (Cons l ls)
  obtain r s1 where p: "process_line h l s = (r, s1)" by force
  have step: "l \<noteq> [] \<Longrightarrow> given h ls s1 s' \<Longrightarrow> given h (l # ls) s s'" for s'
    using given_step[OF _ p] by blast
  show ?case
    using Cons p step given_start[of h "l # ls" s] given_start[of h ls s1] encode_stuck[OF Cons.prems]
    by (cases r) (auto intro: given_skip)
qed

lemma prefix_take_append: "prefix (a @ take k b) (a @ b @ c)"
  by (metis append.assoc append_take_drop_id prefixI)

lemma serve_lines_prefix:
  assumes "\<not> co_err out"
  shows "prefix (co_sent (snd (serve_lines h fails ctx i ls s out))) (co_sent out @ wire_text (fst (replies h ls s))) \<and>
    given h ls s (fst (serve_lines h fails ctx i ls s out))"
  using assms
proof (induction ls arbitrary: i s out)
  case Nil
  then show ?case by (simp add: given_start)
next
  case (Cons l ls)
  obtain r s1 where p: "process_line h l s = (r, s1)" by force
  consider "ctx i" | "\<not> ctx i" "l = []" | "\<not> ctx i" "l \<noteq> []" by blast
  then show ?case
  proof cases
    case 1
    then show ?thesis by (simp add: given_start)
  next
    case 2
    then show ?thesis using Cons.IH[OF Cons.prems, of "Suc i" s] by (auto intro: given_skip)
  next
    case 3
    have step: "given h ls s1 s' \<Longrightarrow> given h (l # ls) s s'" for s'
      using given_step[OF 3(2) p] .
    have w: "wire_text (fst (replies h (l # ls) s)) = wire_text (line_envelopes r) @ wire_text (fst (replies h ls s1))"
      using 3 p by (simp split: prod.split)
    show ?thesis
    proof (cases "line_envelopes r")
      case Nil
      then have r: "r = NoResponse" by (cases r) simp_all
      then have e: "serve_lines h fails ctx i (l # ls) s out = serve_lines h fails ctx (Suc i) ls s1 out"
        using 3 p by simp
      show ?thesis using Cons.IH[OF Cons.prems, of "Suc i" s1] step w r e by simp
    next
      case (Cons v vs)
      then have r: "r = ErrorAck v \<or> r = Response v" and vs: "line_envelopes r = [v]" by (cases r; simp)+
      show ?thesis
      proof (cases "fails (co_writes out)")
        case None
        let ?o = "out\<lparr>co_sent := co_sent out @ encode_line (enc_envelope v), co_writes := Suc (co_writes out)\<rparr>"
        have "encode fails v out = (True, ?o)" using None Cons.prems by (simp add: encode_def)
        then have e: "serve_lines h fails ctx i (l # ls) s out = serve_lines h fails ctx (Suc i) ls s1 ?o"
          using 3 p r by auto
        have "\<not> co_err ?o" using Cons.prems by simp
        from Cons.IH[OF this, of "Suc i" s1] show ?thesis using step w vs e by simp
      next
        case (Some k)
        let ?o = "out\<lparr>co_sent := co_sent out @ take k (encode_line (enc_envelope v)), co_err := True,
          co_writes := Suc (co_writes out)\<rparr>"
        have en: "encode fails v out = (False, ?o)" using Some Cons.prems by (simp add: encode_def)
        have pre: "prefix (co_sent ?o) (co_sent out @ wire_text (fst (replies h (l # ls) s)))"
          using w vs prefix_take_append by simp
        have "co_err ?o" by simp
        note stuck = serve_lines_stuck[OF this, of h fails ctx "Suc i" ls s1]
        have "serve_lines h fails ctx i (l # ls) s out =
            (if r = Response v then (s1, ?o) else serve_lines h fails ctx (Suc i) ls s1 ?o)"
          using 3 p r en by auto
        then show ?thesis using pre stuck step given_start[of h ls s1] by auto
      qed
    qed
  qed
qed

text \<open>C17: Whatever write fails after however many bytes, and whenever the context is cancelled,
  what was sent is a prefix of the answers of an undisturbed connection, so the host never sees
  an answer out of place, and the handler has been given the lines up to some point, each once
  and in order.\<close>

theorem connection_prefix_on_failure:
  "let ls = fst (scan_lines input) in
   prefix (co_sent (snd (handle_connection h fails ctx input s))) (wire_text (fst (replies h ls s))) \<and>
   (\<exists>k. fst (handle_connection h fails ctx input s) = snd (replies h (take k ls) s))"
  using serve_lines_prefix[of new_conn_out h fails ctx 0 "fst (scan_lines input)" s]
  by (simp add: handle_connection_def new_conn_out_def Let_def given_def)

theorem connection_answers_in_order_witness:
  "co_sent (snd (handle_connection (\<lambda>env s. (Inr None, s)) (\<lambda>n. None) (\<lambda>n. False) ''x'' (0 :: nat))) =
   wire_text (fst (replies (\<lambda>env s. (Inr None, s)) (fst (scan_lines ''x'')) (0 :: nat)))"
  using connection_answers_in_order[of "\<lambda>n. None" "\<lambda>n. False" "''x''" "\<lambda>env s. (Inr None, s)" "0 :: nat"]
  by (simp add: Let_def)

subsection \<open>Lines\<close>

lemma takeWhile_upto: "newline \<notin> set l \<Longrightarrow> takeWhile (\<lambda>x. x \<noteq> newline) (l @ newline # rest) = l"
  by (induction l) auto

lemma dropWhile_upto: "newline \<notin> set l \<Longrightarrow> dropWhile (\<lambda>x. x \<noteq> newline) (l @ newline # rest) = newline # rest"
  by (induction l) auto

lemma scan_lines_unfold:
  "s \<noteq> [] \<Longrightarrow> scan_lines s =
     (let l = takeWhile (\<lambda>x. x \<noteq> newline) s; rest = dropWhile (\<lambda>x. x \<noteq> newline) s in
      if max_token \<le> length l then ([], True)
      else
        (case rest of
           [] \<Rightarrow> ([drop_cr l], False)
         | n # rest1 \<Rightarrow> (let (ls, long) = scan_lines rest1 in (drop_cr l # ls, long))))"
  by (cases s) (simp_all only: scan_lines.simps)

lemma scan_line:
  assumes "newline \<notin> set l" and "length l < max_token"
  shows "scan_lines (l @ newline # rest) = (drop_cr l # fst (scan_lines rest), snd (scan_lines rest))"
  using assms(2)
  by (subst scan_lines_unfold)
     (simp_all add: takeWhile_upto[OF assms(1)] dropWhile_upto[OF assms(1)] split: prod.split)

lemma scan_lines_many:
  assumes "\<forall>l\<in>set ls. newline \<notin> set l \<and> length l < max_token"
  shows "scan_lines (concat (map (\<lambda>l. l @ [newline]) ls) @ rest) =
    (map drop_cr ls @ fst (scan_lines rest), snd (scan_lines rest))"
  using assms by (induction ls) (simp_all add: scan_line)

lemma scan_too_long: "max_token \<le> length (takeWhile (\<lambda>x. x \<noteq> newline) s) \<Longrightarrow> scan_lines s = ([], True)"
  by (cases s) (simp_all add: max_token_def Let_def)

text \<open>C30: The scanner cuts the stream at its newlines: lines below the limit of 1 MiB are
  delivered one by one, without a final carriage return, and what follows them is scanned the
  same way; a line of 1 MiB or more ends the scan with an error, so that neither it nor any
  message after it is delivered, while those before it are.\<close>

theorem scanner_limit:
  assumes "\<forall>l\<in>set ls. newline \<notin> set l \<and> length l < 2 ^ 20"
  shows "scan_lines (concat (map (\<lambda>l. l @ [newline]) ls) @ rest) =
      (map drop_cr ls @ fst (scan_lines rest), snd (scan_lines rest)) \<and>
    (2 ^ 20 \<le> length (takeWhile (\<lambda>x. x \<noteq> newline) rest) \<longrightarrow>
      scan_lines (concat (map (\<lambda>l. l @ [newline]) ls) @ rest) = (map drop_cr ls, True))"
  using scan_lines_many[of ls rest] scan_too_long[of rest] assms by (simp add: max_token_def)

theorem scanner_limit_witness:
  "scan_lines (concat (map (\<lambda>l. l @ [newline]) [''a'', ''b'' @ [CHR 0x0D]]) @ ''c'') = ([''a'', ''b'', ''c''], False)"
proof -
  have "scan_lines ''c'' = ([''c''], False)" by (simp add: max_token_def drop_cr_def)
  then show ?thesis
    using scanner_limit[of "[''a'', ''b'' @ [CHR 0x0D]]" "''c''"] by (simp add: drop_cr_def)
qed

subsection \<open>The handler\<close>

text \<open>
  What the server needs of its handler: that its answers can be written as JSON, within the
  nesting limit of the reader.
\<close>

locale message_handler =
  fixes handle :: "'s handler"
  assumes answers_fit: "handle env s = (Inr (Some v), s') \<Longrightarrow> json_fits max_nesting (enc_envelope v)"
begin

lemma line_answers_fit:
  assumes "process_line handle l s = (r, s')" and "v \<in> set (line_envelopes r)"
  shows "json_fits max_nesting (enc_envelope v)"
proof -
  have ack: "json_fits max_nesting (enc_envelope (error_ack t m))" for t m
    by (simp add: error_ack_def ack_envelope_def enc_envelope_def enc_ack_def omit_if_def max_nesting_def)
  show ?thesis
    using assms ack by (auto simp: process_line_def dest: answers_fit split: option.splits prod.splits sum.splits)
qed

lemma answers_all_fit: "v \<in> set (fst (replies handle ls s)) \<Longrightarrow> json_fits max_nesting (enc_envelope v)"
proof (induction ls arbitrary: s)
  case (Cons l ls)
  obtain r s1 where p: "process_line handle l s = (r, s1)" by force
  show ?case
  proof (cases "l = []")
    case True
    then show ?thesis using Cons by simp
  next
    case False
    then have "v \<in> set (line_envelopes r) \<or> v \<in> set (fst (replies handle ls s1))"
      using Cons.prems p by (auto split: prod.splits)
    then show ?thesis using line_answers_fit[OF p] Cons.IH by blast
  qed
qed simp

text \<open>The host can read every answer: it is one line, and the line is JSON.\<close>

lemma answers_readable:
  assumes "v \<in> set (fst (replies handle ls s))"
  shows "(\<exists>t. encode_line (enc_envelope v) = t @ [newline] \<and> newline \<notin> set t) \<and>
    unmarshal_text (encode_line (enc_envelope v)) = Some (sanitize_json (enc_envelope v))"
  using answers_all_fit[OF assms] unmarshal_encode_line print_json_no_newline
  by (auto simp: encode_line_def)

end

text \<open>The daemon as a handler.\<close>

definition daemon_handler :: "(daemon \<times> world) handler" where
  "daemon_handler env s =
     (let (d, w) = s; (r, d1, w1) = handle_message d env w in (r, d1, w1))"

lemma fits_omit:
  "(\<forall>m\<in>set (omit_if z k j). json_fits d (snd m)) \<longleftrightarrow> z \<or> json_fits d j"
  by (auto simp: omit_if_def)

lemma fits_number [simp]: "json_fits d (enc_nat n)" "json_fits d (enc_int i)"
  using wire_ok_numbers by (simp_all add: wire_ok_def)

lemma fits_health: "json_fits 4 (enc_health h)"
  by (simp add: enc_health_def enc_agent_def ball_Un fits_omit)

lemma json_fits_mono: "json_fits d j \<Longrightarrow> d \<le> e \<Longrightarrow> json_fits e j"
proof (induction j arbitrary: d e)
  case (JArr js)
  then have "0 < e" "d - 1 \<le> e - 1" by auto
  then show ?case using JArr.IH[of _ "d - 1" "e - 1"] JArr.prems by auto
next
  case (JObj ms)
  then have e: "0 < e" "d - 1 \<le> e - 1" by auto
  have "json_fits (e - 1) (snd m)" if "m \<in> set ms" for m
    using JObj.IH[of m "snd m" "d - 1" "e - 1"] that e JObj.prems by (cases m) auto
  then show ?case using e by simp
qed simp_all

lemma fits_ack: "json_fits 5 (enc_envelope (ack_envelope a))"
  by (simp add: ack_envelope_def enc_envelope_def enc_ack_def omit_if_def)

lemma daemon_answers_fit:
  assumes "handle_message d env w = (Inr (Some v), d', w')"
  shows "json_fits 5 (enc_envelope v)"
proof -
  consider "env_type env = msg_ping" | "env_type env = msg_get_health" | "env_type env \<in> set commands"
    | "env_type env \<notin> set (msg_ping # msg_get_health # commands)" by auto
  then show ?thesis
  proof cases
    case 1
    then show ?thesis using assms by (auto simp: handle_message_simps enc_envelope_def)
  next
    case 2
    then show ?thesis using assms fits_health[of "health (d_lifecycle d) w"]
      by (auto simp: handle_message_simps enc_envelope_def)
  next
    case 3
    then show ?thesis
      using handle_message_acknowledged[OF 3, of d w] assms fits_ack by (auto simp: acknowledged_def)
  next
    case 4
    then show ?thesis using assms handle_message_unknown[OF 4, of d w] by simp
  qed
qed

interpretation ctl: message_handler daemon_handler
proof
  fix env v and s s' :: "daemon \<times> world"
  assume "daemon_handler env s = (Inr (Some v), s')"
  then obtain d w d' w' where "handle_message d env w = (Inr (Some v), d', w')"
    by (cases s; cases s') (auto simp: daemon_handler_def split: prod.splits)
  then have "json_fits 5 (enc_envelope v)" by (rule daemon_answers_fit)
  then show "json_fits max_nesting (enc_envelope v)"
    by (rule json_fits_mono) (simp add: max_nesting_def)
qed

text \<open>One answer per line: the daemon never stays silent and never answers twice.\<close>

lemma daemon_line_answered: "process_line daemon_handler l s = (r, s') \<Longrightarrow> length (line_envelopes r) = 1"
proof -
  assume p: "process_line daemon_handler l s = (r, s')"
  obtain d w where s: "s = (d, w)" by (cases s)
  have no: "fst (handle_message d env w) \<noteq> Inr None" for env
  proof -
    consider "env_type env = msg_ping" | "env_type env = msg_get_health" | "env_type env \<in> set commands"
      | "env_type env \<notin> set (msg_ping # msg_get_health # commands)" by auto
    then show ?thesis
    proof cases
      case 3
      then show ?thesis using handle_message_acknowledged[OF 3, of d w] by (auto simp: acknowledged_def)
    next
      case 4
      then show ?thesis by (simp add: handle_message_unknown)
    qed (simp_all add: handle_message_simps)
  qed
  show ?thesis
  proof (cases "receive_line l")
    case None
    then show ?thesis using p by (auto simp: process_line_def)
  next
    case (Some m)
    obtain env e where m: "m = (env, e)" by (cases m)
    obtain x d1 w1 where h: "handle_message d env w = (x, d1, w1)" using prod_cases3 by blast
    have "x \<noteq> Inr None" using no[of env] h by simp
    then show ?thesis
      using p Some h m
      by (auto simp: process_line_def daemon_handler_def s split: option.splits sum.splits)
  qed
qed

lemma daemon_replies_length: "length (fst (replies daemon_handler ls s)) = length (filter (\<lambda>l. l \<noteq> []) ls)"
proof (induction ls arbitrary: s)
  case (Cons l ls)
  obtain r s1 where p: "process_line daemon_handler l s = (r, s1)" by (meson surj_pair)
  show ?case using Cons[of s] Cons[of s1] daemon_line_answered[OF p] p
    by (cases "replies daemon_handler ls s1") simp
qed simp

text \<open>On an undisturbed connection to the daemon every line that is not empty is answered by
  exactly one line, malformed and unknown messages included, and every answer is a JSON text
  that the host can parse.\<close>

theorem daemon_answers_every_line:
  assumes "\<And>n. fails n = None" and "\<And>n. \<not> ctx n"
  shows "\<exists>vs. co_sent (snd (handle_connection daemon_handler fails ctx input s)) =
      concat (map (\<lambda>v. encode_line (enc_envelope v)) vs) \<and>
    length vs = length (filter (\<lambda>l. l \<noteq> []) (fst (scan_lines input))) \<and>
    (\<forall>v\<in>set vs. (\<exists>t. encode_line (enc_envelope v) = t @ [newline] \<and> newline \<notin> set t) \<and>
       unmarshal_text (encode_line (enc_envelope v)) = Some (sanitize_json (enc_envelope v)))"
proof -
  let ?ls = "fst (scan_lines input)"
  have "co_sent (snd (handle_connection daemon_handler fails ctx input s)) = wire_text (fst (replies daemon_handler ?ls s))"
    using serve_lines_ok[of fails ctx new_conn_out daemon_handler 0 ?ls s] assms
    by (simp add: handle_connection_def new_conn_out_def)
  then show ?thesis
    using ctl.answers_readable daemon_replies_length[of ?ls s] unfolding wire_text_def by blast
qed

theorem daemon_answers_every_line_witness:
  "\<exists>vs. co_sent (snd (handle_connection daemon_handler (\<lambda>n. None) (\<lambda>n. False) ''{'' (new_daemon (quiet_world []), quiet_world []))) =
      concat (map (\<lambda>v. encode_line (enc_envelope v)) vs) \<and> length vs = 1"
proof -
  have "scan_lines ''{'' = ([''{''], False)" by (simp add: max_token_def drop_cr_def)
  then show ?thesis
    using daemon_answers_every_line[of "\<lambda>n. None" "\<lambda>n. False" "''{''" "(new_daemon (quiet_world []), quiet_world [])"]
    by auto
qed

subsection \<open>A conversation\<close>

lemma last_join_obj: "last (print_json (JObj ms)) = CHR ''}''"
  by simp

lemma drop_cr_envelope: "drop_cr (print_json (enc_envelope e)) = print_json (enc_envelope e)"
proof -
  have "last (print_json (enc_envelope e)) = CHR ''}''" unfolding enc_envelope_def by (rule last_join_obj)
  then show ?thesis by (simp add: drop_cr_def)
qed

lemma receive_print: "envelope_ok e \<Longrightarrow> receive_line (print_json (enc_envelope e)) = Some (e, None)"
proof -
  assume e: "envelope_ok e"
  have "wire_ok max_nesting (enc_envelope e)" by (rule envelope_wire_ok[OF e])
  then have "first_value (print_json (enc_envelope e)) = Some (enc_envelope e, [])"
    unfolding first_value_def
    using parse_print_json[of max_nesting "enc_envelope e" "[]"] by (simp add: wire_ok_def del: parse_value.simps)
  then have "unmarshal_text (print_json (enc_envelope e)) = Some (enc_envelope e)"
    by (simp add: unmarshal_text_def skip_ws_def)
  then show ?thesis by (simp add: receive_line_def dec_enc_envelope)
qed

text \<open>The messages themselves, given to a handler one after the other.\<close>

fun converse :: "'s handler \<Rightarrow> envelope list \<Rightarrow> 's \<Rightarrow> envelope list \<times> 's" where
  "converse h [] s = ([], s)"
| "converse h (e # es) s =
     (let (r, s1) = h e s; (vs, s2) = converse h es s1
      in ((case r of Inl x \<Rightarrow> [error_ack (env_type e) (error_text x)] | Inr None \<Rightarrow> [] | Inr (Some v) \<Rightarrow> [v]) @ vs, s2))"

lemma print_envelope_nonempty: "print_json (enc_envelope e) \<noteq> []"
  by (simp add: enc_envelope_def)

lemma replies_converse:
  "\<forall>e\<in>set es. envelope_ok e \<Longrightarrow>
   replies h (map (\<lambda>e. print_json (enc_envelope e)) es) s = converse h es s"
proof (induction es arbitrary: s)
  case Nil
  then show ?case by simp
next
  case (Cons e es)
  have r: "receive_line (print_json (enc_envelope e)) = Some (e, None)" using Cons.prems receive_print by simp
  have IH: "replies h (map (\<lambda>e. print_json (enc_envelope e)) es) s1 = converse h es s1" for s1
    using Cons by simp
  obtain x s1 where h: "h e s = (x, s1)" by (meson surj_pair)
  have p: "process_line h (print_json (enc_envelope e)) s =
      (case x of Inl y \<Rightarrow> ErrorAck (error_ack (env_type e) (error_text y)) | Inr None \<Rightarrow> NoResponse
       | Inr (Some v) \<Rightarrow> Response v, s1)"
    by (simp add: process_line_def r h split: sum.split option.split)
  show ?case
    using print_envelope_nonempty[of e] p h IH
    by (simp split: sum.split option.split prod.split)
qed

text \<open>C2: End to end: when the host writes its envelopes one per line, with valid UTF-8 texts and
  each line below 1 MiB, and nothing fails, the handler gets exactly these envelopes in this
  order, and the host receives exactly the handler's answers and errors, in the same order.\<close>

theorem conversation_end_to_end:
  assumes "\<And>n. fails n = None" and "\<And>n. \<not> ctx n"
    and "\<And>e. e \<in> set es \<Longrightarrow> envelope_ok e \<and> length (print_json (enc_envelope e)) < 2 ^ 20"
  shows "let (s', out) = handle_connection h fails ctx (wire_text es) s in
    s' = snd (converse h es s) \<and> co_sent out = wire_text (fst (converse h es s))"
proof -
  let ?ls = "map (\<lambda>e. print_json (enc_envelope e)) es"
  have "\<forall>l\<in>set ?ls. newline \<notin> set l \<and> length l < max_token"
    using assms(3) envelope_wire_ok print_json_no_newline by (auto simp: max_token_def wire_ok_def)
  from scan_lines_many[OF this, of "[]"] have "fst (scan_lines (wire_text es)) = ?ls"
    by (simp add: wire_text_def encode_line_def comp_def drop_cr_envelope)
  moreover have "\<forall>e\<in>set es. envelope_ok e" using assms(3) by blast
  ultimately show ?thesis
    using serve_lines_ok[of fails ctx new_conn_out h 0 ?ls s] assms(1,2) replies_converse[of es h s]
    by (simp add: handle_connection_def new_conn_out_def split_beta)
qed

theorem conversation_end_to_end_witness:
  "let es = [\<lparr>env_type = msg_ping, env_payload = None\<rparr>, \<lparr>env_type = msg_get_health, env_payload = None\<rparr>];
       s = (new_daemon (quiet_world []), quiet_world []);
       (s', out) = handle_connection daemon_handler (\<lambda>n. None) (\<lambda>n. False) (wire_text es) s
   in s' = snd (converse daemon_handler es s) \<and> co_sent out = wire_text (fst (converse daemon_handler es s))"
proof -
  let ?es = "[\<lparr>env_type = msg_ping, env_payload = None\<rparr>, \<lparr>env_type = msg_get_health, env_payload = None\<rparr>] :: envelope list"
  have "utf8_ok msg_ping" "utf8_ok msg_get_health"
    by (simp_all add: msg_defs utf8_ok_def byte_of_def)
  then have ok: "envelope_ok e" if "e \<in> set ?es" for e using that by (auto simp: envelope_ok_def)
  have "map (\<lambda>e. length (print_json (enc_envelope e))) ?es = [15, 21]" by code_simp
  then have "length (print_json (enc_envelope e)) < 2 ^ 20" if "e \<in> set ?es" for e
    using that by auto
  with ok show ?thesis
    unfolding Let_def by (intro conversation_end_to_end[unfolded Let_def]) auto
qed

end
