(* ===== verification/Run.thy ===== *)
theory Run
  imports Ipc Server
begin

text \<open>
  A whole run of the daemon (pkg/stereosd.go, Run): the boot steps, the goroutines that serve
  the host, the API and the poller, the transitions of the main goroutine, and the end. Here
  every handler, poll and shutdown job is one step, so these are the runs in which no two of
  them overlap in time. What happens when they do is in the theories that take them apart:
  Serving (connections), Interleaving (lifecycle), MountRace (mounts and shutdowns),
  SecretRace and KeyRace.
\<close>

subsection \<open>Boot\<close>

definition daemon_boot ::
  "daemon \<Rightarrow> world \<Rightarrow> net \<Rightarrow> (go_error + listener) \<times> daemon \<times> world \<times> net" where
  "daemon_boot d w n =
     (case ensure_runtime_dirs (dc_runtime_dirs (d_config d)) w of
        (Some e, w1) \<Rightarrow> (Inl (ErrWrap ''runtime dirs: '' e), d, w1, n)
      | (None, w1) \<Rightarrow>
          (let (lm, w2) = transition state_booting ''runtime directories ready'' (d_lifecycle d) w1;
               d1 = d\<lparr>d_lifecycle := lm\<rparr>
           in
           case create_listener d1 n of
             (Inl e, n1) \<Rightarrow> (Inl (ErrWrap ''listener: '' e), d1, w2, n1)
           | (Inr l, n1) \<Rightarrow> (Inr l, d1, w2, n1)))"

definition daemon_ready :: "daemon \<Rightarrow> world \<Rightarrow> daemon \<times> world" where
  "daemon_ready d w =
     (let (lm, w1) = transition state_ready ''all subsystems started'' (d_lifecycle d) w
      in (d\<lparr>d_lifecycle := lm\<rparr>, w1))"

subsection \<open>Serving\<close>

text \<open>What the goroutines do, each done before the next begins; a job is chosen by its position.\<close>

datatype daemon_event =
    IpcStart
  | Message envelope
  | Request http_request
  | Poll http_reply
  | RunJob nat

definition daemon_poller :: "daemon \<Rightarrow> agentd_poller" where
  "daemon_poller d = new_agentd_poller (d_agentd d) (dc_poll_interval (d_config d))"

text \<open>
  \<open>None\<close> is a panic. A job is run to its end, so of the panics of the program there is the double
  close of the channel, not the index race of two jobs (MountRace).
\<close>

fun daemon_step :: "daemon_event \<Rightarrow> daemon \<Rightarrow> world \<Rightarrow> (daemon \<times> world) option" where
  "daemon_step IpcStart d w =
     (let (r, s, w1) = ipc_start (d_ipc d) w in Some (d\<lparr>d_ipc := s\<rparr>, w1))"
| "daemon_step (Message env) d w = Some (snd (handle_message d env w))"
| "daemon_step (Request rq) d w = Some (snd (serve_request rq d w))"
| "daemon_step (Poll rep) d w =
     (let (lm, w1) = poll (daemon_poller d) rep (d_lifecycle d) w in Some (d\<lparr>d_lifecycle := lm\<rparr>, w1))"
| "daemon_step (RunJob i) d w =
     (if i < length (d_jobs d)
      then shutdown_job (d_jobs d ! i) (d\<lparr>d_jobs := take i (d_jobs d) @ drop (Suc i) (d_jobs d)\<rparr>) w
      else Some (d, w))"

fun daemon_steps :: "daemon_event list \<Rightarrow> daemon \<Rightarrow> world \<Rightarrow> (daemon \<times> world) option" where
  "daemon_steps [] d w = Some (d, w)"
| "daemon_steps (e # es) d w =
     (case daemon_step e d w of None \<Rightarrow> None | Some (d1, w1) \<Rightarrow> daemon_steps es d1 w1)"

subsection \<open>The end of a run\<close>

text \<open>What the select of Run saw.\<close>

datatype wake = ContextDone | ShutdownRequested | ServerFailed go_error

definition daemon_finish :: "wake \<Rightarrow> daemon \<Rightarrow> world \<Rightarrow> go_error option \<times> daemon \<times> world" where
  "daemon_finish wk d w =
     (case wk of
        ServerFailed e \<Rightarrow> (Some e, d, w)
      | _ \<Rightarrow>
          (let (lm, w1) = transition state_shutdown ''shutting down'' (d_lifecycle d) w;
               (s, w2) = ipc_close (d_ipc d) w1
           in (None, d\<lparr>d_lifecycle := lm, d_ipc := s\<rparr>, w2)))"

text \<open>
  A run: the steps of the goroutines before the main one reports readiness, those after it, and
  the event that ends it.
\<close>

definition daemon_run ::
  "daemon \<Rightarrow> daemon_event list \<Rightarrow> daemon_event list \<Rightarrow> wake \<Rightarrow> world \<Rightarrow> net \<Rightarrow>
   (go_error option \<times> daemon \<times> world) option" where
  "daemon_run d early late wk w n =
     (case daemon_boot d w n of
        (Inl e, d1, w1, n1) \<Rightarrow> Some (Some e, d1, w1)
      | (Inr l, d1, w1, n1) \<Rightarrow>
     (case daemon_steps early d1 w1 of
        None \<Rightarrow> None
      | Some (d2, w2) \<Rightarrow>
          (let (d3, w3) = daemon_ready d2 w2 in
           case daemon_steps late d3 w3 of
             None \<Rightarrow> None
           | Some (d4, w4) \<Rightarrow> Some (daemon_finish wk d4 w4))))"

text \<open>The command: flags, validation of the mode, and a run of the daemon (cmd/run/run.go).\<close>

definition run_daemon ::
  "string \<Rightarrow> string \<Rightarrow> daemon_event list \<Rightarrow> daemon_event list \<Rightarrow> wake \<Rightarrow> world \<Rightarrow> net \<Rightarrow>
   go_error option option" where
  "run_daemon listen_mode poweroff_mode early late wk w n =
     (case validate_poweroff_mode poweroff_mode of
        Some e \<Rightarrow> Some (Some e)
      | None \<Rightarrow>
          (let config = default_config\<lparr>dc_listen_mode := listen_mode, dc_poweroff_mode := poweroff_mode\<rparr>
           in map_option fst (daemon_run (new_daemon_with_config config w) early late wk w n)))"

subsection \<open>Invariants of the steps\<close>

lemma serve_request_frame: "mounts_only d (fst (snd (serve_request rq d w)))"
proof (cases "dispatch rq")
  case (Answer a)
  then show ?thesis by (simp add: serve_request_def)
next
  case (Handle r p)
  obtain x e where b: "decode_body dec_mount zero_mount (rq_body rq) = (x, e)" by force
  obtain rm mm w' where m: "mount (d_mounts d) x w = (rm, mm, w')" using prod_cases3 by blast
  have "mounts_only d (fst (snd (mount_op x d w)))" by (rule mounts_only_ops)
  then have mo: "mounts_only d (d\<lparr>d_mounts := mm\<rparr>)" using m by (simp add: mount_op_def)
  have "mounts_only d (fst (snd (handle_mount (rq_body rq) d w)))"
    using mo m by (cases e; cases rm) (simp_all add: handle_mount_def b)
  moreover have "mounts_only d (start_job q d)" for q by (simp add: start_job_def mounts_only_def)
  ultimately show ?thesis
    using Handle
    by (cases r) (simp_all add: serve_request_def run_route_def handle_ping_def handle_get_health_def
        handle_inject_secret_def handle_list_secrets_def handle_delete_secret_def handle_list_mounts_def
        handle_list_agents_def handle_shutdown_def Let_def split: prod.split option.split sum.split)
qed

lemma mounts_only_ok: "mounts_only d d' \<Longrightarrow> daemon_ok d \<Longrightarrow> daemon_ok d'"
  unfolding mounts_only_def by (cases d; cases d') (simp add: daemon_ok_def)

lemma daemon_ok_lifecycle:
  assumes "daemon_ok d" and "lm_send lm = None"
    and "lm_state lm \<in> {state_booting, state_ready, state_healthy, state_shutdown}"
  shows "daemon_ok (d\<lparr>d_lifecycle := lm\<rparr>)"
  using assms by (simp add: daemon_ok_def)

lemma daemon_step_ok: "daemon_ok d \<Longrightarrow> \<exists>d' w'. daemon_step e d w = Some (d', w') \<and> daemon_ok d'"
proof (cases e)
  case IpcStart
  assume "daemon_ok d"
  with IpcStart show ?thesis by (simp add: daemon_ok_def split: prod.split)
next
  case (Message env)
  assume "daemon_ok d"
  then have "daemon_ok (fst (snd (handle_message d env w)))" by (rule handle_message_ok)
  then show ?thesis using Message by (cases "snd (handle_message d env w)") simp
next
  case (Request rq)
  assume "daemon_ok d"
  then have "daemon_ok (fst (snd (serve_request rq d w)))" using mounts_only_ok serve_request_frame by blast
  then show ?thesis using Request by (cases "snd (serve_request rq d w)") simp
next
  case (Poll rep)
  assume ok: "daemon_ok d"
  obtain lm w1 where p: "poll (daemon_poller d) rep (d_lifecycle d) w = (lm, w1)" by force
  have "daemon_ok (d\<lparr>d_lifecycle := lm\<rparr>)"
    using ok poll_fields[of "daemon_poller d" rep "d_lifecycle d" w] p
    by (auto simp: daemon_ok_def split: sum.splits)
  then show ?thesis using Poll p by simp
next
  case (RunJob i)
  assume ok: "daemon_ok d"
  then have ok2: "daemon_ok (d\<lparr>d_jobs := take i (d_jobs d) @ drop (Suc i) (d_jobs d)\<rparr>)"
    by (simp add: daemon_ok_def)
  show ?thesis
  proof (cases "i < length (d_jobs d)")
    case True
    obtain d' w' where "shutdown_job (d_jobs d ! i) (d\<lparr>d_jobs := take i (d_jobs d) @ drop (Suc i) (d_jobs d)\<rparr>) w = Some (d', w')"
      "daemon_ok d'"
      using shutdown_job_ok[OF ok2, of "d_jobs d ! i" w] by blast
    then show ?thesis using RunJob True by simp
  next
    case False
    then show ?thesis using RunJob ok by simp
  qed
qed

lemma daemon_steps_ok: "daemon_ok d \<Longrightarrow> \<exists>d' w'. daemon_steps es d w = Some (d', w') \<and> daemon_ok d'"
proof (induction es arbitrary: d w)
  case (Cons e es)
  obtain d1 w1 where "daemon_step e d w = Some (d1, w1)" "daemon_ok d1"
    using daemon_step_ok[OF Cons.prems] by blast
  then show ?case using Cons.IH[of d1 w1] by simp
qed simp

lemma daemon_boot_ok:
  assumes "daemon_ok d" and "daemon_boot d w n = (r, d', w', n')"
  shows "daemon_ok d'"
proof -
  obtain re w1 where e: "ensure_runtime_dirs (dc_runtime_dirs (d_config d)) w = (re, w1)" by force
  obtain lm w2 where t: "transition state_booting ''runtime directories ready'' (d_lifecycle d) w1 = (lm, w2)" by force
  have "daemon_ok (d\<lparr>d_lifecycle := lm\<rparr>)"
    using transition_fields[of state_booting "''runtime directories ready''" "d_lifecycle d" w1] t assms(1)
    by (simp add: daemon_ok_def)
  then show ?thesis
    using assms e t by (auto simp: daemon_boot_def Let_def split: option.splits prod.splits sum.splits)
qed

lemma daemon_ready_ok:
  assumes "daemon_ok d"
  shows "daemon_ok (fst (daemon_ready d w))"
proof -
  obtain lm w1 where t: "transition state_ready ''all subsystems started'' (d_lifecycle d) w = (lm, w1)" by force
  then show ?thesis
    using transition_fields[of state_ready "''all subsystems started''" "d_lifecycle d" w] assms
    by (simp add: daemon_ready_def daemon_ok_def)
qed

subsection \<open>A run and its end\<close>


lemma daemon_finish_ok:
  assumes "daemon_ok d" and "daemon_finish wk d w = (r, d', w')"
  shows "daemon_ok d'"
proof -
  obtain lm w1 where t: "transition state_shutdown ''shutting down'' (d_lifecycle d) w = (lm, w1)" by force
  have "daemon_ok (d\<lparr>d_lifecycle := lm\<rparr>)"
    using transition_fields[of state_shutdown "''shutting down''" "d_lifecycle d" w] t assms(1)
    by (simp add: daemon_ok_def)
  then have "daemon_ok (d\<lparr>d_lifecycle := lm, d_ipc := s\<rparr>)" for s by (simp add: daemon_ok_def)
  then show ?thesis using assms t by (cases wk) (auto simp: daemon_finish_def split: prod.splits)
qed


text \<open>What the end of a run leaves alone: the shares stay mounted unless a job unmounted them.\<close>

lemma ipc_close_trace: "w_trace (snd (ipc_close s w)) = w_trace w"
proof -
  have u: "w_trace (unlink p v) = w_trace v" for p v
    by (rule env_of_D(1)) (simp add: unlink_def call_unfold split: option.split node.split)
  have o: "w_trace (snd (os_remove p v)) = w_trace v" for p v
    by (rule env_of_D(1)) (rule world_frame)
  show ?thesis
    using u o by (auto simp: ipc_close_def close_unix_def Let_def snd_conv[symmetric] simp del: snd_conv
        split: prod.split option.split) (metis snd_conv)+
qed


text \<open>The end of a run does not unmount: however it ends, the tracked shares are the ones from
  before, and no command is run any more, so that they stay mounted and unsynced unless a
  shutdown job of the host or the API has run. A server error also leaves the socket file.\<close>

theorem run_end_keeps_mounts:
  assumes "daemon_ok d" and "daemon_finish wk d w = (r, d', w')"
  shows "d_mounts d' = d_mounts d \<and> w_trace w' = w_trace w \<and> (\<forall>e. wk = ServerFailed e \<longrightarrow> w' = w)"
proof -
  have "lm_send (d_lifecycle d) = None" using assms(1) by (simp add: daemon_ok_def)
  then have "w_trace (snd (transition state_shutdown ''shutting down'' (d_lifecycle d) w)) = w_trace w"
    by simp
  then show ?thesis
    using assms(2) ipc_close_trace[of "d_ipc d"]
    by (cases wk) (auto simp: daemon_finish_def split: prod.splits, (metis snd_conv)+)
qed

theorem run_end_keeps_mounts_witness:
  "d_mounts (fst (snd (daemon_finish ContextDone (new_daemon (quiet_world [])) (quiet_world [])))) =
   d_mounts (new_daemon (quiet_world []))"
proof -
  have ok: "daemon_ok (new_daemon (quiet_world []))" unfolding new_daemon_def by (rule new_daemon_ok)
  obtain r d' w' where "daemon_finish ContextDone (new_daemon (quiet_world [])) (quiet_world []) = (r, d', w')"
    using prod_cases3 by blast
  from run_end_keeps_mounts[OF ok this] this show ?thesis by simp
qed

subsection \<open>Shutdown is what the host or the API asks for\<close>

fun asks_shutdown :: "daemon_event \<Rightarrow> bool" where
  "asks_shutdown (Message env) \<longleftrightarrow> env_type env = msg_shutdown"
| "asks_shutdown (Request rq) \<longleftrightarrow> (case dispatch rq of Handle RShutdown p \<Rightarrow> True | _ \<Rightarrow> False)"
| "asks_shutdown _ \<longleftrightarrow> False"

definition at_peace :: "daemon \<Rightarrow> bool" where
  "at_peace d \<longleftrightarrow> d_jobs d = [] \<and> \<not> d_shutdown_requested d"

lemma command_jobs:
  assumes "\<And>p. d_jobs (fst (snd (run p d w))) = d_jobs d"
  shows "d_jobs (fst (snd (command t what dec zero run env d w))) = d_jobs d"
proof -
  obtain p x where p: "decode_payload dec env zero = (p, x)" by force
  show ?thesis using assms[of p] by (cases x; cases "run p d w") (simp_all add: command_def p)
qed

lemma op_jobs:
  "d_jobs (fst (snd (set_config_op p1 d w))) = d_jobs d" "d_jobs (fst (snd (inject_op p2 d w))) = d_jobs d"
  "d_jobs (fst (snd (ssh_key_op p3 d w))) = d_jobs d" "d_jobs (fst (snd (mount_op p4 d w))) = d_jobs d"
  by (simp_all add: set_config_op_def inject_op_def ssh_key_op_def mount_op_def split: prod.split)

lemma handle_message_jobs:
  assumes "env_type env \<noteq> msg_shutdown"
  shows "d_jobs (fst (snd (handle_message d env w))) = d_jobs d"
proof -
  consider "env_type env = msg_ping" | "env_type env = msg_get_health" | "env_type env = msg_set_config"
    | "env_type env = msg_inject_secret" | "env_type env = msg_inject_ssh_key" | "env_type env = msg_mount"
    | "env_type env \<notin> set (msg_ping # msg_get_health # commands)"
    using assms by (auto simp: commands_def)
  then show ?thesis
    by cases (simp_all add: handle_message_simps handle_message_unknown command_jobs op_jobs)
qed

lemma serve_request_jobs:
  assumes "\<not> asks_shutdown (Request rq)"
  shows "d_jobs (fst (snd (serve_request rq d w))) = d_jobs d"
proof (cases "dispatch rq")
  case (Answer a)
  then show ?thesis by (simp add: serve_request_def)
next
  case (Handle r p)
  then have "r \<noteq> RShutdown" using assms by auto
  then show ?thesis
    using Handle
    by (cases r) (simp_all add: serve_request_def run_route_def handle_ping_def handle_get_health_def
        handle_inject_secret_def handle_list_secrets_def handle_delete_secret_def handle_list_mounts_def
        handle_list_agents_def handle_mount_def Let_def split: prod.split option.split sum.split)
qed

lemma mounts_only_requested: "mounts_only d d' \<Longrightarrow> d_shutdown_requested d' = d_shutdown_requested d"
  unfolding mounts_only_def by (cases d; cases d') simp

lemma at_peace_step:
  assumes "at_peace d" and "\<not> asks_shutdown e" and "daemon_step e d w = Some (d', w')"
  shows "at_peace d'"
proof (cases e)
  case (Message env)
  then have "d' = fst (snd (handle_message d env w))" using assms(3) by simp
  then show ?thesis
    using assms(1,2) Message handle_message_jobs[of env d w] mounts_only_requested[OF handle_message_frame[of d env w]]
    by (simp add: at_peace_def)
next
  case (Request rq)
  then have "d' = fst (snd (serve_request rq d w))" using assms(3) by simp
  then show ?thesis
    using assms(1,2) Request serve_request_jobs[of rq d w] mounts_only_requested[OF serve_request_frame[of d rq w]]
    by (simp add: at_peace_def)
qed (use assms in \<open>auto simp: at_peace_def split: prod.splits\<close>)

text \<open>C25: The daemon shuts down only when asked: if, after any steps of a daemon with no pending
  job, a shutdown has been requested, then one of the steps was a shutdown message of the host
  or a shutdown request of the API.\<close>

theorem shutdown_only_when_asked:
  assumes "d_jobs d = []" and "\<not> d_shutdown_requested d"
    and "daemon_steps es d w = Some (d', w')" and "d_shutdown_requested d'"
  shows "\<exists>e\<in>set es. asks_shutdown e"
proof (rule ccontr)
  assume none: "\<not> ?thesis"
  have "at_peace d \<Longrightarrow> \<forall>e\<in>set es. \<not> asks_shutdown e \<Longrightarrow> daemon_steps es d w = Some (d', w') \<Longrightarrow> at_peace d'"
    for es d w
  proof (induction es arbitrary: d w)
    case (Cons e es)
    then show ?case using at_peace_step[of d e w] by (auto split: option.splits)
  qed simp
  from this[of d es w] show False using assms none by (auto simp: at_peace_def)
qed

text \<open>C26: A shutdown the host asks for happens: the message is acknowledged at once, its job stays
  pending until it is run, and running it, whatever fails on the way, leaves the state at
  shutdown with the host's reason, no tracked mount, and the shutdown of the main loop
  requested; repeating it does no harm.\<close>

theorem shutdown_message_takes_effect:
  assumes "daemon_ok d"
  shows "\<exists>d' w'. daemon_steps [Message \<lparr>env_type = msg_shutdown, env_payload = Some (enc_shutdown p)\<rparr>,
       RunJob (length (d_jobs d))] d w = Some (d', w') \<and>
     daemon_ok d' \<and> d_jobs d' = d_jobs d \<and> lm_state (d_lifecycle d') = state_shutdown \<and>
     lm_message (d_lifecycle d') = shutdown_reason (Some p) \<and> mm_mounts (d_mounts d') = [] \<and>
     d_shutdown_requested d'"
proof -
  let ?d1 = "d\<lparr>d_jobs := d_jobs d @ [p]\<rparr>" and ?e = "\<lparr>env_type = msg_shutdown, env_payload = Some (enc_shutdown p)\<rparr>"
  have m: "handle_message d ?e w = (send_ack msg_shutdown None, ?d1, w)" by (simp add: command_results)
  have d: "?d1\<lparr>d_jobs := take (length (d_jobs d)) (d_jobs ?d1) @ drop (Suc (length (d_jobs d))) (d_jobs ?d1)\<rparr> = d"
    by simp
  obtain d' w' where j: "shutdown_job p d w = Some (d', w')" "daemon_ok d'" "d_shutdown_requested d'"
      "mm_mounts (d_mounts d') = []" "lm_state (d_lifecycle d') = state_shutdown" "d_jobs d' = d_jobs d"
    using shutdown_job_ok[OF assms] by blast
  have "lm_message (d_lifecycle d') = shutdown_reason (Some p)"
  proof -
    obtain r mm lm w1 where e: "execute (d_shutdown d) (Some p) (d_mounts d) (d_lifecycle d) w = (r, mm, lm, w1)"
      using prod_cases4 by blast
    have "d_lifecycle d' = lm"
      using j(1) e by (auto simp: shutdown_job_def request_shutdown_def Let_def split: if_splits option.splits)
    then show ?thesis using execute_fields(5)[OF e] by simp
  qed
  moreover have "daemon_steps [Message ?e, RunJob (length (d_jobs d))] d w = Some (d', w')"
    using m d j(1) by (simp add: nth_append)
  ultimately show ?thesis using j by blast
qed

theorem shutdown_message_takes_effect_witness:
  "\<exists>d' w'. daemon_steps [Message \<lparr>env_type = msg_shutdown, env_payload = Some (enc_shutdown \<lparr>sd_reason = ''bye''\<rparr>)\<rparr>,
       RunJob 0] (new_daemon (quiet_world [])) (quiet_world []) = Some (d', w') \<and>
     lm_message (d_lifecycle d') = ''bye''"
proof -
  have ok: "daemon_ok (new_daemon (quiet_world []))" unfolding new_daemon_def by (rule new_daemon_ok)
  have "d_jobs (new_daemon (quiet_world [])) = []"
    by (simp add: new_daemon_def new_daemon_with_config_def Let_def)
  then show ?thesis
    using shutdown_message_takes_effect[OF ok, of "\<lparr>sd_reason = ''bye''\<rparr>" "quiet_world []"]
    by (auto simp: shutdown_reason_def)
qed

theorem shutdown_only_when_asked_witness:
  "\<exists>e\<in>set [Message \<lparr>env_type = msg_shutdown, env_payload = Some (enc_shutdown \<lparr>sd_reason = ''bye''\<rparr>)\<rparr>, RunJob 0].
     asks_shutdown e"
proof -
  let ?d = "new_daemon (quiet_world [])"
  have ok: "daemon_ok ?d" unfolding new_daemon_def by (rule new_daemon_ok)
  have new: "d_jobs ?d = []" "\<not> d_shutdown_requested ?d"
    by (simp_all add: new_daemon_def new_daemon_with_config_def Let_def)
  obtain d' w' where s: "shutdown_job \<lparr>sd_reason = ''bye''\<rparr> ?d (quiet_world []) = Some (d', w')" "d_shutdown_requested d'"
    using shutdown_job_ok[OF ok] by blast
  have "?d\<lparr>d_jobs := []\<rparr> = ?d" using new by simp
  then have "shutdown_job \<lparr>sd_reason = ''bye''\<rparr> (?d\<lparr>d_jobs := []\<rparr>) (quiet_world []) = Some (d', w')"
    by (simp only: s(1))
  then have "daemon_steps [Message \<lparr>env_type = msg_shutdown, env_payload = Some (enc_shutdown \<lparr>sd_reason = ''bye''\<rparr>)\<rparr>, RunJob 0]
      ?d (quiet_world []) = Some (d', w')"
    using new by (simp add: command_results)
  from shutdown_only_when_asked[OF new this s(2)] show ?thesis .
qed

subsection \<open>Every run ends well-formed\<close>

lemma daemon_run_total:
  assumes "daemon_ok d"
  obtains r d' w' where "daemon_run d early late wk w n = Some (r, d', w')" and "daemon_ok d'"
proof -
  obtain b d1 w1 n1 where boot: "daemon_boot d w n = (b, d1, w1, n1)" using prod_cases4 by blast
  have ok1: "daemon_ok d1" by (rule daemon_boot_ok[OF assms boot])
  show thesis
  proof (cases b)
    case (Inl x)
    then show thesis using that[of "Some x" d1 w1] boot ok1 by (simp add: daemon_run_def)
  next
    case (Inr l)
    obtain d2 w2 where s1: "daemon_steps early d1 w1 = Some (d2, w2)" "daemon_ok d2"
      using daemon_steps_ok[OF ok1] by blast
    obtain d3 w3 where rd: "daemon_ready d2 w2 = (d3, w3)" by force
    have "daemon_ok d3" using daemon_ready_ok[OF s1(2), of w2] rd by simp
    then obtain d4 w4 where s2: "daemon_steps late d3 w3 = Some (d4, w4)" "daemon_ok d4"
      using daemon_steps_ok by blast
    obtain r d' w' where f: "daemon_finish wk d4 w4 = (r, d', w')" using prod_cases3 by blast
    have "daemon_run d early late wk w n = Some (r, d', w')"
      using boot Inr s1(1) rd s2(1) f by (simp add: daemon_run_def)
    then show thesis using that daemon_finish_ok[OF s2(2) f] by blast
  qed
qed

end
