(* ===== verification/MountRace.thy ===== *)
theory MountRace
  imports Run
begin

text \<open>
  The list of mounts under concurrency (pkg/mounts.go). The mount manager has no mutex, and
  every connection, every request and every shutdown is a goroutine of its own. Here Mount and
  UnmountAll are taken apart into their accesses to the list, a Go slice: a length and an array
  that other slices may share. An access to the slice's header or to one slot is one step.
\<close>

subsection \<open>Goroutines and their accesses\<close>

text \<open>A slice: its array, by number, and its length. The array's capacity is its size.\<close>

type_synonym slice = "nat \<times> nat"

text \<open>
  Where a handler is in \<open>mm.mounts = append(mm.mounts, *m)\<close>, its commands having succeeded:
  before it reads the header, with the header, with the appended slice, and after the store.
\<close>

datatype mount_pc =
    MountRan mount_payload
  | MountLoaded mount_payload slice
  | MountAppended mount_payload slice
  | MountTracked mount_payload

text \<open>
  Where a shutdown is in UnmountAll: before it reads the length, at the head of the loop with
  its variable, with the entry it is going to unmount, and at its end.
\<close>

datatype job_pc =
    JobStart
  | JobLoop int
  | JobUmount mount_payload int
  | JobDone

text \<open>\<open>tr_crashed\<close> is whether a goroutine has panicked, which ends the process.\<close>

record tracking =
  tr_arrays :: "mount_payload list list"
  tr_slice :: slice
  tr_handlers :: "mount_pc list"
  tr_jobs :: "job_pc list"
  tr_unmounted :: "mount_payload list"
  tr_crashed :: bool

definition slots :: "tracking \<Rightarrow> slice \<Rightarrow> mount_payload list" where
  "slots s h = take (snd h) (tr_arrays s ! fst h)"

text \<open>
  Appending writes into the array when it has room, and copies to a new one otherwise, of
  whatever size.
\<close>

inductive tr_step :: "tracking \<Rightarrow> tracking \<Rightarrow> bool" where
  mount_load: "\<lbrakk>\<not> tr_crashed s; k < length (tr_handlers s); tr_handlers s ! k = MountRan m\<rbrakk> \<Longrightarrow>
     tr_step s (s\<lparr>tr_handlers := (tr_handlers s)[k := MountLoaded m (tr_slice s)]\<rparr>)"
| mount_append: "\<lbrakk>\<not> tr_crashed s; k < length (tr_handlers s); tr_handlers s ! k = MountLoaded m (a, n);
       n < length (tr_arrays s ! a)\<rbrakk> \<Longrightarrow>
     tr_step s (s\<lparr>tr_arrays := (tr_arrays s)[a := (tr_arrays s ! a)[n := m]],
                  tr_handlers := (tr_handlers s)[k := MountAppended m (a, Suc n)]\<rparr>)"
| mount_grow: "\<lbrakk>\<not> tr_crashed s; k < length (tr_handlers s); tr_handlers s ! k = MountLoaded m (a, n);
       \<not> n < length (tr_arrays s ! a)\<rbrakk> \<Longrightarrow>
     tr_step s (s\<lparr>tr_arrays := tr_arrays s @ [take n (tr_arrays s ! a) @ m # replicate spare zero_mount],
                  tr_handlers := (tr_handlers s)[k := MountAppended m (length (tr_arrays s), Suc n)]\<rparr>)"
| mount_store: "\<lbrakk>\<not> tr_crashed s; k < length (tr_handlers s); tr_handlers s ! k = MountAppended m h\<rbrakk> \<Longrightarrow>
     tr_step s (s\<lparr>tr_slice := h, tr_handlers := (tr_handlers s)[k := MountTracked m]\<rparr>)"
| job_len: "\<lbrakk>\<not> tr_crashed s; k < length (tr_jobs s); tr_jobs s ! k = JobStart\<rbrakk> \<Longrightarrow>
     tr_step s (s\<lparr>tr_jobs := (tr_jobs s)[k := JobLoop (int (snd (tr_slice s)) - 1)]\<rparr>)"
| job_index: "\<lbrakk>\<not> tr_crashed s; k < length (tr_jobs s); tr_jobs s ! k = JobLoop i; 0 \<le> i;
       i < int (snd (tr_slice s))\<rbrakk> \<Longrightarrow>
     tr_step s (s\<lparr>tr_jobs := (tr_jobs s)[k := JobUmount (slots s (tr_slice s) ! nat i) i]\<rparr>)"
| job_panic: "\<lbrakk>\<not> tr_crashed s; k < length (tr_jobs s); tr_jobs s ! k = JobLoop i; 0 \<le> i;
       \<not> i < int (snd (tr_slice s))\<rbrakk> \<Longrightarrow>
     tr_step s (s\<lparr>tr_crashed := True\<rparr>)"
| job_umount: "\<lbrakk>\<not> tr_crashed s; k < length (tr_jobs s); tr_jobs s ! k = JobUmount m i\<rbrakk> \<Longrightarrow>
     tr_step s (s\<lparr>tr_unmounted := tr_unmounted s @ [m], tr_jobs := (tr_jobs s)[k := JobLoop (i - 1)]\<rparr>)"
| job_clear: "\<lbrakk>\<not> tr_crashed s; k < length (tr_jobs s); tr_jobs s ! k = JobLoop i; i < 0\<rbrakk> \<Longrightarrow>
     tr_step s (s\<lparr>tr_slice := (0, 0), tr_jobs := (tr_jobs s)[k := JobDone]\<rparr>)"

inductive_cases tr_stepE: "tr_step s s'"

abbreviation tr_reach :: "tracking \<Rightarrow> tracking \<Rightarrow> bool" where
  "tr_reach \<equiv> tr_step\<^sup>*\<^sup>*"

text \<open>
  The start: a list with some room behind it, handlers whose mounts have succeeded, and
  shutdowns. Array 0 is that of the nil slice.
\<close>

definition tr_init :: "mount_payload list \<Rightarrow> nat \<Rightarrow> mount_payload list \<Rightarrow> nat \<Rightarrow> tracking" where
  "tr_init xs room ms j =
     \<lparr>tr_arrays = [[], xs @ replicate room zero_mount], tr_slice = (1, length xs),
      tr_handlers = map MountRan ms, tr_jobs = replicate j JobStart, tr_unmounted = [], tr_crashed = False\<rparr>"

text \<open>What is tracked when nothing moves any more, or at any moment.\<close>

abbreviation tracked :: "tracking \<Rightarrow> mount_payload list" where
  "tracked s \<equiv> slots s (tr_slice s)"

lemma tr_path:
  assumes "tr_step s t" and "tr_reach t u"
  shows "tr_reach s u"
  using assms by (rule converse_rtranclp_into_rtranclp)

subsection \<open>Nothing is invented\<close>

fun pc_mount :: "mount_pc \<Rightarrow> mount_payload" where
  "pc_mount (MountRan m) = m"
| "pc_mount (MountLoaded m h) = m"
| "pc_mount (MountAppended m h) = m"
| "pc_mount (MountTracked m) = m"

text \<open>The slices a goroutine holds.\<close>

fun pc_slices :: "mount_pc \<Rightarrow> slice set" where
  "pc_slices (MountLoaded m h) = {h}"
| "pc_slices (MountAppended m h) = {h}"
| "pc_slices _ = {}"

fun job_mounts :: "job_pc \<Rightarrow> mount_payload set" where
  "job_mounts (JobUmount m i) = {m}"
| "job_mounts _ = {}"

definition slice_ok :: "mount_payload set \<Rightarrow> mount_payload list list \<Rightarrow> slice \<Rightarrow> bool" where
  "slice_ok M arrays h \<longleftrightarrow>
     fst h < length arrays \<and> snd h \<le> length (arrays ! fst h) \<and> set (take (snd h) (arrays ! fst h)) \<subseteq> M"

definition pc_ok :: "mount_payload set \<Rightarrow> mount_payload list list \<Rightarrow> mount_pc \<Rightarrow> bool" where
  "pc_ok M arrays pc \<longleftrightarrow> pc_mount pc \<in> M \<and> (\<forall>h\<in>pc_slices pc. slice_ok M arrays h)"

definition tr_ok :: "mount_payload set \<Rightarrow> tracking \<Rightarrow> bool" where
  "tr_ok M s \<longleftrightarrow>
     0 < length (tr_arrays s) \<and> slice_ok M (tr_arrays s) (tr_slice s) \<and>
     list_all (pc_ok M (tr_arrays s)) (tr_handlers s) \<and>
     list_all (\<lambda>pc. job_mounts pc \<subseteq> M) (tr_jobs s) \<and> set (tr_unmounted s) \<subseteq> M"

lemma slice_ok_put:
  assumes "slice_ok M arrays h" and "m \<in> M"
  shows "slice_ok M (arrays[a := (arrays ! a)[n := m]]) h"
proof (cases "fst h = a")
  case True
  have "set (take k (xs[n := m])) \<subseteq> insert m (set (take k xs))" for k xs
    by (cases "n < k") (auto simp: take_update_swap dest: set_update_subset_insert[THEN subsetD])
  with True assms show ?thesis by (auto simp: slice_ok_def nth_list_update)
qed (use assms in \<open>auto simp: slice_ok_def nth_list_update\<close>)

lemma slice_ok_new: "slice_ok M arrays h \<Longrightarrow> slice_ok M (arrays @ bs) h"
  by (auto simp: slice_ok_def nth_append)

lemma slice_ok_appended:
  assumes "slice_ok M arrays (a, n)" and "m \<in> M"
  shows "n < length (arrays ! a) \<Longrightarrow> slice_ok M (arrays[a := (arrays ! a)[n := m]]) (a, Suc n)"
    and "\<not> n < length (arrays ! a) \<Longrightarrow>
      slice_ok M (arrays @ [take n (arrays ! a) @ m # rest]) (length arrays, Suc n)"
  using assms by (auto simp: slice_ok_def take_Suc_conv_app_nth)

lemma pc_ok_simps [simp]:
  "pc_ok M arrays (MountRan m) \<longleftrightarrow> m \<in> M"
  "pc_ok M arrays (MountLoaded m h) \<longleftrightarrow> m \<in> M \<and> slice_ok M arrays h"
  "pc_ok M arrays (MountAppended m h) \<longleftrightarrow> m \<in> M \<and> slice_ok M arrays h"
  "pc_ok M arrays (MountTracked m) \<longleftrightarrow> m \<in> M"
  by (simp_all add: pc_ok_def)

lemma pc_ok_put: "pc_ok M arrays pc \<Longrightarrow> m \<in> M \<Longrightarrow> pc_ok M (arrays[a := (arrays ! a)[n := m]]) pc"
  by (auto simp: pc_ok_def intro: slice_ok_put)

lemma pc_ok_new: "pc_ok M arrays pc \<Longrightarrow> pc_ok M (arrays @ bs) pc"
  by (auto simp: pc_ok_def intro: slice_ok_new)

lemma list_all_update: "list_all P xs \<Longrightarrow> P y \<Longrightarrow> list_all P (xs[k := y])"
  using set_update_subset_insert[of xs k y] by (auto simp: list_all_iff)

lemma tr_ok_at:
  "tr_ok M s \<Longrightarrow> k < length (tr_handlers s) \<Longrightarrow> pc_ok M (tr_arrays s) (tr_handlers s ! k)"
  "tr_ok M s \<Longrightarrow> j < length (tr_jobs s) \<Longrightarrow> job_mounts (tr_jobs s ! j) \<subseteq> M"
  by (simp_all add: tr_ok_def list_all_length)

lemma tr_ok_step: "tr_step s s' \<Longrightarrow> tr_ok M s \<Longrightarrow> tr_ok M s'"
proof (induction rule: tr_step.induct)
  case (mount_load s k m)
  then have "m \<in> M" using tr_ok_at(1)[of M s k] by simp
  with mount_load show ?case by (simp add: tr_ok_def list_all_update)
next
  case (mount_append s k m a n)
  then have o: "m \<in> M" "slice_ok M (tr_arrays s) (a, n)" using tr_ok_at(1)[of M s k] by simp_all
  have "list_all (pc_ok M ((tr_arrays s)[a := (tr_arrays s ! a)[n := m]])) (tr_handlers s)"
    using mount_append.prems o(1) by (auto simp: tr_ok_def pc_ok_put list_all_iff)
  with mount_append o show ?case
    by (simp add: tr_ok_def slice_ok_put list_all_update slice_ok_appended(1))
next
  case (mount_grow s k m a n spare)
  then have o: "m \<in> M" "slice_ok M (tr_arrays s) (a, n)" using tr_ok_at(1)[of M s k] by simp_all
  have "list_all (pc_ok M (tr_arrays s @ bs)) (tr_handlers s)" for bs
    using mount_grow.prems by (auto simp: tr_ok_def pc_ok_new list_all_iff)
  moreover have "slice_ok M (tr_arrays s @ [take n (tr_arrays s ! a) @ m # replicate spare zero_mount])
      (length (tr_arrays s), Suc n)"
    using o mount_grow.hyps by (intro slice_ok_appended(2))
  ultimately show ?case
    using mount_grow o by (simp add: tr_ok_def slice_ok_new list_all_update)
next
  case (mount_store s k m h)
  then have "m \<in> M" "slice_ok M (tr_arrays s) h" using tr_ok_at(1)[of M s k] by simp_all
  with mount_store show ?case by (simp add: tr_ok_def list_all_update)
next
  case (job_index s k i)
  then have "slots s (tr_slice s) ! nat i \<in> set (slots s (tr_slice s))"
    by (intro nth_mem) (auto simp: slots_def tr_ok_def slice_ok_def)
  with job_index have "slots s (tr_slice s) ! nat i \<in> M" by (auto simp: tr_ok_def slots_def slice_ok_def)
  with job_index show ?case by (simp add: tr_ok_def list_all_update)
next
  case (job_umount s k m i)
  then have "m \<in> M" using tr_ok_at(2)[of M s k] by simp
  with job_umount show ?case by (simp add: tr_ok_def list_all_update)
qed (simp_all add: tr_ok_def list_all_update, simp add: slice_ok_def)

lemma tr_ok_init: "set xs \<subseteq> M \<Longrightarrow> set ms \<subseteq> M \<Longrightarrow> tr_ok M (tr_init xs room ms j)"
  by (auto simp: tr_ok_def tr_init_def slice_ok_def list_all_iff)

lemma tr_ok_reach: "tr_reach s s' \<Longrightarrow> tr_ok M s \<Longrightarrow> tr_ok M s'"
  by (induction rule: rtranclp_induct) (auto intro: tr_ok_step)

lemma slots_put:
  assumes "snd h \<le> n"
  shows "slots (s\<lparr>tr_arrays := (tr_arrays s)[a := (tr_arrays s ! a)[n := m]]\<rparr>) h = slots s h"
  using assms by (cases "a < length (tr_arrays s)") (auto simp: slots_def nth_list_update list_update_beyond)

lemma slots_new:
  assumes "fst h < length (tr_arrays s)"
  shows "slots (s\<lparr>tr_arrays := tr_arrays s @ bs\<rparr>) h = slots s h"
  using assms by (simp add: slots_def nth_append)

lemma slots_frame [simp]:
  "slots (s\<lparr>tr_handlers := hs\<rparr>) h = slots s h" "slots (s\<lparr>tr_jobs := js\<rparr>) h = slots s h"
  "slots (s\<lparr>tr_slice := h0\<rparr>) h = slots s h" "slots (s\<lparr>tr_unmounted := us\<rparr>) h = slots s h"
  "slots (s\<lparr>tr_crashed := b\<rparr>) h = slots s h"
  by (simp_all add: slots_def)

lemma slots_length: "slice_ok M (tr_arrays s) h \<Longrightarrow> length (slots s h) = snd h"
  by (simp add: slots_def slice_ok_def)

text \<open>An append, wherever it puts the entry.\<close>

lemma append_step:
  assumes "\<not> tr_crashed s" and "k < length (tr_handlers s)" and "tr_handlers s ! k = MountLoaded m (a, n)"
    and "slice_ok M (tr_arrays s) (a, n)" and "slice_ok M (tr_arrays s) (tr_slice s)" and "snd (tr_slice s) \<le> n"
  shows "\<exists>s' h. tr_step s s' \<and> tr_handlers s' = (tr_handlers s)[k := MountAppended m h] \<and>
    slots s' h = slots s (a, n) @ [m] \<and> slots s' (a, n) = slots s (a, n) \<and> tracked s' = tracked s \<and>
    tr_slice s' = tr_slice s \<and> tr_jobs s' = tr_jobs s \<and> tr_unmounted s' = tr_unmounted s \<and> \<not> tr_crashed s'"
proof (cases "n < length (tr_arrays s ! a)")
  case True
  let ?s = "s\<lparr>tr_arrays := (tr_arrays s)[a := (tr_arrays s ! a)[n := m]],
      tr_handlers := (tr_handlers s)[k := MountAppended m (a, Suc n)]\<rparr>"
  have "tr_step s ?s" by (rule mount_append) (use assms True in auto)
  moreover have "slots ?s (a, Suc n) = slots s (a, n) @ [m]"
    using assms(4) True by (simp add: slots_def slice_ok_def take_Suc_conv_app_nth)
  ultimately show ?thesis
    using assms by (intro exI[of _ ?s] exI[of _ "(a, Suc n)"]) (simp add: slots_put)
next
  case False
  let ?new = "take n (tr_arrays s ! a) @ m # replicate 0 zero_mount"
  let ?s = "s\<lparr>tr_arrays := tr_arrays s @ [?new],
      tr_handlers := (tr_handlers s)[k := MountAppended m (length (tr_arrays s), Suc n)]\<rparr>"
  have "tr_step s ?s" by (rule mount_grow) (use assms False in auto)
  moreover have "slots ?s (length (tr_arrays s), Suc n) = slots s (a, n) @ [m]"
    using assms(4) by (simp add: slots_def slice_ok_def)
  ultimately show ?thesis
    using assms by (intro exI[of _ ?s] exI[of _ "(length (tr_arrays s), Suc n)"])
      (simp add: slots_new slice_ok_def)
qed

subsection \<open>Two mounts at a time\<close>

text \<open>C40: The list of mounts is not protected, and concurrent mounts lose entries: two handlers
  whose mounts both succeeded can end with only one of them tracked, which the shutdown then
  does not unmount. In every interleaving of any number of mounts and shutdowns, though, only
  what was mounted is tracked or unmounted.\<close>

theorem concurrent_mounts_lose_entries:
  "(\<exists>s. tr_reach (tr_init xs room [m1, m2] 0) s \<and>
      tr_handlers s = [MountTracked m1, MountTracked m2] \<and> tracked s = xs @ [m2]) \<and>
   (\<forall>ms j s. tr_reach (tr_init xs room ms j) s \<longrightarrow>
      set (tracked s) \<union> set (tr_unmounted s) \<subseteq> set xs \<union> set ms)"
proof
  let ?s0 = "tr_init xs room [m1, m2] 0" and ?h = "(1, length xs)"
  let ?s1 = "?s0\<lparr>tr_handlers := (tr_handlers ?s0)[0 := MountLoaded m1 (tr_slice ?s0)]\<rparr>"
  let ?s2 = "?s1\<lparr>tr_handlers := (tr_handlers ?s1)[1 := MountLoaded m2 (tr_slice ?s1)]\<rparr>"
  have st1: "tr_step ?s0 ?s1" by (rule mount_load) (simp_all add: tr_init_def)
  have st2: "tr_step ?s1 ?s2" by (rule mount_load) (simp_all add: tr_init_def)
  have xs: "slots ?s2 ?h = xs" by (simp add: slots_def tr_init_def)
  have ok: "tr_ok UNIV s" if "tr_reach ?s2 s" for s
  proof -
    have "tr_reach ?s0 ?s2" using st1 st2 by (meson tr_path rtranclp.rtrancl_refl)
    with that have "tr_reach ?s0 s" by (rule rtranclp_trans[rotated])
    then show ?thesis by (rule tr_ok_reach) (rule tr_ok_init; simp)
  qed
  obtain s3 h1 where s3: "tr_step ?s2 s3" "tr_handlers s3 = [MountAppended m1 h1, MountLoaded m2 ?h]"
      "slots s3 ?h = xs" "\<not> tr_crashed s3" "tr_slice s3 = ?h"
    using append_step[of ?s2 0 m1 1 "length xs" UNIV] ok[of ?s2] xs by (auto simp: tr_init_def tr_ok_def)
  then have ok3: "tr_ok UNIV s3" using ok by blast
  obtain s4 h2 where s4: "tr_step s3 s4" "tr_handlers s4 = [MountAppended m1 h1, MountAppended m2 h2]"
      "slots s4 h2 = xs @ [m2]" "\<not> tr_crashed s4"
    using append_step[of s3 1 m2 1 "length xs" UNIV] ok3 s3 by (auto simp: tr_ok_def)
  let ?s5 = "s4\<lparr>tr_slice := h1, tr_handlers := (tr_handlers s4)[0 := MountTracked m1]\<rparr>"
  let ?s6 = "?s5\<lparr>tr_slice := h2, tr_handlers := (tr_handlers ?s5)[1 := MountTracked m2]\<rparr>"
  have st5: "tr_step s4 ?s5" by (rule mount_store) (use s4 in auto)
  have st6: "tr_step ?s5 ?s6" by (rule mount_store) (use s4 in auto)
  have "tr_reach ?s0 ?s6" using st1 st2 s3(1) s4(1) st5 st6 by (meson tr_path rtranclp.rtrancl_refl)
  then show "\<exists>s. tr_reach ?s0 s \<and> tr_handlers s = [MountTracked m1, MountTracked m2] \<and> tracked s = xs @ [m2]"
    using s4 by (intro exI[of _ ?s6]) simp
next
  show "\<forall>ms j s. tr_reach (tr_init xs room ms j) s \<longrightarrow>
      set (tracked s) \<union> set (tr_unmounted s) \<subseteq> set xs \<union> set ms"
  proof (intro allI impI)
    fix ms j s
    assume "tr_reach (tr_init xs room ms j) s"
    then have "tr_ok (set xs \<union> set ms) s" by (rule tr_ok_reach) (rule tr_ok_init; simp)
    then show "set (tracked s) \<union> set (tr_unmounted s) \<subseteq> set xs \<union> set ms"
      by (simp add: tr_ok_def slice_ok_def slots_def)
  qed
qed

theorem concurrent_mounts_lose_entries_witness:
  "\<exists>s. tr_reach (tr_init [] 0 [code_share, nix_share] 0) s \<and> tracked s = [nix_share]"
  using concurrent_mounts_lose_entries[of "[]" 0 code_share nix_share] by auto

subsection \<open>Two shutdowns at a time\<close>

text \<open>A shutdown that runs alone from the head of its loop.\<close>

lemma job_alone:
  assumes "k < length (tr_jobs s)" and "tr_jobs s ! k = JobLoop (int n - 1)" and "\<not> tr_crashed s"
    and "n \<le> length (tracked s)" and "length (tracked s) = snd (tr_slice s)"
  shows "tr_reach s (s\<lparr>tr_unmounted := tr_unmounted s @ rev (take n (tracked s)),
      tr_jobs := (tr_jobs s)[k := JobLoop (- 1)]\<rparr>)"
  using assms
proof (induction n arbitrary: s)
  case 0
  then have "s\<lparr>tr_jobs := (tr_jobs s)[k := JobLoop (- 1)]\<rparr> = s" by (simp add: list_update_same_conv)
  then show ?case by (metis (no_types, lifting) 0 append_Nil2 list_update_id of_nat_0 rev.simps(1) rtranclp.rtrancl_refl
      take_0 tracking.surjective tracking.update_convs(4,5) diff_0)
next
  case (Suc n)
  let ?m = "tracked s ! n"
  let ?s1 = "s\<lparr>tr_jobs := (tr_jobs s)[k := JobUmount (tracked s ! nat (int n)) (int n)]\<rparr>"
  let ?s2 = "?s1\<lparr>tr_unmounted := tr_unmounted ?s1 @ [?m], tr_jobs := (tr_jobs ?s1)[k := JobLoop (int n - 1)]\<rparr>"
  have st1: "tr_step s ?s1" by (rule job_index) (use Suc.prems in auto)
  have st2: "tr_step ?s1 ?s2" by (rule job_umount) (use Suc.prems in auto)
  have "tr_reach ?s2 (?s2\<lparr>tr_unmounted := tr_unmounted ?s2 @ rev (take n (tracked ?s2)),
      tr_jobs := (tr_jobs ?s2)[k := JobLoop (- 1)]\<rparr>)"
    by (rule Suc.IH) (use Suc.prems in auto)
  moreover have "rev (take (Suc n) (tracked s)) = ?m # rev (take n (tracked s))"
    using Suc.prems(4) by (simp add: take_Suc_conv_app_nth)
  ultimately have "tr_reach ?s2 (s\<lparr>tr_unmounted := tr_unmounted s @ rev (take (Suc n) (tracked s)),
      tr_jobs := (tr_jobs s)[k := JobLoop (- 1)]\<rparr>)" by simp
  with st1 st2 show ?case by (meson tr_path)
qed

text \<open>C37: Every shutdown message and request starts its own goroutine, and only the end of it is
  guarded by a once. Two of them can crash the daemon: from any list that is not empty there is
  a schedule in which one unmounts everything and clears the list while the other is in its
  loop, whose next index is out of range. The process ends there, before that shutdown has
  synced and powered off.\<close>

theorem concurrent_shutdowns_crash:
  assumes "xs \<noteq> []"
  shows "\<exists>s. tr_reach (tr_init xs room ms 2) s \<and> tr_crashed s \<and> tr_unmounted s = rev xs \<and> tracked s = []"
proof -
  let ?s0 = "tr_init xs room ms 2" and ?n = "length xs"
  let ?s1 = "?s0\<lparr>tr_jobs := (tr_jobs ?s0)[0 := JobLoop (int (snd (tr_slice ?s0)) - 1)]\<rparr>"
  let ?s2 = "?s1\<lparr>tr_jobs := (tr_jobs ?s1)[1 := JobLoop (int (snd (tr_slice ?s1)) - 1)]\<rparr>"
  let ?s3 = "?s2\<lparr>tr_unmounted := tr_unmounted ?s2 @ rev (take ?n (tracked ?s2)),
      tr_jobs := (tr_jobs ?s2)[1 := JobLoop (- 1)]\<rparr>"
  let ?s4 = "?s3\<lparr>tr_slice := (0, 0), tr_jobs := (tr_jobs ?s3)[1 := JobDone]\<rparr>"
  have f: "tr_jobs ?s0 = [JobStart, JobStart]" "tr_slice ?s0 = (Suc 0, ?n)" "\<not> tr_crashed ?s0"
    "tr_unmounted ?s0 = []" "slots ?s0 (Suc 0, ?n) = xs"
    by (simp_all add: tr_init_def numeral_2_eq_2 slots_def)
  have st1: "tr_step ?s0 ?s1" by (rule job_len) (simp_all add: f)
  have st2: "tr_step ?s1 ?s2" by (rule job_len) (simp_all add: f)
  have r3: "tr_reach ?s2 ?s3" by (rule job_alone) (simp_all add: f)
  have st4: "tr_step ?s3 ?s4" by (rule job_clear[where k = 1 and i = "- 1"]) (simp_all add: f)
  have st5: "tr_step ?s4 (?s4\<lparr>tr_crashed := True\<rparr>)"
    by (rule job_panic[where k = 0 and i = "int ?n - 1"]) (use assms in \<open>simp_all add: f Suc_le_eq\<close>)
  have "tr_reach ?s3 (?s4\<lparr>tr_crashed := True\<rparr>)" using st4 st5 by (meson tr_path rtranclp.rtrancl_refl)
  then have "tr_reach ?s2 (?s4\<lparr>tr_crashed := True\<rparr>)" by (rule rtranclp_trans[OF r3])
  then have "tr_reach ?s0 (?s4\<lparr>tr_crashed := True\<rparr>)" using st1 st2 by (meson tr_path)
  then show ?thesis by (intro exI[of _ "?s4\<lparr>tr_crashed := True\<rparr>"]) (simp add: f, simp add: slots_def)
qed

theorem concurrent_shutdowns_crash_witness:
  "\<exists>s. tr_reach (tr_init [code_share] 3 [nix_share] 2) s \<and> tr_crashed s \<and> tr_unmounted s = [code_share]"
  using concurrent_shutdowns_crash[of "[code_share]" 3 "[nix_share]"] by auto

subsection \<open>The operations of the sequential model are schedules\<close>

lemma unmount_all_is_a_schedule:
  assumes "command_runner (mm_commander mm)"
  shows "\<exists>s. tr_reach (tr_init (mm_mounts mm) room [] (Suc 0)) s \<and> tr_jobs s = [JobDone] \<and>
    cmds (snd (unmount_all mm w)) = cmds w @ umount_cmds (tr_unmounted s) \<and>
    tracked s = active_mounts (fst (unmount_all mm w))"
proof -
  let ?xs = "mm_mounts mm"
  let ?s0 = "tr_init ?xs room [] (Suc 0)" and ?n = "length ?xs"
  let ?s1 = "?s0\<lparr>tr_jobs := (tr_jobs ?s0)[0 := JobLoop (int (snd (tr_slice ?s0)) - 1)]\<rparr>"
  let ?s2 = "?s1\<lparr>tr_unmounted := tr_unmounted ?s1 @ rev (take ?n (tracked ?s1)),
      tr_jobs := (tr_jobs ?s1)[0 := JobLoop (- 1)]\<rparr>"
  let ?s3 = "?s2\<lparr>tr_slice := (0, 0), tr_jobs := (tr_jobs ?s2)[0 := JobDone]\<rparr>"
  have f: "tr_jobs ?s0 = [JobStart]" "tr_slice ?s0 = (Suc 0, ?n)" "\<not> tr_crashed ?s0" "tr_unmounted ?s0 = []"
    "slots ?s0 (Suc 0, ?n) = ?xs"
    by (simp_all add: tr_init_def slots_def)
  have st1: "tr_step ?s0 ?s1" by (rule job_len) (simp_all add: f)
  have r2: "tr_reach ?s1 ?s2" by (rule job_alone) (simp_all add: f)
  have st3: "tr_step ?s2 ?s3" by (rule job_clear[where k = 0 and i = "- 1"]) (simp_all add: f)
  have "tr_reach ?s1 ?s3" using r2 st3 by (rule rtranclp.rtrancl_into_rtrancl)
  with st1 have "tr_reach ?s0 ?s3" by (rule converse_rtranclp_into_rtranclp)
  moreover have "tr_unmounted ?s3 = rev ?xs" by (simp add: f)
  moreover have "tr_jobs ?s3 = [JobDone]" by (simp add: f)
  moreover have "tracked ?s3 = []" by (simp add: slots_def)
  moreover have "cmds (snd (unmount_all mm w)) = cmds w @ umount_cmds (rev ?xs)"
    by (rule unmount_all_cmds[OF assms])
  moreover have "active_mounts (fst (unmount_all mm w)) = []" by (simp add: unmount_all_def active_mounts_def)
  ultimately show ?thesis by metis
qed

lemma mount_tracks_is_a_schedule:
  "\<exists>s. tr_reach (tr_init xs room [m] 0) s \<and> tr_handlers s = [MountTracked m] \<and> tracked s = xs @ [m]"
proof -
  let ?s0 = "tr_init xs room [m] 0"
  let ?s1 = "?s0\<lparr>tr_handlers := (tr_handlers ?s0)[0 := MountLoaded m (tr_slice ?s0)]\<rparr>"
  have st1: "tr_step ?s0 ?s1" by (rule mount_load) (simp_all add: tr_init_def)
  have "tr_ok UNIV ?s1" using tr_ok_step[OF st1] by (simp add: tr_ok_init)
  then obtain s2 h where s2: "tr_step ?s1 s2" "tr_handlers s2 = [MountAppended m h]" "slots s2 h = xs @ [m]" "\<not> tr_crashed s2"
    using append_step[of ?s1 0 m 1 "length xs" UNIV] by (auto simp: tr_init_def tr_ok_def slots_def)
  let ?s3 = "s2\<lparr>tr_slice := h, tr_handlers := (tr_handlers s2)[0 := MountTracked m]\<rparr>"
  have "tr_step s2 ?s3" by (rule mount_store) (use s2 in auto)
  then have "tr_reach ?s0 ?s3" using st1 s2(1) by (meson tr_path rtranclp.rtrancl_refl)
  then show ?thesis using s2 by (intro exI[of _ ?s3]) simp
qed

subsection \<open>One shutdown and one mount\<close>

text \<open>What the shutdown unmounts: the list as it was when it read the length.\<close>

definition targets :: "mount_payload list \<Rightarrow> mount_payload \<Rightarrow> bool \<Rightarrow> mount_payload list set" where
  "targets xs m added = (if added then {xs, xs @ [m]} else {xs})"

fun job_ok :: "mount_payload list set \<Rightarrow> mount_payload list \<Rightarrow> job_pc \<Rightarrow> bool" where
  "job_ok T u JobStart \<longleftrightarrow> u = []"
| "job_ok T u (JobLoop i) \<longleftrightarrow>
     (\<exists>t\<in>T. - 1 \<le> i \<and> i < int (length t) \<and> u = rev (drop (nat (i + 1)) t))"
| "job_ok T u (JobUmount x i) \<longleftrightarrow>
     (\<exists>t\<in>T. 0 \<le> i \<and> i < int (length t) \<and> x = t ! nat i \<and> u = rev (drop (nat (i + 1)) t))"
| "job_ok T u JobDone \<longleftrightarrow> (\<exists>t\<in>T. u = rev t)"

fun handler_ok :: "mount_payload list \<Rightarrow> mount_payload \<Rightarrow> tracking \<Rightarrow> mount_pc \<Rightarrow> bool" where
  "handler_ok xs m s (MountRan m') \<longleftrightarrow> m' = m \<and> tracked s = xs"
| "handler_ok xs m s (MountLoaded m' h) \<longleftrightarrow> m' = m \<and> tracked s = xs \<and> slots s h = xs"
| "handler_ok xs m s (MountAppended m' h) \<longleftrightarrow> m' = m \<and> tracked s = xs \<and> slots s h = xs @ [m]"
| "handler_ok xs m s (MountTracked m') \<longleftrightarrow> m' = m \<and> tracked s = xs @ [m]"

definition is_tracked :: "mount_pc \<Rightarrow> bool" where
  "is_tracked pc \<longleftrightarrow> (case pc of MountTracked m \<Rightarrow> True | _ \<Rightarrow> False)"

definition lone :: "mount_payload list \<Rightarrow> mount_payload \<Rightarrow> tracking \<Rightarrow> bool" where
  "lone xs m s \<longleftrightarrow> \<not> tr_crashed s \<and>
     (\<exists>h j. tr_handlers s = [h] \<and> tr_jobs s = [j] \<and> job_ok (targets xs m (is_tracked h)) (tr_unmounted s) j \<and>
        (j \<noteq> JobDone \<longrightarrow> handler_ok xs m s h))"

lemma targets_mono: "targets xs m b \<subseteq> targets xs m True"
  by (simp add: targets_def)

lemma job_ok_mono: "job_ok T u j \<Longrightarrow> T \<subseteq> T' \<Longrightarrow> job_ok T' u j"
  by (cases j) auto

lemma drop_here: "0 \<le> i \<Longrightarrow> i < int (length t) \<Longrightarrow> rev (drop (nat i) t) = rev (drop (nat (i + 1)) t) @ [t ! nat i]"
  by (simp add: Cons_nth_drop_Suc[symmetric] nat_add_distrib)

text \<open>What the handler does to the state, and what the shutdown does, as rules for the invariant.\<close>

lemma lone_appended:
  assumes "lone xs m s" and "tr_handlers s = [MountLoaded m' h]" and "tr_handlers s' = [MountAppended m' h']"
    and "tr_jobs s' = tr_jobs s" and "tr_unmounted s' = tr_unmounted s" and "\<not> tr_crashed s'"
    and "slots s' h' = slots s h @ [m']" and "tr_jobs s \<noteq> [JobDone] \<Longrightarrow> tracked s' = tracked s"
  shows "lone xs m s'"
  using assms by (auto simp: lone_def is_tracked_def)

lemma lone_job:
  assumes "lone xs m s" and "tr_handlers s = [h]" and "tr_handlers s' = [h]" and "tr_jobs s' = [j']"
    and "\<not> tr_crashed s'" and "job_ok (targets xs m (is_tracked h)) (tr_unmounted s') j'"
    and "j' \<noteq> JobDone \<Longrightarrow> tr_jobs s \<noteq> [JobDone] \<and> tr_slice s' = tr_slice s \<and> tr_arrays s' = tr_arrays s"
  shows "lone xs m s'"
proof -
  have "handler_ok xs m s' h = handler_ok xs m s h" if "j' \<noteq> JobDone"
    using assms(7)[OF that] by (cases h) (simp_all add: slots_def)
  then show ?thesis using assms by (auto simp: lone_def)
qed

lemma lone_targets:
  assumes "lone xs m s" and "tr_handlers s = [h]" and "tr_jobs s \<noteq> [JobDone]"
  shows "tracked s \<in> targets xs m (is_tracked h)"
    and "t \<in> targets xs m (is_tracked h) \<Longrightarrow> length t \<le> length (tracked s)"
    and "t \<in> targets xs m (is_tracked h) \<Longrightarrow> k < length t \<Longrightarrow> tracked s ! k = t ! k"
  using assms by (cases h; auto simp: lone_def is_tracked_def targets_def nth_append split: if_splits)+

lemma lone_loaded:
  assumes "lone xs m s" and "tr_handlers s = [MountLoaded m' h]" and "tr_jobs s \<noteq> [JobDone]"
  shows "slots s h = tracked s"
  using assms by (auto simp: lone_def)

lemma lone_handler_step:
  assumes "tr_step s s'" and "tr_ok UNIV s" and "lone xs m s" and "tr_jobs s' = tr_jobs s" and "\<not> tr_crashed s'"
  shows "lone xs m s'"
proof -
  obtain h j where s: "tr_handlers s = [h]" "tr_jobs s = [j]"
      "job_ok (targets xs m (is_tracked h)) (tr_unmounted s) j" "j \<noteq> JobDone \<longrightarrow> handler_ok xs m s h"
    using assms(3) by (auto simp: lone_def)
  have len: "length (tracked s) = snd (tr_slice s)" and old: "fst (tr_slice s) < length (tr_arrays s)"
    using assms(2) slots_length[of UNIV s "tr_slice s"] by (simp_all add: tr_ok_def slice_ok_def)
  from assms(1) show ?thesis
  proof cases
    case (mount_load k m')
    then show ?thesis using assms(3) by (auto simp: lone_def is_tracked_def)
  next
    case (mount_append k m' a n)
    have hk: "h = MountLoaded m' (a, n)" "k = 0" using mount_append s(1) by auto
    have sl: "slice_ok UNIV (tr_arrays s) (a, n)" using tr_ok_at(1)[OF assms(2), of 0] s(1) hk by simp
    have "slots s' (tr_slice s) = slots s (tr_slice s)" if "tr_jobs s \<noteq> [JobDone]"
      using mount_append lone_loaded[OF assms(3) _ that, of m' "(a, n)"] s(1) hk slots_length[OF sl] len
      by (simp add: slots_put)
    moreover have "slots s' (a, Suc n) = slots s (a, n) @ [m']"
      using mount_append sl by (simp add: slots_def slice_ok_def take_Suc_conv_app_nth)
    ultimately show ?thesis
      using mount_append s(1) hk assms(5) by (intro lone_appended[OF assms(3)]) simp_all
  next
    case (mount_grow k m' a n spare)
    have hk: "h = MountLoaded m' (a, n)" "k = 0" using mount_grow s(1) by auto
    have sl: "slice_ok UNIV (tr_arrays s) (a, n)" using tr_ok_at(1)[OF assms(2), of 0] s(1) hk by simp
    have "slots s' (tr_slice s) = slots s (tr_slice s)" using mount_grow old by (simp add: slots_new)
    moreover have "slots s' (length (tr_arrays s), Suc n) = slots s (a, n) @ [m']"
      using mount_grow sl by (simp add: slots_def slice_ok_def)
    ultimately show ?thesis
      using mount_grow s(1) hk assms(5) by (intro lone_appended[OF assms(3)]) simp_all
  next
    case (mount_store k m' h')
    have hk: "h = MountAppended m' h'" "k = 0" using mount_store s(1) by auto
    have "job_ok (targets xs m True) (tr_unmounted s) j" using job_ok_mono[OF s(3) targets_mono] .
    then show ?thesis using mount_store s hk by (auto simp: lone_def is_tracked_def)
  qed (use s(2) assms(4,5) in auto)
qed

lemma lone_step:
  assumes "tr_step s s'" and "tr_ok UNIV s" and "lone xs m s"
  shows "lone xs m s'"
proof -
  obtain h j where s: "\<not> tr_crashed s" "tr_handlers s = [h]" "tr_jobs s = [j]"
      "job_ok (targets xs m (is_tracked h)) (tr_unmounted s) j"
    using assms(3) by (auto simp: lone_def)
  have len: "length (tracked s) = snd (tr_slice s)"
    using assms(2) slots_length[of UNIV s "tr_slice s"] by (simp add: tr_ok_def)
  note at = lone_targets[OF assms(3) s(2)] and job = lone_job[OF assms(3) s(2)]
  from assms(1) show ?thesis
  proof cases
    case (job_len k)
    then show ?thesis using s at(1) len by (intro job) force+
  next
    case (job_index k i)
    then have j: "j = JobLoop i" using s(3) by auto
    then obtain t where t: "t \<in> targets xs m (is_tracked h)" "i < int (length t)"
        "tr_unmounted s = rev (drop (nat (i + 1)) t)"
      using s(4) by auto
    have "tracked s ! nat i = t ! nat i" using at(3)[OF _ t(1)] t(2) job_index s(3) j by simp
    then have "job_ok (targets xs m (is_tracked h)) (tr_unmounted s) (JobUmount (tracked s ! nat i) i)"
      using t job_index by (auto intro!: bexI[of _ t])
    then show ?thesis using job_index s(1-3) j by (intro job) (auto simp del: job_ok.simps)
  next
    case (job_panic k i)
    then have "j = JobLoop i" using s(3) by auto
    then show ?thesis using job_panic s at(2) len by fastforce
  next
    case (job_umount k x i)
    then have j: "j = JobUmount x i" using s(3) by auto
    then obtain t where t: "t \<in> targets xs m (is_tracked h)" "0 \<le> i" "i < int (length t)" "x = t ! nat i"
        "tr_unmounted s = rev (drop (nat (i + 1)) t)"
      using s(4) by auto
    have "tr_unmounted s @ [x] = rev (drop (nat i) t)" using drop_here[OF t(2,3)] t(4,5) by simp
    then have "job_ok (targets xs m (is_tracked h)) (tr_unmounted s @ [x]) (JobLoop (i - 1))"
      using t by (auto intro!: bexI[of _ t])
    then show ?thesis using job_umount s j by (intro job) auto
  next
    case (job_clear k i)
    then have "j = JobLoop i" "i = - 1" using s(3,4) by auto
    then have "job_ok (targets xs m (is_tracked h)) (tr_unmounted s) JobDone" using s(4) by auto
    then show ?thesis using job_clear s by (intro job) auto
  qed (rule lone_handler_step[OF assms], simp, use s in simp)+
qed

text \<open>C14: One shutdown at a time is safe as far as the list goes, even while one mount is under way: in
  every interleaving of the two it never panics, and when it is over it has unmounted every
  entry that was tracked at the start exactly once, the last mounted first, and possibly before
  them the one of the mount that was under way.\<close>

theorem lone_shutdown_safe:
  assumes "tr_reach (tr_init xs room [m] 1) s"
  shows "\<not> tr_crashed s \<and> (tr_jobs s = [JobDone] \<longrightarrow> tr_unmounted s \<in> {rev xs, m # rev xs})"
proof -
  have "tr_ok UNIV s \<and> lone xs m s"
    using assms
  proof (induction rule: rtranclp_induct)
    case base
    have "lone xs m (tr_init xs room [m] 1)" by (simp add: lone_def tr_init_def slots_def)
    then show ?case by (simp add: tr_ok_init)
  next
    case (step s t)
    then show ?case by (blast intro: tr_ok_step lone_step)
  qed
  then show ?thesis by (auto simp: lone_def targets_def split: if_splits)
qed

theorem lone_shutdown_safe_witness:
  "\<not> tr_crashed ((tr_init [code_share] 0 [nix_share] 1)\<lparr>tr_jobs := [JobLoop 0]\<rparr>)"
proof -
  let ?s = "tr_init [code_share] 0 [nix_share] 1"
  have "tr_step ?s (?s\<lparr>tr_jobs := (tr_jobs ?s)[0 := JobLoop (int (snd (tr_slice ?s)) - 1)]\<rparr>)"
    by (rule job_len) (simp_all add: tr_init_def)
  then have "tr_reach ?s (?s\<lparr>tr_jobs := [JobLoop 0]\<rparr>)" by (simp add: tr_init_def)
  from lone_shutdown_safe[OF this] show ?thesis by simp
qed

subsection \<open>Every schedule ends\<close>

text \<open>
  The loop of UnmountAll reads a list that changes under it, and still every schedule of mounts
  and shutdowns is finite: a bound on the lengths of all slices bounds the indices, which only
  go down.
\<close>

fun appended :: "mount_pc \<Rightarrow> nat" where
  "appended (MountRan m) = 0"
| "appended (MountLoaded m h) = 0"
| "appended (MountAppended m h) = 1"
| "appended (MountTracked m) = 1"

fun mount_left :: "mount_pc \<Rightarrow> nat" where
  "mount_left (MountRan m) = 3"
| "mount_left (MountLoaded m h) = 2"
| "mount_left (MountAppended m h) = 1"
| "mount_left (MountTracked m) = 0"

fun job_left :: "nat \<Rightarrow> job_pc \<Rightarrow> nat" where
  "job_left N JobStart = 2 * N + 2"
| "job_left N (JobLoop i) = 2 * nat (i + 1) + 1"
| "job_left N (JobUmount m i) = 2 * nat (i + 1)"
| "job_left N JobDone = 0"

definition steps_left :: "nat \<Rightarrow> tracking \<Rightarrow> nat" where
  "steps_left N s = (if tr_crashed s then 0
     else Suc (sum_list (map mount_left (tr_handlers s)) + sum_list (map (job_left N) (tr_jobs s))))"

definition tr_bounded :: "nat \<Rightarrow> tracking \<Rightarrow> bool" where
  "tr_bounded L s \<longleftrightarrow>
     (let b = L + sum_list (map appended (tr_handlers s)) in
      snd (tr_slice s) \<le> b \<and> list_all (\<lambda>pc. \<forall>h\<in>pc_slices pc. snd h \<le> b) (tr_handlers s)) \<and>
     list_all (\<lambda>pc. case pc of JobUmount m i \<Rightarrow> 0 \<le> i | _ \<Rightarrow> True) (tr_jobs s)"

lemma sum_map_update:
  fixes f :: "'a \<Rightarrow> nat"
  assumes "k < length xs"
  shows "sum_list (map f (xs[k := y])) + f (xs ! k) = sum_list (map f xs) + f y"
  using assms
proof (induction xs arbitrary: k)
  case (Cons x xs)
  then show ?case by (cases k) auto
qed simp

lemma appended_le: "sum_list (map appended hs) \<le> length hs"
proof (induction hs)
  case (Cons pc hs)
  then show ?case by (cases pc) auto
qed simp

lemma list_all_weaken: "list_all P xs \<Longrightarrow> (\<And>x. P x \<Longrightarrow> Q x) \<Longrightarrow> list_all Q xs"
  by (auto simp: list_all_iff)

lemma tr_bounded_step:
  assumes "tr_step s s'" and "tr_bounded L s"
  shows "tr_bounded L s'"
  using assms
proof (induction rule: tr_step.induct)
  case (mount_load s k m)
  then show ?case
    using sum_map_update[of k "tr_handlers s" appended "MountLoaded m (tr_slice s)"]
    by (simp add: tr_bounded_def Let_def list_all_update)
next
  case (mount_append s k m a n)
  let ?b = "L + sum_list (map appended (tr_handlers s))"
  have "n \<le> ?b" using mount_append by (auto simp: tr_bounded_def Let_def list_all_length)
  moreover have "list_all (\<lambda>pc. \<forall>h\<in>pc_slices pc. snd h \<le> Suc ?b) (tr_handlers s)"
    using mount_append.prems by (auto simp: tr_bounded_def Let_def elim!: list_all_weaken dest!: bspec)
  ultimately show ?case
    using mount_append sum_map_update[of k "tr_handlers s" appended "MountAppended m (a, Suc n)"]
    by (simp add: tr_bounded_def Let_def list_all_update)
next
  case (mount_grow s k m a n spare)
  let ?b = "L + sum_list (map appended (tr_handlers s))"
  have "n \<le> ?b" using mount_grow by (auto simp: tr_bounded_def Let_def list_all_length)
  moreover have "list_all (\<lambda>pc. \<forall>h\<in>pc_slices pc. snd h \<le> Suc ?b) (tr_handlers s)"
    using mount_grow.prems by (auto simp: tr_bounded_def Let_def elim!: list_all_weaken dest!: bspec)
  ultimately show ?case
    using mount_grow sum_map_update[of k "tr_handlers s" appended "MountAppended m (length (tr_arrays s), Suc n)"]
    by (simp add: tr_bounded_def Let_def list_all_update)
next
  case (mount_store s k m h)
  then have "snd h \<le> L + sum_list (map appended (tr_handlers s))"
    by (auto simp: tr_bounded_def Let_def list_all_length)
  then show ?case
    using mount_store sum_map_update[of k "tr_handlers s" appended "MountTracked m"]
    by (simp add: tr_bounded_def Let_def list_all_update)
qed (simp_all add: tr_bounded_def Let_def list_all_update)

lemma steps_left_step:
  assumes "tr_step s s'" and "tr_bounded L s" and "L + length (tr_handlers s) \<le> N"
  shows "steps_left N s' < steps_left N s"
  using assms
proof (induction rule: tr_step.induct)
  case (mount_load s k m)
  then show ?case
    using sum_map_update[of k "tr_handlers s" mount_left "MountLoaded m (tr_slice s)"] by (simp add: steps_left_def)
next
  case (mount_append s k m a n)
  then show ?case
    using sum_map_update[of k "tr_handlers s" mount_left "MountAppended m (a, Suc n)"] by (simp add: steps_left_def)
next
  case (mount_grow s k m a n spare)
  then show ?case
    using sum_map_update[of k "tr_handlers s" mount_left "MountAppended m (length (tr_arrays s), Suc n)"]
    by (simp add: steps_left_def)
next
  case (mount_store s k m h)
  then show ?case
    using sum_map_update[of k "tr_handlers s" mount_left "MountTracked m"] by (simp add: steps_left_def)
next
  case (job_len s k)
  then have "snd (tr_slice s) \<le> N"
    using appended_le[of "tr_handlers s"] by (simp add: tr_bounded_def Let_def)
  with job_len show ?case
    using sum_map_update[of k "tr_jobs s" "job_left N" "JobLoop (int (snd (tr_slice s)) - 1)"]
    by (simp add: steps_left_def)
next
  case (job_index s k i)
  then show ?case
    using sum_map_update[of k "tr_jobs s" "job_left N" "JobUmount (slots s (tr_slice s) ! nat i) i"]
    by (simp add: steps_left_def)
next
  case (job_panic s k i)
  then show ?case by (simp add: steps_left_def)
next
  case (job_umount s k m i)
  then have "0 \<le> i" by (auto simp: tr_bounded_def list_all_length split: job_pc.splits)
  with job_umount show ?case
    using sum_map_update[of k "tr_jobs s" "job_left N" "JobLoop (i - 1)"]
    by (simp add: steps_left_def nat_add_distrib)
next
  case (job_clear s k i)
  then show ?case
    using sum_map_update[of k "tr_jobs s" "job_left N" JobDone] by (simp add: steps_left_def)
qed

lemma handlers_length: "tr_step s s' \<Longrightarrow> length (tr_handlers s') = length (tr_handlers s)"
  by (induction rule: tr_step.induct) simp_all

text \<open>Only a panic or the end stops the goroutines.\<close>

lemma tr_stuck:
  assumes "\<nexists>t. tr_step s t" and "\<not> tr_crashed s"
  shows "list_all is_tracked (tr_handlers s) \<and> list_all (\<lambda>pc. pc = JobDone) (tr_jobs s)"
proof -
  have "is_tracked (tr_handlers s ! k)" if "k < length (tr_handlers s)" for k
    using assms mount_load[OF assms(2) that] mount_append[OF assms(2) that] mount_grow[OF assms(2) that]
      mount_store[OF assms(2) that]
    by (cases "tr_handlers s ! k") (force simp: is_tracked_def)+
  moreover have "tr_jobs s ! k = JobDone" if "k < length (tr_jobs s)" for k
    using assms job_len[OF assms(2) that] job_index[OF assms(2) that] job_panic[OF assms(2) that]
      job_umount[OF assms(2) that] job_clear[OF assms(2) that]
    by (cases "tr_jobs s ! k") (force simp: not_le)+
  ultimately show ?thesis by (simp add: list_all_length)
qed

text \<open>C21: No schedule of mounts and shutdowns goes on for ever: with n entries at the start, h mounts
  under way and j shutdowns, it has at most 3h + j(2(n + h) + 2) + 1 accesses, and
  where it cannot go on there was a panic or every goroutine is through.\<close>

theorem mounts_and_shutdowns_end:
  assumes "(tr_step ^^ k) (tr_init xs room ms j) s"
  shows "k \<le> 3 * length ms + j * (2 * (length xs + length ms) + 2) + 1 \<and>
    ((\<nexists>t. tr_step s t) \<longrightarrow>
       tr_crashed s \<or> list_all is_tracked (tr_handlers s) \<and> list_all (\<lambda>pc. pc = JobDone) (tr_jobs s))"
proof -
  let ?N = "length xs + length ms" and ?s0 = "tr_init xs room ms j"
  have "tr_bounded (length xs) s \<and> length (tr_handlers s) = length ms \<and> k + steps_left ?N s \<le> steps_left ?N ?s0"
    using assms
  proof (induction k arbitrary: s)
    case 0
    have "list_all P (map MountRan ms) \<longleftrightarrow> list_all (\<lambda>m. P (MountRan m)) ms" for P
      by (simp add: list_all_iff)
    with 0 show ?case by (auto simp: tr_bounded_def tr_init_def list_all_iff)
  next
    case (Suc k)
    then obtain t where t: "(tr_step ^^ k) ?s0 t" "tr_step t s" by auto
    from Suc.IH[OF t(1)] t(2) show ?case
      using tr_bounded_step[OF t(2)] handlers_length[OF t(2)] steps_left_step[OF t(2), of "length xs" ?N] by fastforce
  qed
  moreover have "sum_list (map mount_left (map MountRan ms)) = 3 * length ms" by (induction ms) simp_all
  moreover have "sum_list (map (job_left ?N) (replicate j JobStart)) = j * (2 * ?N + 2)" by (induction j) simp_all
  ultimately show ?thesis using tr_stuck[of s] by (auto simp: steps_left_def tr_init_def)
qed

theorem mounts_and_shutdowns_end_witness:
  "\<not> (\<exists>s. (tr_step ^^ 9) (tr_init [] 0 [code_share] 1) s)"
proof
  assume "\<exists>s. (tr_step ^^ 9) (tr_init [] 0 [code_share] 1) s"
  then obtain s where "(tr_step ^^ 9) (tr_init [] 0 [code_share] 1) s" by blast
  from mounts_and_shutdowns_end[OF this] show False by simp
qed

end
