(* ===== verification/SecretRace.thy ===== *)
theory SecretRace
  imports Secrets
begin

text \<open>
  Injections of secrets at the same time (pkg/secrets.go). Every connection and every request is
  served by a goroutine of its own, and the secret manager has no mutex, so the system calls of
  several Inject interleave. Here the directory of secrets is taken apart into entries and the
  files they name, since a file that is open keeps its identity when its entry is renamed.
\<close>

subsection \<open>Injections and their system calls\<close>

text \<open>
  Where an injection of a name and a value is: before it opens its temporary file, before it
  writes to the file it has opened, before the rename, before it removes the temporary file,
  and at its end with whether it succeeded.
\<close>

datatype writer_pc =
    WOpen string string
  | WWrite string string nat
  | WRename string string
  | WRemove string string
  | WDone string string bool

fun wr_name :: "writer_pc \<Rightarrow> string" where
  "wr_name (WOpen n v) = n"
| "wr_name (WWrite n v i) = n"
| "wr_name (WRename n v) = n"
| "wr_name (WRemove n v) = n"
| "wr_name (WDone n v b) = n"

fun wr_value :: "writer_pc \<Rightarrow> string" where
  "wr_value (WOpen n v) = v"
| "wr_value (WWrite n v i) = v"
| "wr_value (WRename n v) = v"
| "wr_value (WRemove n v) = v"
| "wr_value (WDone n v b) = v"

record secret_dir =
  sd_entries :: "string \<Rightarrow> nat option"
  sd_files :: "string list"
  sd_writers :: "writer_pc list"

definition tmp_of :: "string \<Rightarrow> string" where
  "tmp_of n = n @ ''.tmp''"

definition content :: "secret_dir \<Rightarrow> string \<Rightarrow> string option" where
  "content s n = map_option (\<lambda>i. sd_files s ! i) (sd_entries s n)"

text \<open>What a write of a string at the start of a file leaves in it.\<close>

definition overwrite :: "string \<Rightarrow> string \<Rightarrow> string" where
  "overwrite v old = v @ drop (length v) old"

definition at_writer :: "secret_dir \<Rightarrow> nat \<Rightarrow> writer_pc \<Rightarrow> bool" where
  "at_writer s k pc \<longleftrightarrow> k < length (sd_writers s) \<and> sd_writers s ! k = pc"

definition move :: "nat \<Rightarrow> writer_pc \<Rightarrow> secret_dir \<Rightarrow> secret_dir" where
  "move k pc s = s\<lparr>sd_writers := (sd_writers s)[k := pc]\<rparr>"

text \<open>Any call may fail, a write after some of the bytes.\<close>

inductive sd_step :: "secret_dir \<Rightarrow> secret_dir \<Rightarrow> bool" where
  open_fails: "at_writer s k (WOpen n v) \<Longrightarrow> sd_step s (move k (WDone n v False) s)"
| open_old: "\<lbrakk>at_writer s k (WOpen n v); sd_entries s (tmp_of n) = Some i\<rbrakk> \<Longrightarrow>
     sd_step s (move k (WWrite n v i) (s\<lparr>sd_files := (sd_files s)[i := []]\<rparr>))"
| open_new: "\<lbrakk>at_writer s k (WOpen n v); sd_entries s (tmp_of n) = None\<rbrakk> \<Longrightarrow>
     sd_step s (move k (WWrite n v (length (sd_files s)))
       (s\<lparr>sd_files := sd_files s @ [[]], sd_entries := (sd_entries s)(tmp_of n \<mapsto> length (sd_files s))\<rparr>))"
| write_all: "at_writer s k (WWrite n v i) \<Longrightarrow>
     sd_step s (move k (WRename n v) (s\<lparr>sd_files := (sd_files s)[i := overwrite v (sd_files s ! i)]\<rparr>))"
| write_fails: "at_writer s k (WWrite n v i) \<Longrightarrow>
     sd_step s (move k (WDone n v False) (s\<lparr>sd_files := (sd_files s)[i := overwrite (take j v) (sd_files s ! i)]\<rparr>))"
| rename_done: "\<lbrakk>at_writer s k (WRename n v); sd_entries s (tmp_of n) = Some i\<rbrakk> \<Longrightarrow>
     sd_step s (move k (WDone n v True) (s\<lparr>sd_entries := (sd_entries s)(tmp_of n := None, n \<mapsto> i)\<rparr>))"
| rename_fails: "at_writer s k (WRename n v) \<Longrightarrow> sd_step s (move k (WRemove n v) s)"
| remove_done: "at_writer s k (WRemove n v) \<Longrightarrow>
     sd_step s (move k (WDone n v False) (s\<lparr>sd_entries := (sd_entries s)(tmp_of n := None)\<rparr>))"
| remove_fails: "at_writer s k (WRemove n v) \<Longrightarrow> sd_step s (move k (WDone n v False) s)"

inductive_cases sd_stepE: "sd_step s s'"

abbreviation sd_reach :: "secret_dir \<Rightarrow> secret_dir \<Rightarrow> bool" where
  "sd_reach \<equiv> sd_step\<^sup>*\<^sup>*"

text \<open>The start: a directory, and the injections to come.\<close>

definition injecting :: "(string \<times> string) list \<Rightarrow> secret_dir \<Rightarrow> secret_dir" where
  "injecting nvs s = s\<lparr>sd_writers := map (\<lambda>(n, v). WOpen n v) nvs\<rparr>"

subsection \<open>Injections under names that do not meet\<close>

text \<open>No two entries name the same file, and every entry names one.\<close>

definition dir_ok :: "secret_dir \<Rightarrow> bool" where
  "dir_ok s \<longleftrightarrow> (\<forall>a b i. sd_entries s a = Some i \<and> sd_entries s b = Some i \<longrightarrow> a = b) \<and>
     (\<forall>a i. sd_entries s a = Some i \<longrightarrow> i < length (sd_files s))"

text \<open>Where an injection is tells what is in its two entries; \<open>c\<close> is what the secret was.\<close>

fun writer_ok :: "string option \<Rightarrow> secret_dir \<Rightarrow> writer_pc \<Rightarrow> bool" where
  "writer_ok c s (WOpen n v) \<longleftrightarrow> content s n = c"
| "writer_ok c s (WWrite n v i) \<longleftrightarrow>
     content s n = c \<and> sd_entries s (tmp_of n) = Some i \<and> content s (tmp_of n) = Some []"
| "writer_ok c s (WRename n v) \<longleftrightarrow> content s n = c \<and> content s (tmp_of n) = Some v"
| "writer_ok c s (WRemove n v) \<longleftrightarrow> content s n = c"
| "writer_ok c s (WDone n v b) \<longleftrightarrow> content s n = (if b then Some v else c)"

definition same_off :: "string set \<Rightarrow> secret_dir \<Rightarrow> secret_dir \<Rightarrow> bool" where
  "same_off X s s' \<longleftrightarrow> (\<forall>x. x \<notin> X \<longrightarrow> sd_entries s' x = sd_entries s x \<and> content s' x = content s x)"

lemma writer_ok_frame:
  assumes "same_off X s s'" and "wr_name pc \<notin> X" and "tmp_of (wr_name pc) \<notin> X" and "writer_ok c s pc"
  shows "writer_ok c s' pc"
  using assms by (cases pc) (auto simp: same_off_def)

lemma tmp_of_neq [simp]: "tmp_of n \<noteq> n" "n \<noteq> tmp_of n" "tmp_of a = tmp_of b \<longleftrightarrow> a = b"
  by (simp_all add: tmp_of_def)

lemma move_fields [simp]:
  "sd_entries (move k pc s) = sd_entries s" "sd_files (move k pc s) = sd_files s"
  "sd_writers (move k pc s) = (sd_writers s)[k := pc]" "content (move k pc s) = content s"
  by (simp_all add: move_def content_def fun_eq_iff)

text \<open>A change of the file that an entry names is seen through that entry only.\<close>

lemma content_file:
  assumes "dir_ok s" and "sd_entries s a = Some i"
  shows "content (s\<lparr>sd_files := (sd_files s)[i := t]\<rparr>) x = (if x = a then Some t else content s x)"
  using assms by (cases "sd_entries s x") (auto simp: content_def dir_ok_def nth_list_update)

lemma content_new:
  assumes "dir_ok s"
  shows "content (s\<lparr>sd_files := sd_files s @ [[]], sd_entries := (sd_entries s)(a \<mapsto> length (sd_files s))\<rparr>) x =
    (if x = a then Some [] else content s x)"
  using assms by (cases "sd_entries s x") (auto simp: content_def dir_ok_def nth_append)

lemma content_entries:
  "content (s\<lparr>sd_entries := e\<rparr>) x = map_option (\<lambda>i. sd_files s ! i) (e x)"
  by (simp add: content_def)

text \<open>One step of one injection: what it becomes, and that it stays within its two entries.\<close>

lemma sd_step_effect:
  assumes "sd_step s s'" and "dir_ok s" and "\<And>k. k < length (sd_writers s) \<Longrightarrow> writer_ok (c k) s (sd_writers s ! k)"
  shows "\<exists>k pc. k < length (sd_writers s) \<and> sd_writers s' = (sd_writers s)[k := pc] \<and>
    wr_name pc = wr_name (sd_writers s ! k) \<and> wr_value pc = wr_value (sd_writers s ! k) \<and>
    writer_ok (c k) s' pc \<and> dir_ok s' \<and> same_off {wr_name pc, tmp_of (wr_name pc)} s s'"
  using assms(1)
proof cases
  case (open_fails k n v)
  then show ?thesis
    using assms(2) assms(3)[of k] by (intro exI[of _ k] exI[of _ "WDone n v False"]) (auto simp: at_writer_def same_off_def dir_ok_def)
next
  case (open_old k n v i)
  then show ?thesis
    using assms(2) assms(3)[of k] content_file[OF assms(2), of "tmp_of n" i]
    by (intro exI[of _ k] exI[of _ "WWrite n v i"]) (auto simp: at_writer_def same_off_def dir_ok_def)
next
  case (open_new k n v)
  then show ?thesis
    using assms(2) assms(3)[of k] content_new[OF assms(2), of "tmp_of n"]
    by (intro exI[of _ k] exI[of _ "WWrite n v (length (sd_files s))"])
      (auto simp: at_writer_def same_off_def dir_ok_def less_Suc_eq split: if_splits)
next
  case (write_all k n v i)
  then show ?thesis
    using assms(2) assms(3)[of k] content_file[OF assms(2), of "tmp_of n" i]
    by (intro exI[of _ k] exI[of _ "WRename n v"])
      (auto simp: at_writer_def same_off_def dir_ok_def overwrite_def content_def)
next
  case (write_fails k n v i j)
  then show ?thesis
    using assms(2) assms(3)[of k] content_file[OF assms(2), of "tmp_of n" i]
    by (intro exI[of _ k] exI[of _ "WDone n v False"])
      (auto simp: at_writer_def same_off_def dir_ok_def)
next
  case (rename_done k n v i)
  then show ?thesis
    using assms(2) assms(3)[of k]
    by (intro exI[of _ k] exI[of _ "WDone n v True"])
      (auto simp: at_writer_def same_off_def dir_ok_def content_entries content_def split: if_splits)
next
  case (rename_fails k n v)
  then show ?thesis
    using assms(2) assms(3)[of k] by (intro exI[of _ k] exI[of _ "WRemove n v"]) (auto simp: at_writer_def same_off_def dir_ok_def)
next
  case (remove_done k n v)
  then show ?thesis
    using assms(2) assms(3)[of k]
    by (intro exI[of _ k] exI[of _ "WDone n v False"])
      (auto simp: at_writer_def same_off_def dir_ok_def content_entries content_def split: if_splits)
next
  case (remove_fails k n v)
  then show ?thesis
    using assms(2) assms(3)[of k] by (intro exI[of _ k] exI[of _ "WDone n v False"]) (auto simp: at_writer_def same_off_def dir_ok_def)
qed

text \<open>The names of the injections: none twice, and none the temporary name of another.\<close>

definition names_apart :: "string list \<Rightarrow> bool" where
  "names_apart ns \<longleftrightarrow> distinct ns \<and> (\<forall>a\<in>set ns. \<forall>b\<in>set ns. a \<noteq> tmp_of b)"

definition apart_ok :: "(string \<Rightarrow> string option) \<Rightarrow> (string \<times> string) list \<Rightarrow> secret_dir \<Rightarrow> bool" where
  "apart_ok c nvs s \<longleftrightarrow> dir_ok s \<and> length (sd_writers s) = length nvs \<and>
     (\<forall>k<length nvs. (wr_name (sd_writers s ! k), wr_value (sd_writers s ! k)) = nvs ! k \<and>
        writer_ok (c (fst (nvs ! k))) s (sd_writers s ! k)) \<and>
     (\<forall>x. x \<notin> fst ` set nvs \<and> x \<notin> tmp_of ` fst ` set nvs \<longrightarrow> content s x = c x)"

lemma apart_ok_step:
  assumes "names_apart (map fst nvs)" and "sd_step s s'" and "apart_ok c nvs s"
  shows "apart_ok c nvs s'"
proof -
  note inv = assms(3)[unfolded apart_ok_def]
  have local: "writer_ok (c (fst (nvs ! k))) s (sd_writers s ! k)" if "k < length (sd_writers s)" for k
    using inv that by simp
  obtain k pc where e: "k < length nvs" "sd_writers s' = (sd_writers s)[k := pc]"
      "wr_name pc = fst (nvs ! k)" "wr_value pc = snd (nvs ! k)" "writer_ok (c (fst (nvs ! k))) s' pc" "dir_ok s'"
      "same_off {fst (nvs ! k), tmp_of (fst (nvs ! k))} s s'"
    using sd_step_effect[OF assms(2) _ local] inv by (metis prod.sel)
  have other: "writer_ok (c (fst (nvs ! j))) s' (sd_writers s ! j)" if "j < length nvs" "j \<noteq> k" for j
  proof (rule writer_ok_frame[OF e(7)])
    have n: "wr_name (sd_writers s ! j) = fst (nvs ! j)" using inv that by (metis prod.sel(1))
    have d: "fst (nvs ! j) \<noteq> fst (nvs ! k)"
      using assms(1) that e(1) by (auto simp: names_apart_def distinct_conv_nth)
    moreover have "fst (nvs ! j) \<noteq> tmp_of (fst (nvs ! k))" "tmp_of (fst (nvs ! j)) \<noteq> fst (nvs ! k)"
      using assms(1) that e(1) unfolding names_apart_def by (metis length_map nth_map nth_mem)+
    ultimately show "wr_name (sd_writers s ! j) \<notin> {fst (nvs ! k), tmp_of (fst (nvs ! k))}"
      "tmp_of (wr_name (sd_writers s ! j)) \<notin> {fst (nvs ! k), tmp_of (fst (nvs ! k))}"
      by (simp_all add: n)
  qed (use inv that in simp)
  have "content s' x = c x" if x: "x \<notin> fst ` set nvs" "x \<notin> tmp_of ` fst ` set nvs" for x
  proof -
    have "x \<notin> {fst (nvs ! k), tmp_of (fst (nvs ! k))}" using x nth_mem[OF e(1)] by blast
    then have "content s' x = content s x" using e(7) by (simp add: same_off_def)
    then show ?thesis using inv x by simp
  qed
  then show ?thesis
    using inv e other by (auto simp: apart_ok_def nth_list_update)
qed

text \<open>C11: Injections at the same time under names that do not meet do not disturb each other. In every
  interleaving of their system calls, with any of them failing, at every moment each secret has
  the value it had before, until its injection has succeeded, and then the whole new one; and
  every other secret is as it was.\<close>

theorem concurrent_injections_isolated:
  assumes "names_apart (map fst nvs)" and "dir_ok s" and "sd_reach (injecting nvs s) s'"
  shows "(\<forall>k<length nvs. content s' (fst (nvs ! k)) =
      (if sd_writers s' ! k = WDone (fst (nvs ! k)) (snd (nvs ! k)) True then Some (snd (nvs ! k))
       else content s (fst (nvs ! k)))) \<and>
    (\<forall>x. x \<notin> fst ` set nvs \<and> x \<notin> tmp_of ` fst ` set nvs \<longrightarrow> content s' x = content s x)"
proof -
  have "apart_ok (content s) nvs s'"
    using assms(3)
  proof (induction rule: rtranclp_induct)
    case base
    have "content (injecting nvs s) = content s" by (simp add: injecting_def content_def fun_eq_iff)
    then show ?case using assms(2) by (simp add: apart_ok_def injecting_def dir_ok_def split_beta)
  next
    case (step t u)
    then show ?case using apart_ok_step[OF assms(1)] by blast
  qed
  note inv = this[unfolded apart_ok_def]
  have "content s' (fst (nvs ! k)) = (if sd_writers s' ! k = WDone (fst (nvs ! k)) (snd (nvs ! k)) True
      then Some (snd (nvs ! k)) else content s (fst (nvs ! k)))" if "k < length nvs" for k
  proof -
    have "(wr_name (sd_writers s' ! k), wr_value (sd_writers s' ! k)) = nvs ! k"
      "writer_ok (content s (fst (nvs ! k))) s' (sd_writers s' ! k)"
      using inv that by blast+
    then show ?thesis by (cases "sd_writers s' ! k"; cases "nvs ! k") auto
  qed
  with inv show ?thesis by blast
qed

theorem concurrent_injections_isolated_witness:
  "content (move 1 (WWrite ''b'' ''2'' 1) (injecting [(''a'', ''1''), (''b'', ''2'')]
     \<lparr>sd_entries = [''a'' \<mapsto> 0, ''b.tmp'' \<mapsto> 1], sd_files = [''old'', []], sd_writers = []\<rparr>)) ''a'' = Some ''old''"
proof -
  let ?d = "\<lparr>sd_entries = [''a'' \<mapsto> 0, ''b.tmp'' \<mapsto> 1], sd_files = [''old'', []], sd_writers = []\<rparr> :: secret_dir"
  let ?nvs = "[(''a'', ''1''), (''b'', ''2'')]"
  have apart: "names_apart (map fst ?nvs)" by (simp add: names_apart_def tmp_of_def)
  have ok: "dir_ok ?d" by (simp add: dir_ok_def less_Suc_eq split: if_splits)
  let ?s = "injecting ?nvs ?d"
  have "sd_step ?s (move 1 (WWrite ''b'' ''2'' 1) (?s\<lparr>sd_files := (sd_files ?s)[1 := []]\<rparr>))"
    by (rule open_old) (simp_all add: at_writer_def injecting_def tmp_of_def)
  then have "sd_reach ?s (move 1 (WWrite ''b'' ''2'' 1) ?s)" by (simp add: injecting_def)
  from concurrent_injections_isolated[OF apart ok this] show ?thesis
    by (simp add: injecting_def content_def All_less_Suc numeral_2_eq_2)
qed

subsection \<open>Injections under one name\<close>

text \<open>C38: Two injections of the same secret at the same time share their temporary file, and can destroy
  the secret: there is a schedule in which the first succeeds, the second reports a failure, and
  the secret is neither value but the second one written over the start of the first.\<close>

theorem concurrent_injections_tear:
  assumes "sd_entries s (tmp_of n) = None"
  shows "\<exists>s'. sd_reach (injecting [(n, v1), (n, v2)] s) s' \<and>
    sd_writers s' = [WDone n v1 True, WDone n v2 False] \<and> content s' n = Some (v2 @ drop (length v2) v1)"
proof -
  let ?s0 = "injecting [(n, v1), (n, v2)] s" and ?i = "length (sd_files s)"
  let ?s1 = "move 0 (WWrite n v1 ?i) (?s0\<lparr>sd_files := sd_files ?s0 @ [[]],
      sd_entries := (sd_entries ?s0)(tmp_of n \<mapsto> length (sd_files ?s0))\<rparr>)"
  let ?s2 = "move 1 (WWrite n v2 ?i) (?s1\<lparr>sd_files := (sd_files ?s1)[?i := []]\<rparr>)"
  let ?s3 = "move 0 (WRename n v1) (?s2\<lparr>sd_files := (sd_files ?s2)[?i := overwrite v1 (sd_files ?s2 ! ?i)]\<rparr>)"
  let ?s4 = "move 0 (WDone n v1 True) (?s3\<lparr>sd_entries := (sd_entries ?s3)(tmp_of n := None, n \<mapsto> ?i)\<rparr>)"
  let ?s5 = "move 1 (WRename n v2) (?s4\<lparr>sd_files := (sd_files ?s4)[?i := overwrite v2 (sd_files ?s4 ! ?i)]\<rparr>)"
  let ?s6 = "move 1 (WRemove n v2) ?s5"
  let ?s7 = "move 1 (WDone n v2 False) ?s6"
  have i: "sd_files ?s0 = sd_files s" "sd_entries ?s0 = sd_entries s" by (simp_all add: injecting_def)
  have "sd_step ?s0 ?s1" unfolding i(1)[symmetric]
    by (rule open_new) (use assms in \<open>simp_all add: at_writer_def injecting_def\<close>)
  moreover have "sd_step ?s1 ?s2" by (rule open_old) (simp_all add: at_writer_def injecting_def)
  moreover have "sd_step ?s2 ?s3" by (rule write_all) (simp add: at_writer_def injecting_def)
  moreover have "sd_step ?s3 ?s4" by (rule rename_done) (simp_all add: at_writer_def injecting_def)
  moreover have "sd_step ?s4 ?s5" by (rule write_all) (simp add: at_writer_def injecting_def)
  moreover have "sd_step ?s5 ?s6" by (rule rename_fails) (simp add: at_writer_def injecting_def)
  moreover have "sd_step ?s6 ?s7" by (rule remove_fails) (simp add: at_writer_def injecting_def)
  ultimately have "sd_reach ?s0 ?s7" by (meson converse_rtranclp_into_rtranclp rtranclp.rtrancl_refl)
  moreover have "sd_writers ?s7 = [WDone n v1 True, WDone n v2 False]" by (simp add: injecting_def)
  moreover have "content ?s7 n = Some (v2 @ drop (length v2) v1)"
    by (simp add: content_def overwrite_def injecting_def)
  ultimately show ?thesis by blast
qed

theorem concurrent_injections_tear_witness:
  "\<exists>s'. sd_reach (injecting [(''key'', ''hunter2!''), (''key'', ''swordf'')]
       \<lparr>sd_entries = \<lambda>x. None, sd_files = [], sd_writers = []\<rparr>) s' \<and> content s' ''key'' = Some ''swordf2!''"
  using concurrent_injections_tear[of "\<lparr>sd_entries = \<lambda>x. None, sd_files = [], sd_writers = []\<rparr>" "''key''"
      "''hunter2!''" "''swordf''"] by auto

subsection \<open>The injection of the sequential model is one of these schedules\<close>

text \<open>What each call of Inject does to the values that a reader of the directory sees.\<close>

lemma secrets_of_off:
  assumes "touches (secret_path sm ` X) w w'" and "x \<notin> X"
  shows "secrets_of sm (w_fs w') x = secrets_of sm (w_fs w) x"
proof -
  have "secret_path sm x \<notin> secret_path sm ` X" using assms(2) by auto
  then show ?thesis using touches_now[OF assms(1)] by (simp add: secrets_of_def)
qed

lemma secrets_of_write:
  assumes "resolve p = secret_path sm t" and "os_write_file p v m w = (r, w')"
  shows "case r of
      None \<Rightarrow> secrets_of sm (w_fs w') = (secrets_of sm (w_fs w))(t \<mapsto> v)
    | Some e \<Rightarrow> secrets_of sm (w_fs w') = secrets_of sm (w_fs w) \<or>
        (\<exists>j. secrets_of sm (w_fs w') = (secrets_of sm (w_fs w))(t \<mapsto> take j v))"
proof -
  have "touches (secret_path sm ` {t}) w w'" using touches_write_file[of p w v m] assms by simp
  then have off: "x \<noteq> t \<Longrightarrow> secrets_of sm (w_fs w') x = secrets_of sm (w_fs w) x" for x
    using secrets_of_off by blast
  show ?thesis
  proof (cases r)
    case None
    then have "secrets_of sm (w_fs w') t = Some v"
      using write_file_Some[of p v m w w'] assms by (simp add: secrets_of_def)
    then show ?thesis using off None by (auto simp: fun_eq_iff)
  next
    case (Some e)
    then have "w_fs w' = w_fs w \<or> (\<exists>j. secrets_of sm (w_fs w') t = Some (take j v))"
      using write_file_error[of p v m w e w'] assms by (auto simp: secrets_of_def)
    then show ?thesis using off Some by (fastforce simp: fun_eq_iff)
  qed
qed

lemma secrets_of_rename:
  assumes "resolve p = secret_path sm t" and "resolve q = secret_path sm n" and "t \<noteq> n"
    and "os_rename p q w = (None, w')"
  shows "secrets_of sm (w_fs w') = (secrets_of sm (w_fs w))(t := None, n := secrets_of sm (w_fs w) t)"
proof -
  have "touches (secret_path sm ` {t, n}) w w'" using touches_rename[of p q w] assms by simp
  then have off: "x \<noteq> t \<Longrightarrow> x \<noteq> n \<Longrightarrow> secrets_of sm (w_fs w') x = secrets_of sm (w_fs w) x" for x
    using secrets_of_off by blast
  have "lookup (w_fs w') (secret_path sm n) = lookup (w_fs w) (secret_path sm t)"
    "lookup (w_fs w') (secret_path sm t) = None"
    using rename_Some(1,2)[OF assms(4)] assms(1-3) by simp_all
  then have "secrets_of sm (w_fs w') n = secrets_of sm (w_fs w) t" "secrets_of sm (w_fs w') t = None"
    by (simp_all add: secrets_of_def)
  with off show ?thesis by (auto simp: fun_eq_iff)
qed

lemma secrets_of_remove:
  assumes "resolve p = secret_path sm t"
  shows "secrets_of sm (w_fs (snd (os_remove p w))) \<in>
    {secrets_of sm (w_fs w), (secrets_of sm (w_fs w))(t := None)}"
proof (cases "os_remove p w")
  case (Pair r w')
  have "touches (secret_path sm ` {t}) w w'" using touches_remove[of p w] assms Pair by simp
  then have off: "x \<noteq> t \<Longrightarrow> secrets_of sm (w_fs w') x = secrets_of sm (w_fs w) x" for x
    using secrets_of_off by blast
  show ?thesis
  proof (cases r)
    case None
    then have "secrets_of sm (w_fs w') t = None"
      using remove_Some[of p w w'] Pair assms by (simp add: secrets_of_def)
    then show ?thesis using off Pair by (auto simp: fun_eq_iff)
  next
    case (Some e)
    then show ?thesis using remove_fail[of p w e w'] Pair by simp
  qed
qed

text \<open>The steps of one injection that is alone, by what they do to the contents.\<close>

definition alone :: "writer_pc \<Rightarrow> (string \<Rightarrow> string option) \<Rightarrow> secret_dir \<Rightarrow> bool" where
  "alone pc c s \<longleftrightarrow> sd_writers s = [pc] \<and> content s = c \<and> dir_ok s"

lemma alone_fails:
  assumes "alone (WOpen n v) c s"
  shows "\<exists>s'. sd_step s s' \<and> alone (WDone n v False) c s'"
  using open_fails[of s 0 n v] assms
  by (intro exI[of _ "move 0 (WDone n v False) s"]) (auto simp: alone_def at_writer_def dir_ok_def)

lemma alone_open:
  assumes "alone (WOpen n v) c s"
  shows "\<exists>s' i. sd_step s s' \<and> alone (WWrite n v i) (c(tmp_of n \<mapsto> [])) s' \<and> sd_entries s' (tmp_of n) = Some i"
proof (cases "sd_entries s (tmp_of n)")
  case None
  let ?s = "move 0 (WWrite n v (length (sd_files s)))
    (s\<lparr>sd_files := sd_files s @ [[]], sd_entries := (sd_entries s)(tmp_of n \<mapsto> length (sd_files s))\<rparr>)"
  have "sd_step s ?s" by (rule open_new) (use assms None in \<open>auto simp: alone_def at_writer_def\<close>)
  moreover have "content ?s = c(tmp_of n \<mapsto> [])"
    using content_new[of s "tmp_of n"] assms by (auto simp: alone_def fun_eq_iff)
  moreover have "dir_ok ?s" using assms by (auto simp: alone_def dir_ok_def less_Suc_eq split: if_splits)
  ultimately show ?thesis using assms by (intro exI[of _ ?s]) (auto simp: alone_def)
next
  case (Some i)
  let ?s = "move 0 (WWrite n v i) (s\<lparr>sd_files := (sd_files s)[i := []]\<rparr>)"
  have "sd_step s ?s" by (rule open_old) (use assms Some in \<open>auto simp: alone_def at_writer_def\<close>)
  moreover have "content ?s = c(tmp_of n \<mapsto> [])"
    using content_file[of s "tmp_of n" i "[]"] assms Some by (auto simp: alone_def fun_eq_iff)
  moreover have "dir_ok ?s" using assms by (auto simp: alone_def dir_ok_def)
  ultimately show ?thesis using assms Some by (intro exI[of _ ?s] exI[of _ i]) (auto simp: alone_def)
qed

lemma alone_write:
  assumes "alone (WWrite n v i) (c(tmp_of n \<mapsto> [])) s" and "sd_entries s (tmp_of n) = Some i"
  shows "\<exists>s'. sd_step s s' \<and> alone (WRename n v) (c(tmp_of n \<mapsto> v)) s'"
    and "\<exists>s'. sd_step s s' \<and> alone (WDone n v False) (c(tmp_of n \<mapsto> take j v)) s'"
proof -
  have e: "sd_files s ! i = []"
    using assms by (auto simp: alone_def content_def fun_eq_iff split: if_splits dest: spec[of _ "tmp_of n"])
  have at: "at_writer s 0 (WWrite n v i)" using assms by (simp add: alone_def at_writer_def)
  have d: "dir_ok s" and c: "content s = c(tmp_of n \<mapsto> [])" using assms by (simp_all add: alone_def)
  have new: "content (s\<lparr>sd_files := (sd_files s)[i := t]\<rparr>) = c(tmp_of n \<mapsto> t)" for t
    using content_file[OF d assms(2), of t] c by (auto simp: fun_eq_iff)
  have ok: "dir_ok (move 0 pc (s\<lparr>sd_files := (sd_files s)[i := t]\<rparr>))" for t pc
    using d by (simp add: dir_ok_def)
  show "\<exists>s'. sd_step s s' \<and> alone (WRename n v) (c(tmp_of n \<mapsto> v)) s'"
    using write_all[OF at] new[of v] ok assms(1)
    by (intro exI[of _ "move 0 (WRename n v) (s\<lparr>sd_files := (sd_files s)[i := overwrite v (sd_files s ! i)]\<rparr>)"])
      (simp add: alone_def overwrite_def e)
  show "\<exists>s'. sd_step s s' \<and> alone (WDone n v False) (c(tmp_of n \<mapsto> take j v)) s'"
    using write_fails[OF at, of j] new[of "take j v"] ok assms(1)
    by (intro exI[of _ "move 0 (WDone n v False) (s\<lparr>sd_files := (sd_files s)[i := overwrite (take j v) (sd_files s ! i)]\<rparr>)"])
      (simp add: alone_def overwrite_def e)
qed

lemma alone_rename:
  assumes "alone (WRename n v) c s" and "c (tmp_of n) = Some v"
  shows "\<exists>s'. sd_step s s' \<and> alone (WDone n v True) (c(tmp_of n := None, n \<mapsto> v)) s'"
proof -
  obtain i where i: "sd_entries s (tmp_of n) = Some i" "sd_files s ! i = v"
    using assms by (auto simp: alone_def content_def)
  let ?s = "move 0 (WDone n v True) (s\<lparr>sd_entries := (sd_entries s)(tmp_of n := None, n \<mapsto> i)\<rparr>)"
  have "sd_step s ?s" by (rule rename_done) (use assms(1) i in \<open>auto simp: alone_def at_writer_def\<close>)
  moreover have "content ?s = c(tmp_of n := None, n \<mapsto> v)"
    using assms(1) i by (auto simp: alone_def fun_eq_iff content_entries content_def)
  moreover have "dir_ok ?s" using assms(1) i by (auto simp: alone_def dir_ok_def split: if_splits)
  ultimately show ?thesis using assms(1) by (intro exI[of _ ?s]) (simp add: alone_def)
qed

lemma alone_rename_fails:
  assumes "alone (WRename n v) c s" and "c' \<in> {c, c(tmp_of n := None)}"
  shows "\<exists>s'. sd_reach s s' \<and> alone (WDone n v False) c' s'"
proof -
  let ?s1 = "move 0 (WRemove n v) s"
  have st: "sd_step s ?s1" by (rule rename_fails) (use assms(1) in \<open>simp add: alone_def at_writer_def\<close>)
  let ?s2 = "move 0 (WDone n v False) ?s1"
  let ?s3 = "move 0 (WDone n v False) (?s1\<lparr>sd_entries := (sd_entries ?s1)(tmp_of n := None)\<rparr>)"
  have "sd_step ?s1 ?s2" by (rule remove_fails) (use assms(1) in \<open>simp add: alone_def at_writer_def\<close>)
  moreover have "sd_step ?s1 ?s3" by (rule remove_done) (use assms(1) in \<open>simp add: alone_def at_writer_def\<close>)
  ultimately have r: "sd_reach s ?s2" "sd_reach s ?s3"
    using st by (meson converse_rtranclp_into_rtranclp rtranclp.rtrancl_refl)+
  have "alone (WDone n v False) c ?s2" using assms(1) by (auto simp: alone_def dir_ok_def)
  moreover have "alone (WDone n v False) (c(tmp_of n := None)) ?s3"
    using assms(1) by (auto simp: alone_def dir_ok_def fun_eq_iff content_entries content_def split: if_splits)
  ultimately show ?thesis using r assms(2) by blast
qed

text \<open>C12: The sequential Inject is one of the schedules: for every world and every pattern of failing
  calls, if the directory of this model shows the secrets of the world's file system, then the
  injection, run alone, can take the same course: it ends with the same success, and the
  directory shows the secrets of the file system that Inject leaves.\<close>

theorem inject_is_a_schedule:
  assumes "is_abs (sm_secret_dir sm)" and "simple_name (sp_name p)" and "inject sm p w = (r, p', w')"
    and "dir_ok s" and "content s = secrets_of sm (w_fs w)"
  shows "\<exists>s'. sd_reach (injecting [(sp_name p, sp_value p)] s) s' \<and>
    sd_writers s' = [WDone (sp_name p) (sp_value p) (r = None)] \<and>
    content s' = secrets_of sm (w_fs w') \<and> dir_ok s'"
proof -
  let ?n = "sp_name p" and ?v = "sp_value p" and ?t = "tmp_of (sp_name p)"
  let ?tgt = "join2 (sm_secret_dir sm) (sp_name p)" and ?c = "secrets_of sm (w_fs w)"
  have path: "resolve ?tgt = secret_path sm ?n" "resolve (?tgt @ ''.tmp'') = secret_path sm ?t"
    using secret_target[OF assms(1) simple_comp_ok[OF assms(2)]] by (simp_all add: tmp_of_def)
  have start: "alone (WOpen ?n ?v) ?c (injecting [(?n, ?v)] s)"
    using assms(4,5) by (simp add: alone_def injecting_def dir_ok_def content_def fun_eq_iff)
  obtain s1 i where s1: "sd_step (injecting [(?n, ?v)] s) s1" "alone (WWrite ?n ?v i) (?c(?t \<mapsto> [])) s1"
      "sd_entries s1 ?t = Some i"
    using alone_open[OF start] by blast
  have via: "sd_reach (injecting [(?n, ?v)] s) u" if "sd_reach s1 u" for u
    using s1(1) that by (rule converse_rtranclp_into_rtranclp)
  obtain s2 where s2: "sd_step s1 s2" "alone (WRename ?n ?v) (?c(?t \<mapsto> ?v)) s2" using alone_write(1)[OF s1(2,3)] by blast
  have via2: "sd_reach (injecting [(?n, ?v)] s) u" if "sd_reach s2 u" for u
    by (rule via[OF converse_rtranclp_into_rtranclp[OF s2(1) that]])
  have "\<exists>s'. sd_reach (injecting [(?n, ?v)] s) s' \<and> alone (WDone ?n ?v (r = None)) (secrets_of sm (w_fs w')) s'"
  proof (rule inject_steps[OF simple_inject_ok[OF assms(2)] assms(3)], goal_cases)
    case (1 e w1)
    from secrets_of_write[OF path(2) 1(1)] 1(2)
    consider "secrets_of sm (w_fs w') = ?c" | j where "secrets_of sm (w_fs w') = ?c(?t \<mapsto> take j ?v)" by auto
    then show ?case
    proof cases
      case 1
      then show ?thesis using alone_fails[OF start] \<open>r \<noteq> None\<close> by auto
    next
      case (2 j)
      obtain u where u: "sd_step s1 u" "alone (WDone ?n ?v False) (?c(?t \<mapsto> take j ?v)) u"
        using alone_write(2)[OF s1(2,3)] by blast
      then show ?thesis using 2 via[OF r_into_rtranclp[of sd_step, OF u(1)]] \<open>r \<noteq> None\<close> by auto
    qed
  next
    case (2 e w1 w2)
    have "secrets_of sm (w_fs w2) = ?c(?t \<mapsto> ?v)"
      using secrets_of_write[OF path(2) 2(1)] rename_fail[OF 2(2)] by simp
    then have "secrets_of sm (w_fs w') \<in> {?c(?t \<mapsto> ?v), (?c(?t \<mapsto> ?v))(?t := None)}"
      using secrets_of_remove[OF path(2), of w2] 2(3) by simp
    from alone_rename_fails[OF s2(2) this] obtain u
      where u: "sd_reach s2 u" "alone (WDone ?n ?v False) (secrets_of sm (w_fs w')) u" by blast
    from via2[OF u(1)] u(2) show ?case using 2(4) by auto
  next
    case (3 w1)
    have "secrets_of sm (w_fs w1) = ?c(?t \<mapsto> ?v)" using secrets_of_write[OF path(2) 3(1)] by simp
    then have "secrets_of sm (w_fs w') = (?c(?t \<mapsto> ?v))(?t := None, ?n \<mapsto> ?v)"
      using secrets_of_rename[OF path(2,1) _ 3(2)] by simp
    moreover obtain s3 where s3: "sd_step s2 s3" "alone (WDone ?n ?v True) ((?c(?t \<mapsto> ?v))(?t := None, ?n \<mapsto> ?v)) s3"
      using alone_rename[OF s2(2)] by auto
    ultimately show ?case using via2[OF r_into_rtranclp[of sd_step, OF s3(1)]] 3(3) by auto
  qed
  then show ?thesis by (auto simp: alone_def)
qed

theorem inject_is_a_schedule_witness:
  "\<exists>s'. sd_reach (injecting [(''key'', ''hunter2'')] \<lparr>sd_entries = \<lambda>x. None, sd_files = [], sd_writers = []\<rparr>) s' \<and>
     sd_writers s' = [WDone ''key'' ''hunter2'' True]"
proof -
  let ?s = "\<lparr>sd_entries = \<lambda>x. None, sd_files = [], sd_writers = []\<rparr> :: secret_dir"
  obtain r p' w' where i: "inject demo_manager (demo_secret ''key'') demo_world = (r, p', w')"
    using prod_cases3 by blast
  have n: "simple_name ''key''" using demo_names by simp
  have "r = None"
    using inject_succeeds[OF demo_quiet(1) demo_store_ok, of "demo_secret ''key''"] i demo_names by simp
  moreover have "dir_ok ?s" by (simp add: dir_ok_def)
  moreover have "content ?s = secrets_of demo_manager (w_fs demo_world)"
    by (simp add: content_def secrets_of_def demo_resolve demo_none fun_eq_iff)
  ultimately show ?thesis
    using inject_is_a_schedule[OF demo_resolve(2) _ i, of ?s] n by auto
qed

end
