(* ===== verification/KeyRace.thy ===== *)
theory KeyRace
  imports SSHKeys
begin

text \<open>
  Injections of SSH keys for one user at the same time (pkg/sshkeys.go). The manager has no mutex,
  so the system calls on the user's .ssh directory interleave. As in the theory SecretRace, the
  entries of the directory are taken apart from the files they name; there are two of them,
  authorized_keys and its temporary file.
\<close>

subsection \<open>The system calls of an injection\<close>

text \<open>
  Where an injection is: before its directory is ready, before it opens the temporary file, before
  it writes to the file it has opened, before the change of the owner, before the rename, before
  it removes the temporary file, and at its end with whether it succeeded.
\<close>

datatype key_pc =
    KDir string
  | KOpen string
  | KWrite string nat
  | KChown string
  | KRename string
  | KRemove string
  | KDone string bool

record ssh_dir =
  kd_keys :: "nat option"
  kd_tmp :: "nat option"
  kd_files :: "string list"
  kd_writers :: "key_pc list"

definition at_key :: "ssh_dir \<Rightarrow> nat \<Rightarrow> key_pc \<Rightarrow> bool" where
  "at_key s k pc \<longleftrightarrow> k < length (kd_writers s) \<and> kd_writers s ! k = pc"

definition goes :: "nat \<Rightarrow> key_pc \<Rightarrow> ssh_dir \<Rightarrow> ssh_dir" where
  "goes k pc s = s\<lparr>kd_writers := (kd_writers s)[k := pc]\<rparr>"

text \<open>What a write at the start of a file leaves in it.\<close>

definition written :: "string \<Rightarrow> string \<Rightarrow> string" where
  "written v old = v @ drop (length v) old"

text \<open>Any call may fail, a write after some of the bytes; the three calls on the directory itself are
  one step, since they change neither entry.\<close>

inductive kd_step :: "ssh_dir \<Rightarrow> ssh_dir \<Rightarrow> bool" where
  dir_done: "at_key s k (KDir v) \<Longrightarrow> kd_step s (goes k (KOpen v) s)"
| dir_fails: "at_key s k (KDir v) \<Longrightarrow> kd_step s (goes k (KDone v False) s)"
| open_fails: "at_key s k (KOpen v) \<Longrightarrow> kd_step s (goes k (KDone v False) s)"
| open_old: "\<lbrakk>at_key s k (KOpen v); kd_tmp s = Some i\<rbrakk> \<Longrightarrow>
     kd_step s (goes k (KWrite v i) (s\<lparr>kd_files := (kd_files s)[i := []]\<rparr>))"
| open_new: "\<lbrakk>at_key s k (KOpen v); kd_tmp s = None\<rbrakk> \<Longrightarrow>
     kd_step s (goes k (KWrite v (length (kd_files s)))
       (s\<lparr>kd_files := kd_files s @ [[]], kd_tmp := Some (length (kd_files s))\<rparr>))"
| write_all: "at_key s k (KWrite v i) \<Longrightarrow>
     kd_step s (goes k (KChown v) (s\<lparr>kd_files := (kd_files s)[i := written v (kd_files s ! i)]\<rparr>))"
| write_fails: "at_key s k (KWrite v i) \<Longrightarrow>
     kd_step s (goes k (KDone v False) (s\<lparr>kd_files := (kd_files s)[i := written (take j v) (kd_files s ! i)]\<rparr>))"
| chown_done: "\<lbrakk>at_key s k (KChown v); kd_tmp s = Some i\<rbrakk> \<Longrightarrow> kd_step s (goes k (KRename v) s)"
| chown_fails: "at_key s k (KChown v) \<Longrightarrow> kd_step s (goes k (KRemove v) s)"
| rename_done: "\<lbrakk>at_key s k (KRename v); kd_tmp s = Some i\<rbrakk> \<Longrightarrow>
     kd_step s (goes k (KDone v True) (s\<lparr>kd_keys := Some i, kd_tmp := None\<rparr>))"
| rename_fails: "at_key s k (KRename v) \<Longrightarrow> kd_step s (goes k (KRemove v) s)"
| remove_done: "at_key s k (KRemove v) \<Longrightarrow> kd_step s (goes k (KDone v False) (s\<lparr>kd_tmp := None\<rparr>))"
| remove_fails: "at_key s k (KRemove v) \<Longrightarrow> kd_step s (goes k (KDone v False) s)"

inductive_cases kd_stepE: "kd_step s s'"

abbreviation kd_reach :: "ssh_dir \<Rightarrow> ssh_dir \<Rightarrow> bool" where
  "kd_reach \<equiv> kd_step\<^sup>*\<^sup>*"

text \<open>What sshd reads, and the start: a directory and the injections to come.\<close>

definition keys_text :: "ssh_dir \<Rightarrow> string option" where
  "keys_text s = map_option (\<lambda>i. kd_files s ! i) (kd_keys s)"

definition adding :: "string list \<Rightarrow> ssh_dir \<Rightarrow> ssh_dir" where
  "adding vs s = s\<lparr>kd_writers := map KDir vs\<rparr>"

definition ssh_dir_ok :: "ssh_dir \<Rightarrow> bool" where
  "ssh_dir_ok s \<longleftrightarrow> (\<forall>i. kd_keys s = Some i \<longrightarrow> i < length (kd_files s) \<and> kd_tmp s \<noteq> Some i) \<and>
     (\<forall>i. kd_tmp s = Some i \<longrightarrow> i < length (kd_files s))"

lemma goes_fields [simp]:
  "kd_keys (goes k pc s) = kd_keys s" "kd_tmp (goes k pc s) = kd_tmp s" "kd_files (goes k pc s) = kd_files s"
  "kd_writers (goes k pc s) = (kd_writers s)[k := pc]"
  by (simp_all add: goes_def)

subsection \<open>One injection, and two\<close>

text \<open>An injection by itself: what it is at tells what is in the two files; \<open>c\<close> is what the keys were.\<close>

fun key_ok :: "string option \<Rightarrow> string \<Rightarrow> ssh_dir \<Rightarrow> key_pc \<Rightarrow> bool" where
  "key_ok c v s (KWrite u i) \<longleftrightarrow> u = v \<and> keys_text s = c \<and> kd_tmp s = Some i \<and> kd_files s ! i = []"
| "key_ok c v s (KChown u) \<longleftrightarrow> u = v \<and> keys_text s = c \<and> (\<forall>i. kd_tmp s = Some i \<longrightarrow> kd_files s ! i = v)"
| "key_ok c v s (KRename u) \<longleftrightarrow> u = v \<and> keys_text s = c \<and> (\<forall>i. kd_tmp s = Some i \<longrightarrow> kd_files s ! i = v)"
| "key_ok c v s (KDone u b) \<longleftrightarrow> u = v \<and> keys_text s = (if b then Some v else c)"
| "key_ok c v s (KDir u) \<longleftrightarrow> u = v \<and> keys_text s = c"
| "key_ok c v s (KOpen u) \<longleftrightarrow> u = v \<and> keys_text s = c"
| "key_ok c v s (KRemove u) \<longleftrightarrow> u = v \<and> keys_text s = c"

definition lone_key :: "string option \<Rightarrow> string \<Rightarrow> ssh_dir \<Rightarrow> bool" where
  "lone_key c v s \<longleftrightarrow> ssh_dir_ok s \<and> (\<exists>pc. kd_writers s = [pc] \<and> key_ok c v s pc)"

lemma lone_key_step:
  assumes "kd_step s s'" and "lone_key c v s"
  shows "lone_key c v s'"
proof -
  obtain pc where s: "ssh_dir_ok s" "kd_writers s = [pc]" "key_ok c v s pc" using assms(2) by (auto simp: lone_key_def)
  have at: "at_key s k p \<longleftrightarrow> k = 0 \<and> p = pc" for k p using s(2) by (auto simp: at_key_def)
  from assms(1) show ?thesis
    by cases (cases "kd_keys s"; use s in \<open>auto simp: at lone_key_def ssh_dir_ok_def keys_text_def written_def nth_append
      nth_list_update split: if_splits\<close>)+
qed

lemma kd_path: "kd_step s t \<Longrightarrow> kd_reach t u \<Longrightarrow> kd_reach s u"
  by (rule converse_rtranclp_into_rtranclp)

lemma open_step:
  assumes "at_key s k (KOpen v)" and "ssh_dir_ok s"
  obtains t i where "kd_step s t" "kd_tmp t = Some i" "i < length (kd_files t)"
    "kd_writers t = (kd_writers s)[k := KWrite v i]"
proof (cases "kd_tmp s")
  case None
  show ?thesis by (rule that[OF open_new[OF assms(1) None], of "length (kd_files s)"]) simp_all
next
  case (Some i)
  show ?thesis
    by (rule that[OF open_old[OF assms(1) Some], of i]) (use Some assms(2) in \<open>simp_all add: ssh_dir_ok_def\<close>)
qed

lemma both_open:
  assumes "ssh_dir_ok s"
  obtains a i where "kd_reach (adding [v1, v2] s) a" "kd_tmp a = Some i" "i < length (kd_files a)"
    "kd_writers a = [KWrite v1 i, KOpen v2]"
proof -
  let ?s0 = "adding [v1, v2] s"
  let ?s1 = "goes 0 (KOpen v1) ?s0"
  let ?s2 = "goes 1 (KOpen v2) ?s1"
  have "kd_step ?s0 ?s1" by (rule dir_done) (simp add: at_key_def adding_def)
  moreover have "kd_step ?s1 ?s2" by (rule dir_done) (simp add: at_key_def adding_def)
  ultimately have r2: "kd_reach ?s0 ?s2" by (meson kd_path rtranclp.rtrancl_refl)
  have at: "at_key ?s2 0 (KOpen v1)" by (simp add: at_key_def adding_def)
  have ok: "ssh_dir_ok ?s2" using assms by (simp add: ssh_dir_ok_def adding_def)
  have w: "kd_writers ?s2 = [KOpen v1, KOpen v2]" by (simp add: adding_def)
  obtain a i where st: "kd_step ?s2 a" "kd_tmp a = Some i" "i < length (kd_files a)"
    and "kd_writers a = (kd_writers ?s2)[0 := KWrite v1 i]" by (rule open_step[OF at ok])
  then have "kd_writers a = [KWrite v1 i, KOpen v2]" by (simp only: w list_update_code)
  with r2 st that show ?thesis by (meson rtranclp.rtrancl_into_rtrancl)
qed

text \<open>The second opens the file of the first, which is then renamed.\<close>

lemma race_on:
  assumes "kd_tmp a = Some i" and "i < length (kd_files a)" and "kd_writers a = [KWrite v1 i, KOpen v2]"
  shows "\<exists>t. kd_reach a t \<and> kd_writers t = [KDone v1 True, KDone v2 False] \<and> keys_text t = Some (take j v2)"
proof -
  let ?b = "goes 0 (KChown v1) (a\<lparr>kd_files := (kd_files a)[i := written v1 (kd_files a ! i)]\<rparr>)"
  let ?c = "goes 1 (KWrite v2 i) (?b\<lparr>kd_files := (kd_files ?b)[i := []]\<rparr>)"
  let ?d = "goes 0 (KRename v1) ?c"
  let ?e = "goes 0 (KDone v1 True) (?d\<lparr>kd_keys := Some i, kd_tmp := None\<rparr>)"
  let ?f = "goes 1 (KDone v2 False) (?e\<lparr>kd_files := (kd_files ?e)[i := written (take j v2) (kd_files ?e ! i)]\<rparr>)"
  have f: "kd_writers ?b = [KChown v1, KOpen v2]" "kd_tmp ?b = Some i" "kd_writers ?c = [KChown v1, KWrite v2 i]"
    "kd_tmp ?c = Some i" "kd_writers ?d = [KRename v1, KWrite v2 i]" "kd_tmp ?d = Some i"
    "kd_writers ?e = [KDone v1 True, KWrite v2 i]" "kd_files ?e = (kd_files a)[i := []]" "kd_keys ?e = Some i"
    using assms by (simp_all add: goes_def)
  have "kd_step a ?b" by (rule write_all) (simp add: at_key_def assms(3))
  moreover have "kd_step ?b ?c" by (rule open_old) (simp_all only: at_key_def f, simp_all)
  moreover have "kd_step ?c ?d" by (rule chown_done[where i = i]) (simp_all only: at_key_def f, simp_all)
  moreover have "kd_step ?d ?e" by (rule rename_done) (simp_all only: at_key_def f, simp_all)
  moreover have "kd_step ?e ?f" by (rule write_fails) (simp_all only: at_key_def f, simp_all)
  ultimately have "kd_reach a ?f" by (meson kd_path rtranclp.rtrancl_refl)
  moreover have "kd_writers ?f = [KDone v1 True, KDone v2 False]" using f(7) by (simp add: goes_def)
  moreover have "keys_text ?f = Some (take j v2)"
    using assms(2) f(8,9) by (simp add: keys_text_def goes_def written_def)
  ultimately show ?thesis by blast
qed

text \<open>C39: A key injection by itself is atomic: at every moment the keys are what they were before, and the
  whole new text once it has succeeded. Two of them at the same time are not: there is a schedule
  in which the first is acknowledged and the second refused, and afterwards authorized_keys has
  just the first \<open>j\<close> bytes of the second, none of them for 0, so that the user is locked out.\<close>

theorem key_injections_race:
  assumes "ssh_dir_ok s"
  shows "(kd_reach (adding [v] s) t \<longrightarrow>
      (\<exists>pc. kd_writers t = [pc] \<and> keys_text t = (if pc = KDone v True then Some v else keys_text s))) \<and>
    (\<exists>t. kd_reach (adding [v1, v2] s) t \<and> kd_writers t = [KDone v1 True, KDone v2 False] \<and>
      keys_text t = Some (take j v2))"
proof
  have "lone_key (keys_text s) v t" if "kd_reach (adding [v] s) t"
    using that
  proof (induction rule: rtranclp_induct)
    case base
    show ?case using assms by (simp add: lone_key_def adding_def ssh_dir_ok_def keys_text_def)
  next
    case (step t u)
    then show ?case using lone_key_step by blast
  qed
  moreover have "key_ok c v t pc \<Longrightarrow> keys_text t = (if pc = KDone v True then Some v else c)" for c pc
    by (cases pc) (auto split: if_splits)
  ultimately show "kd_reach (adding [v] s) t \<longrightarrow>
      (\<exists>pc. kd_writers t = [pc] \<and> keys_text t = (if pc = KDone v True then Some v else keys_text s))"
    by (fastforce simp: lone_key_def)
next
  obtain a i where a: "kd_reach (adding [v1, v2] s) a" "kd_tmp a = Some i" "i < length (kd_files a)"
      "kd_writers a = [KWrite v1 i, KOpen v2]"
    by (rule both_open[OF assms])
  from race_on[OF a(2-4), of j] a(1) show "\<exists>t. kd_reach (adding [v1, v2] s) t \<and>
      kd_writers t = [KDone v1 True, KDone v2 False] \<and> keys_text t = Some (take j v2)"
    by (meson rtranclp_trans)
qed

theorem key_injections_race_witness:
  "\<exists>t. kd_reach (adding [''ssh-rsa A'', ''ssh-rsa B''] \<lparr>kd_keys = None, kd_tmp = None, kd_files = [], kd_writers = []\<rparr>) t \<and>
     kd_writers t = [KDone ''ssh-rsa A'' True, KDone ''ssh-rsa B'' False] \<and> keys_text t = Some []"
proof -
  have "ssh_dir_ok \<lparr>kd_keys = None, kd_tmp = None, kd_files = [], kd_writers = []\<rparr>" by (simp add: ssh_dir_ok_def)
  from key_injections_race[OF this, of _ _ "''ssh-rsa A''" "''ssh-rsa B''" 0] show ?thesis by simp
qed

subsection \<open>The installation of the sequential model is one of these schedules\<close>

text \<open>The two files as the model of the calls has them.\<close>

definition file_text :: "fsys \<Rightarrow> path \<Rightarrow> string option" where
  "file_text f p = (case lookup f p of Some (File a t) \<Rightarrow> Some t | _ \<Rightarrow> None)"

definition tmp_text :: "ssh_dir \<Rightarrow> string option" where
  "tmp_text s = map_option (\<lambda>i. kd_files s ! i) (kd_tmp s)"

text \<open>One injection, with where it is and the texts of authorized_keys and of the temporary file.\<close>

definition at_texts :: "key_pc \<Rightarrow> string option \<Rightarrow> string option \<Rightarrow> ssh_dir \<Rightarrow> bool" where
  "at_texts pc c t s \<longleftrightarrow> ssh_dir_ok s \<and> kd_writers s = [pc] \<and> keys_text s = c \<and> tmp_text s = t"

lemmas texts_simps = at_texts_def ssh_dir_ok_def keys_text_def tmp_text_def at_key_def written_def nth_append

lemma texts_goes: "at_texts pc c t s \<Longrightarrow> at_texts pc' c t (goes 0 pc' s)"
  by (simp add: at_texts_def ssh_dir_ok_def keys_text_def tmp_text_def)

lemma texts_write:
  assumes "at_texts pc c t s" and "kd_tmp s = Some i"
  shows "at_texts pc' c (Some x) (goes 0 pc' (s\<lparr>kd_files := (kd_files s)[i := x]\<rparr>))"
  using assms by (cases "kd_keys s") (auto simp: texts_simps)

lemma texts_open:
  assumes "at_texts (KOpen v) c t s"
  obtains u i where "kd_step s u" "at_texts (KWrite v i) c (Some []) u" "kd_tmp u = Some i" "kd_files u ! i = []"
proof (cases "kd_tmp s")
  case None
  let ?n = "length (kd_files s)"
  let ?u = "goes 0 (KWrite v ?n) (s\<lparr>kd_files := kd_files s @ [[]], kd_tmp := Some ?n\<rparr>)"
  have "kd_step s ?u" by (rule open_new) (use assms None in \<open>simp_all add: texts_simps\<close>)
  moreover have "at_texts (KWrite v ?n) c (Some []) ?u" using assms by (cases "kd_keys s") (auto simp: texts_simps)
  ultimately show ?thesis by (rule that) simp_all
next
  case (Some i)
  have "kd_step s (goes 0 (KWrite v i) (s\<lparr>kd_files := (kd_files s)[i := []]\<rparr>))"
    by (rule open_old) (use assms Some in \<open>simp_all add: texts_simps\<close>)
  then show ?thesis
    by (rule that[OF _ texts_write[OF assms Some]]) (use assms Some in \<open>auto simp: texts_simps\<close>)
qed

lemma texts_rename:
  assumes "at_texts (KRename v) c (Some x) s"
  obtains u where "kd_step s u" "at_texts (KDone v True) (Some x) None u"
proof -
  obtain i where i: "kd_tmp s = Some i" "kd_files s ! i = x" using assms by (auto simp: texts_simps)
  let ?u = "goes 0 (KDone v True) (s\<lparr>kd_keys := Some i, kd_tmp := None\<rparr>)"
  have "kd_step s ?u" by (rule rename_done) (use assms i in \<open>simp_all add: texts_simps\<close>)
  moreover have "at_texts (KDone v True) (Some x) None ?u" using assms i by (auto simp: texts_simps)
  ultimately show ?thesis by (rule that)
qed

lemma texts_remove:
  assumes "at_texts (KRemove v) c t s" and "t' = t \<or> t' = None"
  obtains u where "kd_step s u" "at_texts (KDone v False) c t' u"
proof (cases "t' = t")
  case True
  have "kd_step s (goes 0 (KDone v False) s)" by (rule remove_fails) (use assms in \<open>simp add: texts_simps\<close>)
  then show ?thesis using that texts_goes[OF assms(1)] True by blast
next
  case False
  have "kd_step s (goes 0 (KDone v False) (s\<lparr>kd_tmp := None\<rparr>))"
    by (rule remove_done) (use assms in \<open>simp add: texts_simps\<close>)
  then show ?thesis by (rule that) (use assms False in \<open>auto simp: texts_simps\<close>)
qed

text \<open>What each call does to the two texts.\<close>

lemma text_off: "touches P w w' \<Longrightarrow> q \<notin> P \<Longrightarrow> file_text (w_fs w') q = file_text (w_fs w) q"
  by (simp add: file_text_def touches_now)

lemma text_write_error:
  assumes "os_write_file p v m w = (Some e, w')"
  shows "file_text (w_fs w') (resolve p) = file_text (w_fs w) (resolve p) \<or>
    (\<exists>j. file_text (w_fs w') (resolve p) = Some (take j v))"
  using write_file_error[OF assms] by (auto simp: file_text_def)

lemma text_chown: "file_text (w_fs (snd (os_chown p i j w))) q = file_text (w_fs w) q"
proof (cases "q = resolve p")
  case True
  have set: "file_text (put r (set_meta m n) f) r = file_text f r" if "lookup f r = Some n" for r m n f
    using that by (cases n) (simp_all add: file_text_def)
  show ?thesis unfolding True os_chown_def change_meta_def call_unfold
    by (simp add: set split: option.split fault.split)
next
  case False
  then show ?thesis using touches_chown[of p w i j] by (intro text_off[of "{resolve p}"]) auto
qed

lemma text_remove: "file_text (w_fs (snd (os_remove p w))) (resolve p) \<in> {file_text (w_fs w) (resolve p), None}"
proof (cases "os_remove p w")
  case (Pair r u)
  show ?thesis
  proof (cases r)
    case None
    then have "lookup (w_fs u) (resolve p) = None" using remove_Some Pair by blast
    then have "file_text (w_fs u) (resolve p) = None" by (simp add: file_text_def)
    then show ?thesis unfolding Pair by simp
  next
    case (Some e)
    then have "w_fs u = w_fs w" using remove_fail Pair by blast
    then show ?thesis unfolding Pair by simp
  qed
qed

text \<open>
  The injection \<open>s\<close> starts with can be at a point in a state with the texts of the world. Each
  call of the program moves it on.
\<close>

definition keys_path :: "string \<Rightarrow> path" where
  "keys_path home = resolve home @ [''.ssh'', ''authorized_keys'']"

definition tmp_path :: "string \<Rightarrow> path" where
  "tmp_path home = resolve home @ [''.ssh'', ''authorized_keys.tmp'']"

definition can_be :: "string \<Rightarrow> ssh_dir \<Rightarrow> key_pc \<Rightarrow> world \<Rightarrow> bool" where
  "can_be home s pc w \<longleftrightarrow> (\<exists>u. kd_reach s u \<and>
     at_texts pc (file_text (w_fs w) (keys_path home)) (file_text (w_fs w) (tmp_path home)) u)"

lemma can_beI:
  assumes "kd_reach s u" and "kd_reach u x"
    and "at_texts pc (file_text (w_fs w) (keys_path home)) (file_text (w_fs w) (tmp_path home)) x"
  shows "can_be home s pc w"
  using assms rtranclp_trans[OF assms(1,2)] by (auto simp: can_be_def)

lemma can_be_texts:
  assumes "can_be home s pc w" and "file_text (w_fs w') (keys_path home) = file_text (w_fs w) (keys_path home)"
    and "file_text (w_fs w') (tmp_path home) = file_text (w_fs w) (tmp_path home)"
  shows "can_be home s pc w'"
  using assms by (simp add: can_be_def)

lemma can_be_step:
  assumes "can_be home s pc w" and "\<And>u. at_key u 0 pc \<Longrightarrow> kd_step u (goes 0 pc' u)"
  shows "can_be home s pc' w"
proof -
  obtain u where u: "kd_reach s u"
    "at_texts pc (file_text (w_fs w) (keys_path home)) (file_text (w_fs w) (tmp_path home)) u"
    using assms(1) by (auto simp: can_be_def)
  then have "kd_step u (goes 0 pc' u)" by (intro assms(2)) (simp add: at_texts_def at_key_def)
  then show ?thesis using can_beI[OF u(1) r_into_rtranclp[of kd_step] texts_goes[OF u(2)]] by blast
qed

lemma can_be_chowned: "can_be home s pc w \<Longrightarrow> can_be home s pc (snd (os_chown p i j w))"
  by (rule can_be_texts) (simp_all add: text_chown)

lemma can_be_touched:
  assumes "can_be home s pc w" and "touches {q. prefix q (resolve home @ [''.ssh''])} w w'"
  shows "can_be home s pc w'"
  by (rule can_be_texts[OF assms(1)]; rule text_off[OF assms(2)]) (simp_all add: keys_path_def tmp_path_def prefix_def)

lemma keys_not_tmp [simp]: "keys_path home \<noteq> tmp_path home" "tmp_path home \<noteq> keys_path home"
  by (simp_all add: keys_path_def tmp_path_def)

lemma can_be_written:
  assumes "can_be home s (KOpen v) w" and "os_write_file p v m w = (r, w')" and "resolve p = tmp_path home"
  shows "if r = None then can_be home s (KChown v) w' \<and> file_text (w_fs w') (tmp_path home) = Some v
    else can_be home s (KDone v False) w'"
proof -
  let ?K = "\<lambda>w. file_text (w_fs w) (keys_path home)" and ?M = "\<lambda>w. file_text (w_fs w) (tmp_path home)"
  have "touches {resolve p} w w'" using touches_write_file[of p w v m] assms(2) by simp
  then have K: "?K w' = ?K w" by (rule text_off) (simp add: assms(3))
  obtain u0 where u0: "kd_reach s u0" "at_texts (KOpen v) (?K w) (?M w) u0" using assms(1) by (auto simp: can_be_def)
  obtain u i where u: "kd_step u0 u" "at_texts (KWrite v i) (?K w) (Some []) u" "kd_tmp u = Some i" "kd_files u ! i = []"
    using texts_open[OF u0(2)] by blast
  have at: "at_key u 0 (KWrite v i)" using u(2) by (simp add: at_texts_def at_key_def)
  show ?thesis
  proof (cases r)
    case None
    have M: "?M w' = Some v" using write_file_Some[of p v m w w'] assms(2,3) None by (simp add: file_text_def)
    have "kd_step u (goes 0 (KChown v) (u\<lparr>kd_files := (kd_files u)[i := v]\<rparr>))"
      using write_all[OF at] by (simp add: u(4) written_def)
    then have "can_be home s (KChown v) w'"
      using can_beI[OF u0(1) kd_path[OF u(1) r_into_rtranclp[of kd_step]], of _ _ w'] texts_write[OF u(2,3)] K M
      by metis
    then show ?thesis using None M by simp
  next
    case (Some e)
    from text_write_error[OF assms(2)[unfolded Some]] consider "?M w' = ?M w" | j where "?M w' = Some (take j v)"
      by (auto simp: assms(3))
    then have "can_be home s (KDone v False) w'"
    proof cases
      case 1
      show ?thesis by (rule can_be_texts[OF can_be_step[OF assms(1) open_fails] K 1])
    next
      case 2
      have "kd_step u (goes 0 (KDone v False) (u\<lparr>kd_files := (kd_files u)[i := take j v]\<rparr>))"
        using write_fails[OF at, of j] by (simp add: u(4) written_def)
      then show ?thesis
        using can_beI[OF u0(1) kd_path[OF u(1) r_into_rtranclp[of kd_step]], of _ _ w'] texts_write[OF u(2,3)] K 2
        by metis
    qed
    then show ?thesis using Some by simp
  qed
qed

lemma can_be_chown_done:
  assumes "can_be home s (KChown v) w" and "file_text (w_fs w) (tmp_path home) = Some x"
  shows "can_be home s (KRename v) w"
proof -
  obtain u where u: "kd_reach s u" "at_texts (KChown v) (file_text (w_fs w) (keys_path home)) (Some x) u"
    using assms by (auto simp: can_be_def)
  then obtain i where "kd_tmp u = Some i" "at_key u 0 (KChown v)" by (auto simp: texts_simps)
  then have "kd_step u (goes 0 (KRename v) u)" by (intro chown_done)
  then show ?thesis
    using can_beI[OF u(1) r_into_rtranclp[of kd_step], of _ _ w home] texts_goes[OF u(2)] assms(2) by simp
qed

lemma can_be_removed:
  assumes "can_be home s (KRemove v) w" and "resolve p = tmp_path home"
  shows "can_be home s (KDone v False) (snd (os_remove p w))"
proof -
  let ?w = "snd (os_remove p w)"
  have K: "file_text (w_fs ?w) (keys_path home) = file_text (w_fs w) (keys_path home)"
    by (rule text_off[OF touches_remove]) (simp add: assms(2))
  obtain u where u: "kd_reach s u"
    "at_texts (KRemove v) (file_text (w_fs w) (keys_path home)) (file_text (w_fs w) (tmp_path home)) u"
    using assms(1) by (auto simp: can_be_def)
  obtain x where "kd_step u x"
    "at_texts (KDone v False) (file_text (w_fs w) (keys_path home)) (file_text (w_fs ?w) (tmp_path home)) x"
    using texts_remove[OF u(2)] text_remove[of p w] assms(2) by (metis empty_iff insert_iff)
  then show ?thesis using can_beI[OF u(1) r_into_rtranclp[of kd_step]] K by metis
qed

lemma can_be_renamed:
  assumes "can_be home s (KRename v) w" and "file_text (w_fs w) (tmp_path home) = Some v"
    and "resolve p = tmp_path home" and "resolve q = keys_path home"
  shows "case os_rename p q w of
      (None, w') \<Rightarrow> can_be home s (KDone v True) w'
    | (Some e, w') \<Rightarrow> can_be home s (KDone v False) (snd (os_remove p w'))"
proof (cases "os_rename p q w")
  case (Pair r w')
  show ?thesis
  proof (cases r)
    case None
    have t: "file_text (w_fs w') (keys_path home) = Some v" "file_text (w_fs w') (tmp_path home) = None"
      using rename_Some(1,2)[of p q w w'] Pair None assms by (simp_all add: file_text_def)
    obtain u where u: "kd_reach s u" "at_texts (KRename v) (file_text (w_fs w) (keys_path home)) (Some v) u"
      using assms(1,2) by (auto simp: can_be_def)
    obtain x where "kd_step u x" "at_texts (KDone v True) (Some v) None x" by (rule texts_rename[OF u(2)])
    then show ?thesis using can_beI[OF u(1) r_into_rtranclp[of kd_step], of x _ w' home] t Pair None by simp
  next
    case (Some e)
    then have "w_fs w' = w_fs w" using rename_fail Pair by blast
    then have "can_be home s (KRemove v) w'"
      using can_be_texts[OF can_be_step[OF assms(1) rename_fails]] by simp
    then show ?thesis using can_be_removed[OF _ assms(3)] Pair Some by simp
  qed
qed

text \<open>The directory; the calls on it leave the two texts alone, whether they fail or not.\<close>

lemma can_be_ready:
  assumes "can_be home s (KDir v) w" and "resolve d = resolve home @ [''.ssh'']"
    and "\<And>u. can_be home s (KOpen v) u \<Longrightarrow>
      case k u of (r, u') \<Rightarrow> can_be home s (KDone v (r = None)) u'"
  shows "case or_fail (os_mkdir_all d 0x1C0 w) m1 id (\<lambda>w1. or_fail (os_chmod d 0x1C0 w1) m2 id (\<lambda>w2.
      or_fail (os_chown d i j w2) m3 id k)) of (r, w') \<Rightarrow> can_be home s (KDone v (r = None)) w'"
    (is "?Q (or_fail _ _ _ _)")
proof -
  let ?P = "{q. prefix q (resolve home @ [''.ssh''])}"
  have d: "resolve d \<in> ?P" "{q. prefix q (resolve d)} \<subseteq> ?P" using assms(2) by auto
  have failed: "?Q (Some e, id u)" if "touches ?P w u" for u e
    using can_be_step[OF can_be_touched[OF assms(1) that] dir_fails] by simp
  have rest: "?Q (k u)" if "touches ?P w u" for u
    by (rule assms(3)[OF can_be_step[OF can_be_touched[OF assms(1) that] dir_done]])
  show ?thesis
    by (intro or_fail_inv[where I = "touches ?P w" and Q = ?Q] touch.R_then touch.R_then_dirs failed rest
        touch.R_refl d)
qed

text \<open>C28: The sequential installation of a key is one of the schedules: for every world and every pattern
  of failing calls, an injection by itself, from a directory with the texts of the world, can
  end with the same success and the texts of the world that the installation leaves.\<close>

theorem key_installation_is_a_schedule:
  assumes "is_abs home" and "install_key home i j key w = (r, w')" and "ssh_dir_ok s"
    and "keys_text s = file_text (w_fs w) (keys_path home)" and "tmp_text s = file_text (w_fs w) (tmp_path home)"
  shows "\<exists>s'. kd_reach (adding [key_content key] s) s' \<and> ssh_dir_ok s' \<and>
    kd_writers s' = [KDone (key_content key) (r = None)] \<and>
    keys_text s' = file_text (w_fs w') (keys_path home) \<and> tmp_text s' = file_text (w_fs w') (tmp_path home)"
proof -
  let ?v = "key_content key" and ?d = "join2 home ''.ssh''"
  let ?k = "join2 ?d ''authorized_keys''"
  let ?t = "?k @ ''.tmp''"
  let ?C = "can_be home (adding [?v] s)"
  let ?Q = "\<lambda>(r, w'). ?C (KDone ?v (r = None)) w'"
  have path: "resolve ?d = resolve home @ [''.ssh'']" "resolve ?k = keys_path home" "resolve ?t = tmp_path home"
    using ssh_paths[OF assms(1)] by (simp_all add: keys_path_def tmp_path_def)
  have "at_texts (KDir ?v) (file_text (w_fs w) (keys_path home)) (file_text (w_fs w) (tmp_path home)) (adding [?v] s)"
    using assms(3-5) by (simp add: at_texts_def adding_def ssh_dir_ok_def keys_text_def tmp_text_def)
  then have start: "?C (KDir ?v) w" by (auto simp: can_be_def)
  have renamed: "?Q (or_fail (os_rename ?t ?k u) m (\<lambda>w. snd (os_remove ?t w)) (\<lambda>w. (None, w)))"
    if "?C (KRename ?v) u" "file_text (w_fs u) (tmp_path home) = Some ?v" for u m
    by (rule or_fail_post[where Q = ?Q])
      (use can_be_renamed[OF that path(3,2)] in simp_all)
  have chowned: "?Q (or_fail (os_chown ?t i j u) m (\<lambda>w. snd (os_remove ?t w)) (\<lambda>w5.
      or_fail (os_rename ?t ?k w5) m' (\<lambda>w. snd (os_remove ?t w)) (\<lambda>w6. (None, w6))))"
    if "?C (KChown ?v) u" "file_text (w_fs u) (tmp_path home) = Some ?v" for u m m'
  proof (rule or_fail_post[where Q = ?Q])
    show "?Q (Some (ErrWrap m e), snd (os_remove ?t x))" if "os_chown ?t i j u = (Some e, x)" for e x
    proof -
      have "?C (KChown ?v) x" using can_be_chowned[OF \<open>?C (KChown ?v) u\<close>, of ?t i j] that by simp
      then show ?thesis using can_be_removed[OF can_be_step[OF _ chown_fails] path(3)] by simp
    qed
    show "?Q (or_fail (os_rename ?t ?k x) m' (\<lambda>w. snd (os_remove ?t w)) (\<lambda>w6. (None, w6)))"
      if "os_chown ?t i j u = (None, x)" for x
    proof (rule renamed)
      have x: "x = snd (os_chown ?t i j u)" using that by simp
      show t: "file_text (w_fs x) (tmp_path home) = Some ?v"
        unfolding x text_chown by (rule \<open>file_text (w_fs u) (tmp_path home) = Some ?v\<close>)
      have "?C (KChown ?v) x" unfolding x by (rule can_be_chowned) (rule \<open>?C (KChown ?v) u\<close>)
      then show "?C (KRename ?v) x" by (rule can_be_chown_done[OF _ t])
    qed
  qed
  have "?Q (install_key home i j key w)"
    unfolding install_key_def Let_def
  proof (rule can_be_ready[OF start path(1)])
    fix u
    assume o: "?C (KOpen ?v) u"
    show "?Q (or_fail (os_write_file ?t ?v 0x180 u) (''write '' @ ?t @ '': '') id (\<lambda>w4.
       or_fail (os_chown ?t i j w4) (''chown '' @ ?t @ '': '') (\<lambda>w. snd (os_remove ?t w)) (\<lambda>w5.
       or_fail (os_rename ?t ?k w5) (''rename '' @ ?k @ '': '') (\<lambda>w. snd (os_remove ?t w)) (\<lambda>w6. (None, w6)))))"
    proof (rule or_fail_post[where Q = ?Q])
      show "?Q (Some (ErrWrap m e), id x)" if "os_write_file ?t ?v 0x180 u = (Some e, x)" for m e x
        using can_be_written[OF o that path(3)] by simp
      show "?Q (or_fail (os_chown ?t i j x) m (\<lambda>w. snd (os_remove ?t w)) (\<lambda>w5.
          or_fail (os_rename ?t ?k w5) m' (\<lambda>w. snd (os_remove ?t w)) (\<lambda>w6. (None, w6))))"
        if "os_write_file ?t ?v 0x180 u = (None, x)" for m m' x
        using can_be_written[OF o that path(3)] by (intro chowned) simp_all
    qed
  qed
  then have "?C (KDone ?v (r = None)) w'" using assms(2) by simp
  then show ?thesis by (auto simp: can_be_def at_texts_def)
qed

theorem key_installation_is_a_schedule_witness:
  "\<exists>s'. kd_reach (adding [''ssh-ed25519 AAAA'' @ [newline]]
       \<lparr>kd_keys = None, kd_tmp = None, kd_files = [], kd_writers = []\<rparr>) s' \<and>
     kd_writers s' = [KDone (''ssh-ed25519 AAAA'' @ [newline]) True] \<and>
     keys_text s' = Some (''ssh-ed25519 AAAA'' @ [newline])"
proof -
  let ?s = "\<lparr>kd_keys = None, kd_tmp = None, kd_files = [], kd_writers = []\<rparr> :: ssh_dir"
  obtain r w' where i: "install_key ''/home/agent'' 1000 100 (kp_public_key agent_key) ssh_world = (r, w')"
    by (rule prod.exhaust)
  have "fst (install_key ''/home/agent'' 1000 100 (kp_public_key agent_key) ssh_world) = None" by code_simp
  then have r: "r = None" using i by simp
  have p: "keys_path ''/home/agent'' = [''home'', ''agent'', ''.ssh'', ''authorized_keys'']"
    "tmp_path ''/home/agent'' = [''home'', ''agent'', ''.ssh'', ''authorized_keys.tmp'']"
    by (simp_all add: keys_path_def tmp_path_def ssh_world_facts)
  have "file_text (w_fs w') (keys_path ''/home/agent'') = Some (''ssh-ed25519 AAAA'' @ [newline])"
    using install_key_result(3)[OF ssh_world_facts(3,2) i refl r] by (auto simp: file_text_def p ssh_world_facts)
  then show ?thesis
    using key_installation_is_a_schedule[OF ssh_world_facts(3) i, of ?s] r
    by (auto simp: ssh_dir_ok_def keys_text_def tmp_text_def p file_text_def ssh_world_lookup ssh_world_facts)
qed

end
