(* ===== verification/Scanning.thy ===== *)
theory Scanning
  imports Server
begin

text \<open>
  The scanner of a connection (pkg/server.go, handleConnection) with its buffer: \<open>bufio.Scanner\<close>
  reads what the transport has, shifts and doubles its buffer, and splits off lines as they are
  complete. The theory Server takes the lines of the whole stream; here they are shown to be the
  same, however the transport cuts the stream into reads.
\<close>

subsection \<open>The buffer\<close>

text \<open>The bytes between start and end, where they start, and the size of the buffer.\<close>

record scan_buf =
  sb_data :: string
  sb_start :: nat
  sb_size :: nat

definition sb_end :: "scan_buf \<Rightarrow> nat" where
  "sb_end b = sb_start b + length (sb_data b)"

definition new_scan_buf :: scan_buf where
  "new_scan_buf = \<lparr>sb_data = [], sb_start = 0, sb_size = 64 * 1024\<rparr>"

text \<open>\<open>ScanLines\<close>: how far to advance and the line, if the data, perhaps with the end of the input,
  have one.\<close>

definition split_line :: "string \<Rightarrow> bool \<Rightarrow> (nat \<times> string) option" where
  "split_line d eof =
     (if eof \<and> d = [] then None
      else if newline \<in> set d then
        (let l = takeWhile (\<lambda>x. x \<noteq> newline) d in Some (Suc (length l), drop_cr l))
      else if eof then Some (length d, drop_cr d) else None)"

text \<open>Before a read: the data are moved to the front when there is a lot of space before them or none
  after them, and a full buffer is doubled, up to the limit; \<open>None\<close> when it is full at the limit.\<close>

definition make_room :: "scan_buf \<Rightarrow> scan_buf option" where
  "make_room b0 =
     (let b = (if 0 < sb_start b0 \<and> (sb_end b0 = sb_size b0 \<or> sb_size b0 div 2 < sb_start b0)
               then b0\<lparr>sb_start := 0\<rparr> else b0) in
      if sb_end b = sb_size b then
        (if max_token \<le> sb_size b then None
         else Some (b\<lparr>sb_start := 0, sb_size := min (2 * sb_size b) max_token\<rparr>))
      else Some b)"

text \<open>A read gives at least a byte, and at most what fits and what there is; \<open>want\<close> is what the
  transport would give.\<close>

definition read_size :: "nat \<Rightarrow> scan_buf \<Rightarrow> string \<Rightarrow> nat" where
  "read_size want b input = max 1 (min want (min (sb_size b - sb_end b) (length input)))"

lemma split_line_advances: "split_line d eof = Some (n, l) \<Longrightarrow> 0 < n \<and> n \<le> length d"
proof -
  assume s: "split_line d eof = Some (n, l)"
  have "newline \<in> set d \<Longrightarrow> length (takeWhile (\<lambda>x. x \<noteq> newline) d) < length d"
    by (induction d) auto
  then show ?thesis using s by (auto simp: split_line_def Let_def split: if_splits)
qed

lemma make_room_data: "make_room b = Some b1 \<Longrightarrow> sb_data b1 = sb_data b"
  by (auto simp: make_room_def Let_def split: if_splits)

lemma read_size_pos: "0 < read_size want b input"
  by (simp add: read_size_def)

lemma read_size_fits: "sb_end b < sb_size b \<Longrightarrow> read_size want b input \<le> sb_size b - sb_end b"
  by (auto simp: read_size_def)

lemma read_size_le: "input \<noteq> [] \<Longrightarrow> read_size want b input \<le> length input"
  by (cases input) (simp_all add: read_size_def)

text \<open>The calls of Scan until it returns false: the lines, and whether the last one was too long.
  \<open>reads k\<close> is the size of the k-th read.\<close>

function scan_reads ::
  "(nat \<Rightarrow> nat) \<Rightarrow> nat \<Rightarrow> string \<Rightarrow> bool \<Rightarrow> scan_buf \<Rightarrow> string list \<times> bool" where
  "scan_reads reads k input eof b =
     (case split_line (sb_data b) eof of
        Some (n, l) \<Rightarrow>
          (let (ls, long) = scan_reads reads k input eof (b\<lparr>sb_data := drop n (sb_data b), sb_start := sb_start b + n\<rparr>)
           in (l # ls, long))
      | None \<Rightarrow>
          if eof then ([], False)
          else
            (case make_room b of
               None \<Rightarrow> ([], True)
             | Some b1 \<Rightarrow>
                 if input = [] then scan_reads reads (Suc k) input True b1
                 else
                   (let n = read_size (reads k) b1 input
                    in scan_reads reads (Suc k) (drop n input) False (b1\<lparr>sb_data := sb_data b1 @ take n input\<rparr>))))"
  by pat_completeness auto
termination
proof (relation "measure (\<lambda>(reads, k, input, eof, b). 2 * length input + length (sb_data b) + (if eof then 0 else 1))", goal_cases)
  case 1
  show ?case by simp
next
  case (2 reads k input eof b b1)
  then show ?case by (simp add: make_room_data)
next
  case (3 reads k input eof b b1 n)
  then show ?case using read_size_pos[of "reads k" b1 input] read_size_le[of input "reads k" b1]
    by (simp add: make_room_data)
next
  case (4 reads k input eof b a n l)
  then show ?case using split_line_advances[of "sb_data b" eof n l] by auto
qed

declare scan_reads.simps [simp del]

subsection \<open>The lines do not depend on the reads\<close>

definition buf_ok :: "scan_buf \<Rightarrow> bool" where
  "buf_ok b \<longleftrightarrow> sb_end b \<le> sb_size b \<and> 0 < sb_size b \<and> sb_size b \<le> max_token"

lemma make_room_ok:
  assumes "buf_ok b"
  shows "make_room b = None \<longleftrightarrow> length (sb_data b) = max_token"
    and "make_room b = Some b1 \<Longrightarrow> buf_ok b1 \<and> sb_end b1 < sb_size b1"
  using assms by (auto simp: make_room_def buf_ok_def sb_end_def Let_def max_token_def split: if_splits)

lemma scan_rest:
  assumes "newline \<notin> set l" and "length l < max_token"
  shows "scan_lines l = (if l = [] then [] else [drop_cr l], False)"
proof -
  have w: "takeWhile (\<lambda>x. x \<noteq> newline) l = l" "dropWhile (\<lambda>x. x \<noteq> newline) l = []"
    using assms(1) by (auto simp: takeWhile_eq_all_conv dropWhile_eq_Nil_conv)
  show ?thesis
  proof (cases "l = []")
    case False
    then show ?thesis using assms(2) unfolding scan_lines_unfold[OF False] w by simp
  qed simp
qed

lemma split_at_newline:
  assumes "newline \<in> set d"
  obtains l x where "d = l @ newline # x" "newline \<notin> set l" "takeWhile (\<lambda>c. c \<noteq> newline) d = l"
proof -
  obtain l x where d: "d = l @ newline # x" "newline \<notin> set l" using split_list_first[OF assms] by blast
  then show thesis using that takeWhile_upto by blast
qed

lemma scan_reads_lines:
  "buf_ok b \<Longrightarrow> (eof \<longrightarrow> input = [] \<and> sb_end b < sb_size b) \<Longrightarrow>
   scan_reads reads k input eof b = scan_lines (sb_data b @ input)"
proof (induction reads k input eof b rule: scan_reads.induct)
  case (1 reads k input eof b)
  have size: "length (sb_data b) \<le> max_token" using "1.prems"(1) by (simp add: buf_ok_def sb_end_def)
  show ?case
  proof (cases "newline \<in> set (sb_data b)")
    case True
    then obtain l x where d: "sb_data b = l @ newline # x" "newline \<notin> set l" "takeWhile (\<lambda>c. c \<noteq> newline) (sb_data b) = l"
      by (rule split_at_newline)
    let ?b = "b\<lparr>sb_data := drop (Suc (length l)) (sb_data b), sb_start := sb_start b + Suc (length l)\<rparr>"
    have sp: "split_line (sb_data b) eof = Some (Suc (length l), drop_cr l)"
      using True d(1,3) by (simp add: split_line_def Let_def)
    have "buf_ok ?b" "sb_end ?b = sb_end b" using "1.prems"(1) d(1) by (simp_all add: buf_ok_def sb_end_def)
    then have IH: "scan_reads reads k input eof ?b = scan_lines (x @ input)"
      using "1.IH"(3)[OF sp refl] "1.prems"(2) d(1) by simp
    have "scan_lines (sb_data b @ input) = (drop_cr l # fst (scan_lines (x @ input)), snd (scan_lines (x @ input)))"
      using scan_line[OF d(2), of "x @ input"] size d(1) by simp
    then show ?thesis using IH by (simp add: scan_reads.simps[of reads k input eof b] sp split_beta)
  next
    case no: False
    show ?thesis
    proof (cases eof)
      case True
      then have e: "input = []" "length (sb_data b) < max_token"
        using "1.prems" by (auto simp: buf_ok_def sb_end_def)
      have "scan_reads reads k input True (b\<lparr>sb_data := [], sb_start := n\<rparr>) = ([], False)" for n
        by (simp add: scan_reads.simps split_line_def)
      then show ?thesis
        using scan_rest[OF no e(2)] no True e(1)
        by (simp add: scan_reads.simps[of reads k "[]" True b] split_line_def)
    next
      case False
      then have sp: "split_line (sb_data b) eof = None" using no by (simp add: split_line_def)
      show ?thesis
      proof (cases "make_room b")
        case None
        then have "length (sb_data b) = max_token" using make_room_ok(1)[OF "1.prems"(1)] by simp
        moreover have "takeWhile (\<lambda>x. x \<noteq> newline) (sb_data b @ input) = sb_data b @ takeWhile (\<lambda>x. x \<noteq> newline) input"
          using no by (subst takeWhile_append2) auto
        ultimately have "scan_lines (sb_data b @ input) = ([], True)" by (intro scan_too_long) simp
        then show ?thesis using False sp None by (simp add: scan_reads.simps[of reads k input False b])
      next
        case (Some b1)
        note b1 = make_room_ok(2)[OF "1.prems"(1) Some] make_room_data[OF Some]
        let ?n = "read_size (reads k) b1 input"
        let ?b = "b1\<lparr>sb_data := sb_data b1 @ take ?n input\<rparr>"
        have "sb_end ?b \<le> sb_size b1"
          using b1(1) read_size_fits[of b1 "reads k" input] by (auto simp: sb_end_def)
        then have "buf_ok ?b" using b1(1) by (simp add: buf_ok_def sb_end_def)
        then show ?thesis
          using "1.IH"(1)[OF sp False Some] "1.IH"(2)[OF sp False Some _ refl] False sp Some b1
          by (simp add: scan_reads.simps[of reads k input False b])
      qed
    qed
  qed
qed

text \<open>A connection whose lines come from its scanner.\<close>

definition handle_reads ::
  "'s handler \<Rightarrow> (nat \<Rightarrow> nat option) \<Rightarrow> (nat \<Rightarrow> bool) \<Rightarrow> (nat \<Rightarrow> nat) \<Rightarrow> string \<Rightarrow> 's \<Rightarrow> 's \<times> conn_out" where
  "handle_reads h fails ctx reads input s =
     serve_lines h fails ctx 0 (fst (scan_reads reads 0 input False new_scan_buf)) s new_conn_out"

text \<open>C6: The lines of a connection are those of its whole stream, whatever sizes its reads have: neither
  the shifting and growing of the buffer nor the way the transport cuts the stream matters, a
  line below 1 MiB is never lost, and one that is too long is noticed all the same. So what the
  handler is given and what the host is sent do not depend on the reads.\<close>

theorem reads_do_not_matter:
  "scan_reads reads 0 input False new_scan_buf = scan_lines input \<and>
   handle_reads h fails ctx reads input s = handle_connection h fails ctx input s"
proof -
  have "scan_reads reads 0 input False new_scan_buf = scan_lines input"
    using scan_reads_lines[of new_scan_buf False input reads 0]
    by (simp add: buf_ok_def sb_end_def new_scan_buf_def max_token_def)
  then show ?thesis by (simp add: handle_reads_def handle_connection_def)
qed

end
