(* ===== verification/Truncation.thy ===== *)
theory Truncation
  imports Scanning
begin

text \<open>
  Connections that are cut. A read error ends the scan, and what was read of the last line is
  then taken as a line (pkg/server.go, handleConnection, with \<open>bufio.Scanner\<close>). No proper part
  of a message is itself one, so a cut never makes the daemon act on half a message.
\<close>

subsection \<open>Readers do not look beyond what they consume\<close>

lemma skip_ws_append: "skip_ws s \<noteq> [] \<Longrightarrow> skip_ws (s @ q) = skip_ws s @ q"
  by (auto simp: skip_ws_def dropWhile_append dropWhile_eq_Nil_conv)

lemma skip_ws_append_Cons: "skip_ws s = c # cs \<Longrightarrow> skip_ws (s @ q) = c # cs @ q"
  using skip_ws_append[of s q] by simp

lemma hex4_append: "hex4 s = Some (n, r) \<Longrightarrow> hex4 (s @ q) = Some (n, r @ q)"
  by (auto simp: hex4_def split: list.splits option.splits)

lemma hex4_set: "hex4 s = Some (n, r) \<Longrightarrow> set r \<subseteq> set s"
  by (auto simp: hex4_def split: list.splits option.splits)

lemma unescape_unit_set: "set (snd (unescape_unit n r)) \<subseteq> set r"
proof -
  have "hex4 (drop 2 r) = Some (m, r') \<Longrightarrow> set r' \<subseteq> set r" for m r'
    using hex4_set[of "drop 2 r"] set_drop_subset[of 2 r] by blast
  then show ?thesis by (auto simp: unescape_unit_def split: option.split)
qed

text \<open>A quote is no byte of a longer encoding, so one that is followed by a quote is decided.\<close>

lemma rune_len_append:
  assumes "CHR 0x22 \<in> set s" 
  shows "rune_len (c # s @ q) = rune_len (c # s)"
proof -
  have q: "\<not> between 0x80 (CHR 0x22) b" for b by (simp add: between_def byte_of_def)
  have r3: "\<not> rune3 a (CHR 0x22) c" "\<not> rune3 a b (CHR 0x22)" for a b c
    by (simp_all add: rune3_def between_def byte_of_def)
  have r4: "\<not> rune4 a (CHR 0x22) c d" "\<not> rune4 a b (CHR 0x22) d" "\<not> rune4 a b c (CHR 0x22)" for a b c d
    by (simp_all add: rune4_def between_def byte_of_def)
  consider (one) a where "s = [a]" | (two) a b where "s = [a, b]" | (more) a b d t where "s = a # b # d # t"
    using assms by (cases s rule: list.exhaust; cases "tl s"; cases "tl (tl s)") auto
  then show ?thesis
  proof cases
    case one
    then have "a = CHR 0x22" using assms by simp
    with one show ?thesis by (auto simp: rune_len_def q r3 r4 split: list.split)
  next
    case two
    then have "a = CHR 0x22 \<or> b = CHR 0x22" using assms by auto
    with two show ?thesis by (auto simp: rune_len_def q r3 r4 split: list.split)
  next
    case more
    then show ?thesis by (simp add: rune_len_def)
  qed
qed

text \<open>How a string literal is read, one unit after the other.\<close>

lemma parse_chars_SomeE:
  assumes "parse_chars s = Some (t, r)"
  obtains (quote) "s = CHR 0x22 # r" "t = []"
  | (unit) ds n r0 t0 where "s = CHR 0x5C # CHR ''u'' # ds" "hex4 ds = Some (n, r0)"
      "parse_chars (snd (unescape_unit n r0)) = Some (t0, r)" "t = fst (unescape_unit n r0) @ t0"
  | (simple) e d ds t0 where "s = CHR 0x5C # e # ds" "e \<noteq> CHR ''u''" "simple_escape e = Some d"
      "parse_chars ds = Some (t0, r)" "t = d # t0"
  | (bad) c cs t0 where "s = c # cs" "c \<noteq> CHR 0x22" "c \<noteq> CHR 0x5C" "\<not> byte_of c < 0x20"
      "rune_len (c # cs) = None" "parse_chars cs = Some (t0, r)" "t = replacement @ t0"
  | (rune) c cs n t0 where "s = c # cs" "c \<noteq> CHR 0x22" "c \<noteq> CHR 0x5C" "\<not> byte_of c < 0x20"
      "rune_len (c # cs) = Some n" "parse_chars (drop n (c # cs)) = Some (t0, r)" "t = take n (c # cs) @ t0"
proof (cases s)
  case Nil
  with assms show thesis by simp
next
  case (Cons c cs)
  show thesis
  proof (cases "c = CHR 0x5C")
    case True
    with assms Cons obtain e ds where "cs = e # ds" by (cases cs) auto
    then show thesis using assms Cons True unit simple by (auto split: if_splits option.splits)
  next
    case False
    then show thesis using assms Cons quote bad rune by (cases "rune_len (c # cs)") (auto split: if_splits)
  qed
qed

lemma unescape_unit_append:
  assumes "parse_chars (snd (unescape_unit n r)) = Some x"
  shows "unescape_unit n (r @ q) = (fst (unescape_unit n r), snd (unescape_unit n r) @ q)"
proof (cases "n < 0xD800 \<or> 0xE000 \<le> n")
  case True
  then show ?thesis by (auto simp: unescape_unit_def)
next
  case False
  show ?thesis
  proof (cases "prefix [CHR 0x5C, CHR ''u''] r")
    case True
    then obtain u where r: "r = CHR 0x5C # CHR ''u'' # u" by (auto simp: prefix_def)
    have "hex4 u \<noteq> None" using assms False r by (cases "hex4 u") (simp_all add: unescape_unit_def)
    then show ?thesis using False r hex4_append[of u _ _ q] by (auto simp: unescape_unit_def)
  next
    case no: False
    then have "parse_chars r = Some x" using assms False by (simp add: unescape_unit_def)
    then have "\<not> prefix [CHR 0x5C, CHR ''u''] (r @ q)"
      using no by (cases r; cases "tl r") (auto split: if_splits)
    with no False show ?thesis by (simp add: unescape_unit_def)
  qed
qed

lemma parse_chars_append:
  "parse_chars s = Some (t, r) \<Longrightarrow> CHR 0x22 \<in> set s \<and> parse_chars (s @ q) = Some (t, r @ q)"
proof (induction s arbitrary: t r rule: measure_induct_rule[where f = length])
  case (less s)
  from less.prems show ?case
  proof (cases rule: parse_chars_SomeE)
    case quote
    then show ?thesis by simp
  next
    case (unit ds n r0 t0)
    have sh: "length (snd (unescape_unit n r0)) < length s"
      using unescape_unit_length[of n r0] hex4_length[OF unit(2)] unit(1) by simp
    have "CHR 0x22 \<in> set s"
      using less.IH[OF sh unit(3)] unescape_unit_set[of n r0] hex4_set[OF unit(2)] unit(1) by auto
    then show ?thesis
      using less.IH[OF sh unit(3)] unit unescape_unit_append[OF unit(3), of q] hex4_append[OF unit(2), of q] by simp
  next
    case (simple e d ds t0)
    then show ?thesis using less.IH[of ds t0 r] by simp
  next
    case (bad c cs t0)
    then show ?thesis using less.IH[of cs t0 r] rune_len_append[of cs c q] by simp
  next
    case (rune c cs n t0)
    have n: "0 < n" "n \<le> length (c # cs)" using rune_len_pos[OF rune(5)] by auto
    then have IH: "CHR 0x22 \<in> set (drop n (c # cs))" "parse_chars (drop n (c # cs) @ q) = Some (t0, r @ q)"
      using less.IH[of "drop n (c # cs)" t0 r] rune by auto
    have "CHR 0x22 \<in> set cs" using in_set_dropD[OF IH(1)] rune(2) by simp
    moreover have "drop n (c # cs @ q) = drop n (c # cs) @ q" "take n (c # cs @ q) = take n (c # cs)"
      using n(2) drop_append[of n "c # cs" q] take_append[of n "c # cs" q] by simp_all
    ultimately show ?thesis using IH(2) rune rune_len_append[of cs c q] by simp
  qed
qed

text \<open>A number may go on, unless something follows it already.\<close>

lemma take_digits_more: "take_digits s = (ds, r) \<Longrightarrow> r \<noteq> [] \<Longrightarrow> take_digits (s @ q) = (ds, r @ q)"
  by (auto simp: take_digits_def takeWhile_append dropWhile_append)

lemma num_int_more: "num_int s = Some (a, r) \<Longrightarrow> r \<noteq> [] \<Longrightarrow> num_int (s @ q) = Some (a, r @ q)"
  using take_digits_more by (fastforce simp: num_int_def split: list.splits if_splits)

lemma num_frac_more: "num_frac s = Some (a, r) \<Longrightarrow> r \<noteq> [] \<Longrightarrow> num_frac (s @ q) = Some (a, r @ q)"
  using take_digits_more[of "tl s" _ r q]
  by (cases s) (auto simp: num_frac_def Let_def split: if_splits prod.splits)

lemma num_exp_more: "num_exp s = Some (a, r) \<Longrightarrow> r \<noteq> [] \<Longrightarrow> num_exp (s @ q) = Some (a, r @ q)"
  using take_digits_more[of "tl s" _ r q] take_digits_more[of "tl (tl s)" _ r q]
  by (cases s; cases "tl s") (auto simp: num_exp_def Let_def take_digits_def split: if_splits prod.splits)

lemma parse_number_more:
  assumes "parse_number s = Some (t, r)" and "r \<noteq> []"
  shows "parse_number (s @ q) = Some (t, r @ q)"
proof -
  obtain sgn s0 where s0: "(if prefix ''-'' s then (''-'', drop 1 s) else ([], s)) = (sgn, s0)" by force
  with assms(1) obtain a s1 b s2 c where
    n: "num_int s0 = Some (a, s1)" "num_frac s1 = Some (b, s2)" "num_exp s2 = Some (c, r)" "t = sgn @ a @ b @ c"
    by (auto simp: parse_number_def split: option.splits)
  have ne: "s2 \<noteq> []" "s1 \<noteq> []"
    using num_exp_length[OF n(3)] num_frac_length[OF n(2)] assms(2) by auto
  then have "s \<noteq> []" using s0 n(1) by (auto simp: num_int_def split: if_splits)
  then have "(if prefix ''-'' (s @ q) then (''-'', drop 1 (s @ q)) else ([], s @ q)) = (sgn, s0 @ q)"
    using s0 by (cases s) (auto split: if_splits)
  then show ?thesis
    using num_int_more[OF n(1) ne(2), of q] num_frac_more[OF n(2) ne(1), of q] num_exp_more[OF n(3) assms(2), of q] n(4)
    by (simp add: parse_number_def)
qed

text \<open>A value that is not a number at the end of the input is read the same way when more follows.\<close>

definition open_ended :: "json \<Rightarrow> string \<Rightarrow> bool" where
  "open_ended v r \<longleftrightarrow> r = [] \<and> (\<exists>t. v = JNum t)"

lemma open_ended_skip: "open_ended v r \<Longrightarrow> skip_ws r = []"
  by (simp add: open_ended_def skip_ws_def)

lemma parse_starts:
  "parse_value f d s = Some x \<Longrightarrow> skip_ws s \<noteq> []"
  "parse_elems f d s = Some y \<Longrightarrow> skip_ws s \<noteq> []"
  "parse_members f d s = Some z \<Longrightarrow> skip_ws s \<noteq> []"
proof -
  show v: "parse_value f d s = Some x \<Longrightarrow> skip_ws s \<noteq> []" for f d s x by (cases f) (auto split: list.splits)
  show "parse_elems f d s = Some y \<Longrightarrow> skip_ws s \<noteq> []"
    using v by (cases f) (auto split: option.splits)
  show "parse_members f d s = Some z \<Longrightarrow> skip_ws s \<noteq> []" by (cases f) (auto split: if_splits)
qed

text \<open>Which literal stands at the front is decided by its first byte, a number having another.\<close>

lemma parse_number_first: "parse_number (c # cs) = Some x \<Longrightarrow> is_digit c \<or> c = CHR ''-''"
  by (auto simp: parse_number_def num_int_def is_digit_def split: if_splits option.splits)

lemma parse_append:
  "(\<forall>v r. parse_value f d s = Some (v, r) \<longrightarrow> \<not> open_ended v r \<longrightarrow> parse_value f d (s @ q) = Some (v, r @ q)) \<and>
   (\<forall>vs r. parse_elems f d s = Some (vs, r) \<longrightarrow> parse_elems f d (s @ q) = Some (vs, r @ q)) \<and>
   (\<forall>ms r. parse_members f d s = Some (ms, r) \<longrightarrow> parse_members f d (s @ q) = Some (ms, r @ q))"
proof (induction f arbitrary: d s)
  case 0
  show ?case by simp
next
  case (Suc f)
  have V: "parse_value f d s = Some (v, r) \<Longrightarrow> skip_ws r \<noteq> [] \<Longrightarrow> parse_value f d (s @ q) = Some (v, r @ q)"
    and E: "parse_elems f d s = Some (vs, r) \<Longrightarrow> parse_elems f d (s @ q) = Some (vs, r @ q)"
    and M: "parse_members f d s = Some (ms, r) \<Longrightarrow> parse_members f d (s @ q) = Some (ms, r @ q)" for d s v vs ms r
    using Suc.IH by (blast dest: open_ended_skip)+
  have v: "parse_value (Suc f) d (s @ q) = Some (v, r @ q)"
    if h: "parse_value (Suc f) d s = Some (v, r)" "\<not> open_ended v r" for v r
  proof -
    obtain c cs where c: "skip_ws s = c # cs" using parse_starts(1)[OF h(1)] by (cases "skip_ws s") auto
    note cq = skip_ws_append_Cons[OF c, of q]
    consider (str) "c = CHR 0x22" | (arr) "c = CHR ''[''" | (obj) "c = CHR ''{''"
      | (lit) u where "c # cs = ''true'' @ u \<or> c # cs = ''false'' @ u \<or> c # cs = ''null'' @ u"
      | (num) "c \<notin> {CHR 0x22, CHR ''['', CHR ''{''}" "\<not> prefix ''true'' (c # cs)" "\<not> prefix ''false'' (c # cs)" "\<not> prefix ''null'' (c # cs)"
      by (auto simp: prefix_def)
    then show ?thesis
    proof cases
      case str
      then show ?thesis using h c cq parse_chars_append[of cs _ _ q] by auto
    next
      case arr
      then show ?thesis
        using h(1) c cq skip_ws_append[of cs q] parse_starts(2)[of f "d - 1" cs] E[of "d - 1" cs]
        by (cases "skip_ws cs") (auto split: if_splits)
    next
      case obj
      then show ?thesis
        using h(1) c cq skip_ws_append[of cs q] parse_starts(3)[of f "d - 1" cs] M[of "d - 1" cs]
        by (cases "skip_ws cs") (auto split: if_splits)
    next
      case (lit u)
      then show ?thesis using h(1) c cq by (elim disjE) simp_all
    next
      case num
      then obtain t where n: "parse_number (c # cs) = Some (t, r)" "v = JNum t" using h(1) c by auto
      then have "r \<noteq> []" using h(2) by (simp add: open_ended_def)
      then have "parse_number (c # cs @ q) = Some (t, r @ q)" using parse_number_more[OF n(1), of q] by simp
      moreover have "c \<notin> {CHR ''t'', CHR ''f'', CHR ''n''}" using parse_number_first[OF n(1)] by (auto simp: is_digit_def)
      ultimately show ?thesis using num cq n(2) by (auto simp: prefix_def is_digit_def)
    qed
  qed
  have e: "parse_elems (Suc f) d (s @ q) = Some (vs, r @ q)" if h: "parse_elems (Suc f) d s = Some (vs, r)" for vs r
  proof -
    from h obtain v r1 where v: "parse_value f d s = Some (v, r1)" by (auto split: option.splits)
    with h obtain c cs where c: "skip_ws r1 = c # cs" by (cases "skip_ws r1") auto
    have "parse_value f d (s @ q) = Some (v, r1 @ q)" using V[OF v] c by simp
    then show ?thesis using h v c skip_ws_append_Cons[OF c, of q] by (auto split: if_splits simp: E)
  qed
  have m: "parse_members (Suc f) d (s @ q) = Some (ms, r @ q)" if h: "parse_members (Suc f) d s = Some (ms, r)" for ms r
  proof -
    from h obtain s1 where s1: "skip_ws s = CHR 0x22 # s1" by (auto simp: prefix_def split: if_splits)
    with h obtain k r0 where k: "parse_chars s1 = Some (k, r0)" by (auto split: option.splits)
    with h s1 obtain r2 where r0: "skip_ws r0 = CHR '':'' # r2" by (auto simp: prefix_def split: if_splits)
    with h s1 k obtain v r1 where v: "parse_value f d r2 = Some (v, r1)" by (auto split: option.splits)
    with h s1 k r0 obtain c cs where c: "skip_ws r1 = c # cs" by (cases "skip_ws r1") auto
    have "parse_value f d (r2 @ q) = Some (v, r1 @ q)" using V[OF v] c by simp
    moreover have "parse_chars (s1 @ q) = Some (k, r0 @ q)" using parse_chars_append[OF k] by blast
    ultimately show ?thesis
      using h k v c s1 r0 skip_ws_append_Cons[OF c, of q] skip_ws_append_Cons[OF s1, of q] skip_ws_append_Cons[OF r0, of q]
      by (auto split: if_splits simp: M)
  qed
  from v e m show ?case by blast
qed

subsection \<open>A part of a message is not a message\<close>

lemma parse_object_start: "parse_value f d s = Some (JObj ms, r) \<Longrightarrow> \<exists>cs. skip_ws s = CHR ''{'' # cs"
  by (cases f) (auto split: list.splits if_splits option.splits)

lemma parse_object_value:
  "parse_value f d s = Some (v, r) \<Longrightarrow> skip_ws s = CHR ''{'' # cs \<Longrightarrow> \<exists>ms. v = JObj ms"
  by (cases f) (auto split: if_splits option.splits)

lemma object_part_refused:
  assumes "first_value (p @ q) = Some (JObj ms, [])" and "q \<noteq> []"
  shows "unmarshal_text p = None"
proof (rule ccontr)
  assume "unmarshal_text p \<noteq> None"
  then obtain j r where p: "first_value p = Some (j, r)" by (auto simp: unmarshal_text_def split: option.splits)
  let ?f = "2 * length (p @ q) + 1"
  have "parse_value ?f max_nesting p = first_value p"
    using parse_fuel[of p ?f "2 * length p + 1" max_nesting] by (simp add: first_value_def)
  then have v: "parse_value ?f max_nesting p = Some (j, r)" using p by simp
  have pq: "parse_value ?f max_nesting (p @ q) = Some (JObj ms, [])" using assms(1) by (simp add: first_value_def)
  obtain cs where "skip_ws (p @ q) = CHR ''{'' # cs" using parse_object_start[OF pq] by blast
  moreover have "skip_ws p \<noteq> []" by (rule parse_starts(1)[OF v])
  ultimately obtain cs' where "skip_ws p = CHR ''{'' # cs'"
    using skip_ws_append[of p q] by (cases "skip_ws p") auto
  then have "\<not> open_ended j r" using parse_object_value[OF v] by (auto simp: open_ended_def)
  then have "parse_value ?f max_nesting (p @ q) = Some (j, r @ q)"
    using parse_append[of ?f max_nesting p q] v by blast
  then show False using pq assms(2) by simp
qed

lemma first_value_envelope:
  "envelope_ok e \<Longrightarrow> first_value (print_json (enc_envelope e)) = Some (enc_envelope e, [])"
  using parse_print_json[of max_nesting "enc_envelope e" "[]"] envelope_wire_ok[of e]
  by (simp add: first_value_def wire_ok_def del: parse_value.simps)

lemma envelope_part_refused:
  assumes "envelope_ok e" and "strict_prefix p (print_json (enc_envelope e))"
  shows "receive_line p = None"
proof -
  obtain q where q: "print_json (enc_envelope e) = p @ q" "q \<noteq> []"
    using assms(2) by (auto simp: strict_prefix_def prefix_def)
  have "\<exists>ms. enc_envelope e = JObj ms" by (simp add: enc_envelope_def)
  then have "unmarshal_text p = None"
    using object_part_refused[OF _ q(2), of p] first_value_envelope[OF assms(1)] q(1) by auto
  then show ?thesis by (simp add: receive_line_def)
qed

subsection \<open>A stream that ends early\<close>

text \<open>How many of the messages arrive whole, the newline of the last one apart, in \<open>n\<close> bytes.\<close>

fun whole :: "nat \<Rightarrow> envelope list \<Rightarrow> nat" where
  "whole n [] = 0"
| "whole n (e # es) =
     (let k = length (print_json (enc_envelope e)) in if n < k then 0 else Suc (whole (n - Suc k) es))"

text \<open>The bytes of the message after those.\<close>

definition left_over :: "nat \<Rightarrow> envelope list \<Rightarrow> string" where
  "left_over n es = drop (length (wire_text (take (whole n es) es))) (take n (wire_text es))"

lemma whole_le: "whole n es \<le> length es"
  by (induction es arbitrary: n) (auto simp: Let_def)

lemma left_over_Cons:
  "left_over n (e # es) =
     (let k = length (print_json (enc_envelope e))
      in if n < k then take n (print_json (enc_envelope e)) else left_over (n - Suc k) es)"
proof -
  let ?k = "length (print_json (enc_envelope e))"
  consider "n < ?k" | "n = ?k" | m where "n = Suc (?k + m)"
    by (metis less_imp_Suc_add linorder_neqE_nat)
  then show ?thesis by cases (auto simp: left_over_def Let_def encode_line_def)
qed

lemma left_over_part:
  assumes "left_over n es \<noteq> []"
  shows "\<exists>e\<in>set es. strict_prefix (left_over n es) (print_json (enc_envelope e))"
  using assms
proof (induction es arbitrary: n)
  case Nil
  then show ?case by (simp add: left_over_def)
next
  case (Cons e es)
  show ?case
  proof (cases "n < length (print_json (enc_envelope e))")
    case True
    then have "strict_prefix (take n (print_json (enc_envelope e))) (print_json (enc_envelope e))"
      by (auto simp: strict_prefix_def take_is_prefix dest!: arg_cong[where f = length])
    with True show ?thesis by (simp add: left_over_Cons Let_def)
  next
    case False
    then show ?thesis using Cons by (auto simp: left_over_Cons Let_def)
  qed
qed

lemma drop_cr_part:
  assumes "strict_prefix p (print_json (enc_envelope e))" and "p \<noteq> []"
  shows "drop_cr p \<noteq> [] \<and> strict_prefix (drop_cr p) (print_json (enc_envelope e))"
proof -
  have "hd p = CHR ''{''" using assms by (cases p) (auto simp: strict_prefix_def prefix_def enc_envelope_def)
  then have "drop_cr p \<noteq> []" using assms(2) by (cases p; cases "tl p") (auto simp: drop_cr_def)
  moreover have "prefix (drop_cr p) p" by (simp add: drop_cr_def prefixeq_butlast)
  ultimately show ?thesis using assms(1) by (metis prefix_order.le_less_trans)
qed

lemma scan_cut:
  assumes "\<forall>e\<in>set es. newline \<notin> set (print_json (enc_envelope e)) \<and> length (print_json (enc_envelope e)) < max_token"
  shows "fst (scan_lines (take n (wire_text es))) =
    map (\<lambda>e. print_json (enc_envelope e)) (take (whole n es) es) @
    (if left_over n es = [] then [] else [drop_cr (left_over n es)])"
  using assms
proof (induction es arbitrary: n)
  case Nil
  then show ?case by (simp add: left_over_def)
next
  case (Cons e es)
  let ?t = "print_json (enc_envelope e)"
  have t: "newline \<notin> set ?t" "length ?t < max_token" using Cons.prems by auto
  consider "n < length ?t" | "n = length ?t" | m where "n = Suc (length ?t + m)"
    by (metis less_imp_Suc_add linorder_neqE_nat)
  then show ?case
  proof cases
    case 1
    have "newline \<notin> set (take n ?t)" using t(1) by (meson in_set_takeD)
    then have "fst (scan_lines (take n ?t)) = (if take n ?t = [] then [] else [drop_cr (take n ?t)])"
      using scan_rest[of "take n ?t"] t(2) 1 by (cases "take n ?t = []") (simp_all del: take_eq_Nil take_eq_Nil2)
    with 1 show ?thesis by (simp add: left_over_Cons encode_line_def Let_def)
  next
    case 2
    moreover have "whole 0 es = 0" "left_over 0 es = []"
      using print_envelope_nonempty by (cases es; simp add: left_over_def Let_def)+
    moreover have "fst (scan_lines ?t) = [?t]"
      using scan_rest[OF t] print_envelope_nonempty[of e] by (simp add: drop_cr_envelope)
    ultimately show ?thesis by (simp add: left_over_Cons encode_line_def Let_def)
  next
    case (3 m)
    have "take n (wire_text (e # es)) = ?t @ newline # take m (wire_text es)" using 3 by (simp add: encode_line_def)
    then have "fst (scan_lines (take n (wire_text (e # es)))) = ?t # fst (scan_lines (take m (wire_text es)))"
      using scan_line[OF t, of "take m (wire_text es)"] by (simp add: drop_cr_envelope)
    then show ?thesis using Cons.IH[of m] Cons.prems 3 by (simp add: left_over_Cons Let_def)
  qed
qed

definition malformed_ack :: envelope where
  "malformed_ack = error_ack '''' (''malformed JSON: '' @ error_text json_syntax_error)"

lemma replies_last: "l \<noteq> [] \<Longrightarrow> receive_line l = None \<Longrightarrow> replies h [l] s = ([malformed_ack], s)"
  by (simp add: process_line_def malformed_ack_def)

text \<open>C4: Cut a conversation after any number of bytes: the handler is given exactly the messages whose
  text had arrived whole, only the newline of the last one may be missing, and never a message
  made of a part of one. The host is sent the answers to those, and one complaint about
  malformed JSON when the cut was inside of a message.\<close>

theorem cut_conversation:
  assumes "\<And>i. fails i = None" and "\<And>i. \<not> ctx i"
    and "\<And>e. e \<in> set es \<Longrightarrow> envelope_ok e \<and> length (print_json (enc_envelope e)) < 2 ^ 20"
  shows "let (s', out) = handle_connection h fails ctx (take n (wire_text es)) s;
      (answers, s1) = converse h (take (whole n es) es) s in
    s' = s1 \<and>
    co_sent out = wire_text (answers @ (if left_over n es = [] then [] else [malformed_ack]))"
proof -
  let ?ls = "map (\<lambda>e. print_json (enc_envelope e)) (take (whole n es) es)"
  let ?last = "if left_over n es = [] then [] else [drop_cr (left_over n es)]"
  have "\<forall>e\<in>set es. newline \<notin> set (print_json (enc_envelope e)) \<and> length (print_json (enc_envelope e)) < max_token"
    using assms(3) envelope_wire_ok print_json_no_newline by (auto simp: max_token_def wire_ok_def)
  note lines = scan_cut[OF this, of n]
  have whole: "replies h ?ls s = converse h (take (whole n es) es) s"
  proof (rule replies_converse, rule ballI)
    fix e
    assume "e \<in> set (take (whole n es) es)"
    then have "e \<in> set es" by (rule in_set_takeD)
    then show "envelope_ok e" using assms(3) by simp
  qed
  have last: "replies h ?last s1 = (if left_over n es = [] then [] else [malformed_ack], s1)" for s1
  proof (cases "left_over n es = []")
    case False
    then obtain e where e: "e \<in> set es" "strict_prefix (left_over n es) (print_json (enc_envelope e))"
      using left_over_part by blast
    note d = drop_cr_part[OF e(2) False]
    then have "receive_line (drop_cr (left_over n es)) = None"
      using envelope_part_refused assms(3)[OF e(1)] by blast
    then show ?thesis using replies_last[of "drop_cr (left_over n es)" h s1] d False by (simp del: replies.simps)
  qed simp
  have r: "replies h (?ls @ ?last) s =
      (fst (converse h (take (whole n es) es) s) @ (if left_over n es = [] then [] else [malformed_ack]),
       snd (converse h (take (whole n es) es) s))"
    by (simp only: replies_append whole last fst_conv snd_conv)
  show ?thesis
    using serve_lines_ok[OF assms(1,2), where out = new_conn_out and h = h and i = 0 and ls = "?ls @ ?last" and s = s]
    unfolding handle_connection_def lines r by (simp add: new_conn_out_def split_beta)
qed

theorem cut_conversation_witness:
  "let es = [\<lparr>env_type = msg_ping, env_payload = None\<rparr>, \<lparr>env_type = msg_get_health, env_payload = None\<rparr>];
       s = (new_daemon (quiet_world []), quiet_world []);
       (s', out) = handle_connection daemon_handler (\<lambda>n. None) (\<lambda>n. False) (take 20 (wire_text es)) s
   in s' = s \<and> co_sent out = wire_text [\<lparr>env_type = msg_pong, env_payload = None\<rparr>, malformed_ack]"
proof -
  let ?es = "[\<lparr>env_type = msg_ping, env_payload = None\<rparr>, \<lparr>env_type = msg_get_health, env_payload = None\<rparr>] :: envelope list"
  let ?s = "(new_daemon (quiet_world []), quiet_world [])"
  have "utf8_ok msg_ping" "utf8_ok msg_get_health"
    by (simp_all add: msg_defs utf8_ok_def byte_of_def)
  then have ok: "envelope_ok e" if "e \<in> set ?es" for e using that by (auto simp: envelope_ok_def)
  have "map (\<lambda>e. length (print_json (enc_envelope e))) ?es = [15, 21]" by code_simp
  then have short: "length (print_json (enc_envelope e)) < 2 ^ 20" if "e \<in> set ?es" for e
    using that by auto
  have w: "whole 20 ?es = 1" "left_over 20 ?es \<noteq> []" by code_simp+
  have "converse daemon_handler (take 1 ?es) ?s = ([\<lparr>env_type = msg_pong, env_payload = None\<rparr>], ?s)"
    by (simp add: daemon_handler_def handle_message_simps)
  then show ?thesis
    using cut_conversation[of "\<lambda>n. None" "\<lambda>n. False" ?es daemon_handler 20 ?s] ok short w
    by (simp add: Let_def split_beta)
qed

end
