(* ===== verification/Programs.thy ===== *)
theory Programs
  imports Prelude
begin

text \<open>
  A goroutine as its sequence of atomic accesses to what it shares with the others: a value, or
  an access followed by the rest, which depends on what the access gave. Between two accesses any
  other goroutine may run. The server hands each message to such a program.
\<close>

datatype (dead 's, 'a) prog = Ret 'a | Act "'s \<Rightarrow> ('s, 'a) prog \<times> 's"

text \<open>An access that gives a value to the rest.\<close>

definition act :: "('s \<Rightarrow> 'b \<times> 's) \<Rightarrow> ('b \<Rightarrow> ('s, 'a) prog) \<Rightarrow> ('s, 'a) prog" where
  "act f k = Act (\<lambda>s. let (x, s1) = f s in (k x, s1))"

text \<open>The program by itself, with nothing in between.\<close>

primrec run_prog :: "('s, 'a) prog \<Rightarrow> 's \<Rightarrow> 'a \<times> 's" where
  "run_prog (Ret a) = (\<lambda>s. (a, s))"
| "run_prog (Act f) = (\<lambda>s. case map_prod run_prog id (f s) of (run, s1) \<Rightarrow> run s1)"

lemma run_prog_Ret [simp]: "run_prog (Ret a) s = (a, s)"
  by simp

lemma run_prog_Act [simp]: "run_prog (Act f) s = run_prog (fst (f s)) (snd (f s))"
  by (cases "f s") simp

lemma run_prog_act [simp]: "run_prog (act f k) s = run_prog (k (fst (f s))) (snd (f s))"
  by (simp add: act_def split: prod.split)

lemmas [simp del] = run_prog.simps

text \<open>What a program can return when the others change the state between its accesses.\<close>

inductive returns :: "('s, 'a) prog \<Rightarrow> 'a \<Rightarrow> bool" where
  ret: "returns (Ret a) a"
| act: "returns (fst (f s)) a \<Longrightarrow> returns (Act f) a"

inductive_simps returns_simps [simp]: "returns (Ret a) b" "returns (Act f) b"

lemma returns_act [simp]: "returns (act f k) b \<longleftrightarrow> (\<exists>s. returns (k (fst (f s))) b)"
  by (simp add: act_def split_beta)

lemma run_returns: "returns p (fst (run_prog p s))"
proof (induction p arbitrary: s)
  case (Act f)
  have "fst (f s) \<in> Basic_BNFs.fsts (f s)" by (simp add: Basic_BNFs.fsts.simps)
  then show ?case using Act[of "f s" "fst (f s)" "snd (f s)"] by auto
qed simp

text \<open>
  Every access of a program, from a state with the invariant \<open>I\<close>, is a step of the relation \<open>Q\<close>;
  the states between its accesses are arbitrary ones with the invariant.
\<close>

inductive acts_ok :: "('s \<Rightarrow> bool) \<Rightarrow> ('s \<Rightarrow> 's \<Rightarrow> bool) \<Rightarrow> ('s, 'a) prog \<Rightarrow> bool" for I Q where
  ok_ret: "acts_ok I Q (Ret a)"
| ok_act: "(\<And>s. I s \<Longrightarrow> Q s (snd (f s))) \<Longrightarrow> (\<And>s. I s \<Longrightarrow> acts_ok I Q (fst (f s))) \<Longrightarrow> acts_ok I Q (Act f)"

inductive_simps acts_ok_simps [simp]: "acts_ok I Q (Ret a)" "acts_ok I Q (Act f)"

lemma acts_ok_act [simp]:
  "acts_ok I Q (act f k) \<longleftrightarrow> (\<forall>s. I s \<longrightarrow> Q s (snd (f s)) \<and> acts_ok I Q (k (fst (f s))))"
  by (auto simp: act_def split_beta)

end
