(* ===== verification/Handlers.thy ===== *)
theory Handlers
  imports Daemon Programs
begin

text \<open>
  HandleMessage (pkg/stereosd.go) with its calls of the managers taken apart into accesses, as the
  goroutines of several connections make them with no lock in between. The memory of the daemon is
  shared; what is outside the process is an environment of any type, with its calls as parameters,
  since other calls and other processes may change it at any moment.
\<close>

subsection \<open>The calls of the environment\<close>

record ('e, 'f) os_calls =
  c_open :: "string \<Rightarrow> 32 word \<Rightarrow> 'e \<Rightarrow> (go_error + 'f) \<times> 'e"
  c_write :: "'f \<Rightarrow> string \<Rightarrow> 'e \<Rightarrow> go_error option \<times> 'e"
  c_rename :: "string \<Rightarrow> string \<Rightarrow> 'e \<Rightarrow> go_error option \<times> 'e"
  c_remove :: "string \<Rightarrow> 'e \<Rightarrow> go_error option \<times> 'e"
  c_mkdir_all :: "string \<Rightarrow> 32 word \<Rightarrow> 'e \<Rightarrow> go_error option \<times> 'e"
  c_chmod :: "string \<Rightarrow> 32 word \<Rightarrow> 'e \<Rightarrow> go_error option \<times> 'e"
  c_chown :: "string \<Rightarrow> int \<Rightarrow> int \<Rightarrow> 'e \<Rightarrow> go_error option \<times> 'e"
  c_run :: "commander \<Rightarrow> string \<Rightarrow> string list \<Rightarrow> 'e \<Rightarrow> go_error option \<times> 'e"
  c_user :: "ssh_key_manager \<Rightarrow> string \<Rightarrow> 'e \<Rightarrow> go_error + user_entry"
  c_now :: "'e \<Rightarrow> int"

text \<open>The calls of the world of GoOS, where an open file is known by its path.\<close>

definition world_calls :: "(world, string) os_calls" where
  "world_calls =
     \<lparr>c_open = (\<lambda>p m w. case open_trunc p m w of (Some e, w1) \<Rightarrow> (Inl e, w1) | (None, w1) \<Rightarrow> (Inr p, w1)),
      c_write = write_close, c_rename = os_rename, c_remove = os_remove, c_mkdir_all = os_mkdir_all,
      c_chmod = os_chmod, c_chown = os_chown, c_run = (\<lambda>c. c), c_user = km_user_lookup, c_now = w_clock\<rparr>"

subsection \<open>Accesses\<close>

type_synonym handled_result = "go_error + envelope option"

type_synonym 'e handling = "(daemon \<times> 'e, handled_result) prog"

definition sys :: "('e \<Rightarrow> 'b \<times> 'e) \<Rightarrow> ('b \<Rightarrow> 'e handling) \<Rightarrow> 'e handling" where
  "sys f k = act (\<lambda>s. let (x, e) = f (snd s) in (x, fst s, e)) k"

definition look :: "(daemon \<Rightarrow> 'b) \<Rightarrow> ('b \<Rightarrow> 'e handling) \<Rightarrow> 'e handling" where
  "look f k = act (\<lambda>s. (f (fst s), s)) k"

definition change :: "(daemon \<Rightarrow> daemon) \<Rightarrow> 'e handling \<Rightarrow> 'e handling" where
  "change f p = act (\<lambda>s. ((), f (fst s), snd s)) (\<lambda>x. p)"

text \<open>The call of the environment in front of the rest, with what is done when it fails.\<close>

definition try_call ::
  "('e \<Rightarrow> go_error option \<times> 'e) \<Rightarrow> (go_error \<Rightarrow> 'e handling) \<Rightarrow> 'e handling \<Rightarrow> 'e handling" where
  "try_call f failed rest = sys f (\<lambda>r. case r of Some e \<Rightarrow> failed e | None \<Rightarrow> rest)"

definition write_file_prog ::
  "('e, 'f) os_calls \<Rightarrow> string \<Rightarrow> string \<Rightarrow> 32 word \<Rightarrow> (go_error \<Rightarrow> 'e handling) \<Rightarrow> 'e handling \<Rightarrow> 'e handling" where
  "write_file_prog C p s perm failed rest =
     sys (c_open C p perm) (\<lambda>r. case r of Inl e \<Rightarrow> failed e | Inr f \<Rightarrow> try_call (c_write C f s) failed rest)"

subsection \<open>The operations\<close>

text \<open>\<open>k\<close> is what is done with the error of the operation.\<close>

definition inject_prog ::
  "('e, 'f) os_calls \<Rightarrow> secret_payload \<Rightarrow> (go_error option \<Rightarrow> 'e handling) \<Rightarrow> 'e handling" where
  "inject_prog C p k =
     (if sp_name p = '''' then k (Some (ErrMsg ''secret name cannot be empty''))
      else
        (let clean_name = base (sp_name p) in
         if clean_name \<noteq> sp_name p \<or> contains clean_name ''..'' then
           k (Some (ErrMsg (''invalid secret name: '' @ go_quote (sp_name p) @ '' (must be a simple filename)'')))
         else look d_secrets (\<lambda>sm.
           (let target = join2 (sm_secret_dir sm) clean_name; tmp = target @ ''.tmp'' in
            write_file_prog C tmp (sp_value p) (secret_mode p)
              (\<lambda>e. k (Some (ErrWrap (''write secret '' @ go_quote clean_name @ '': '') e)))
            (try_call (c_rename C tmp target)
              (\<lambda>e. sys (c_remove C tmp) (\<lambda>ignored.
                 k (Some (ErrWrap (''rename secret '' @ go_quote clean_name @ '': '') e))))
            (k None))))))"

definition install_prog ::
  "('e, 'f) os_calls \<Rightarrow> string \<Rightarrow> int \<Rightarrow> int \<Rightarrow> string \<Rightarrow> (go_error option \<Rightarrow> 'e handling) \<Rightarrow> 'e handling" where
  "install_prog C home uid gid key k =
     (let ssh_dir = join2 home ''.ssh''; keys_path = join2 ssh_dir ''authorized_keys'';
          tmp = keys_path @ ''.tmp'';
          failed = (\<lambda>msg e. k (Some (ErrWrap msg e)));
          remove_tmp = (\<lambda>msg e. sys (c_remove C tmp) (\<lambda>ignored. k (Some (ErrWrap msg e))))
      in
      try_call (c_mkdir_all C ssh_dir 0x1C0) (failed (''create '' @ ssh_dir @ '': ''))
     (try_call (c_chmod C ssh_dir 0x1C0) (failed (''chmod '' @ ssh_dir @ '': ''))
     (try_call (c_chown C ssh_dir uid gid) (failed (''chown '' @ ssh_dir @ '': ''))
     (write_file_prog C tmp (key_content key) 0x180 (failed (''write '' @ tmp @ '': ''))
     (try_call (c_chown C tmp uid gid) (remove_tmp (''chown '' @ tmp @ '': ''))
     (try_call (c_rename C tmp keys_path) (remove_tmp (''rename '' @ keys_path @ '': ''))
     (k None)))))))"

definition ssh_key_prog ::
  "('e, 'f) os_calls \<Rightarrow> ssh_key_payload \<Rightarrow> (go_error option \<Rightarrow> 'e handling) \<Rightarrow> 'e handling" where
  "ssh_key_prog C p k =
     (if kp_user p = '''' then k (Some (ErrMsg ''user cannot be empty''))
      else if kp_public_key p = '''' then k (Some (ErrMsg ''public_key cannot be empty''))
      else if \<not> is_valid_ssh_public_key (kp_public_key p) then
        k (Some (ErrMsg (''invalid SSH public key format: must start with a recognized key type '' @
           ''(e.g., ssh-ed25519)'')))
      else look d_sshkeys (\<lambda>km. sys (\<lambda>e. (c_user C km (kp_user p) e, e)) (\<lambda>r.
        (case r of
           Inl e \<Rightarrow> k (Some (ErrWrap (''lookup user '' @ go_quote (kp_user p) @ '': '') e))
         | Inr u \<Rightarrow>
        (case go_atoi (ue_uid u) of
           Inl e \<Rightarrow> k (Some (ErrWrap (''parse uid '' @ go_quote (ue_uid u) @ '': '') e))
         | Inr uid \<Rightarrow>
        (case go_atoi (ue_gid u) of
           Inl e \<Rightarrow> k (Some (ErrWrap (''parse gid '' @ go_quote (ue_gid u) @ '': '') e))
         | Inr gid \<Rightarrow> install_prog C (ue_home u) uid gid (kp_public_key p) k))))))"

text \<open>The append to the slice of mounts reads it and stores it again; what happens to its slots in
  between is in the theory MountRace.\<close>

definition track :: "mount_payload list \<Rightarrow> daemon \<Rightarrow> daemon" where
  "track ms d = d\<lparr>d_mounts := (d_mounts d)\<lparr>mm_mounts := ms\<rparr>\<rparr>"

definition mount_prog ::
  "('e, 'f) os_calls \<Rightarrow> mount_payload \<Rightarrow> (go_error option \<Rightarrow> 'e handling) \<Rightarrow> 'e handling" where
  "mount_prog C m k =
     (case mount_check m of
        Some e \<Rightarrow> k (Some e)
      | None \<Rightarrow>
          (let gp = clean (mp_guest_path m) in
           try_call (c_mkdir_all C gp 0x1ED)
             (\<lambda>e. k (Some (ErrWrap (''create mount point '' @ go_quote gp @ '': '') e)))
          (look (\<lambda>d. mm_commander (d_mounts d)) (\<lambda>c.
           try_call (c_run C c ''mount'' (mount_args m gp))
             (\<lambda>e. k (Some (ErrWrap (''mount '' @ mp_tag m @ '' at '' @ gp @ '': '') e)))
          (sys (c_run C c ''chown'' [''agent:agent'', gp]) (\<lambda>ignored.
           look (\<lambda>d. mm_mounts (d_mounts d)) (\<lambda>ms.
           change (track (ms @ [m])) (k None))))))))"

definition set_config_prog ::
  "('e, 'f) os_calls \<Rightarrow> config_payload \<Rightarrow> (go_error option \<Rightarrow> 'e handling) \<Rightarrow> 'e handling" where
  "set_config_prog C p k = write_file_prog C config_path (cp_content p) 0x1A4 (\<lambda>e. k (Some e)) (k None)"

definition health_prog :: "('e, 'f) os_calls \<Rightarrow> 'e handling" where
  "health_prog C =
     act (\<lambda>s. (\<lparr>hp_state = lm_state (d_lifecycle (fst s)), hp_agents = lm_agents (d_lifecycle (fst s)),
                hp_uptime = trunc_seconds (c_now C (snd s) - lm_boot_time (d_lifecycle (fst s)))\<rparr>, s))
       (\<lambda>h. Ret (reply msg_health (Some (enc_health h))))"

definition command_prog ::
  "message_type \<Rightarrow> string \<Rightarrow> 'p decoder \<Rightarrow> 'p \<Rightarrow> ('p \<Rightarrow> (go_error option \<Rightarrow> 'e handling) \<Rightarrow> 'e handling) \<Rightarrow>
   envelope \<Rightarrow> 'e handling" where
  "command_prog t what dec zero run env =
     (case decode_payload dec env zero of
        (p, Some e) \<Rightarrow> Ret (Inl (ErrWrap (''decode '' @ what @ '' payload: '') e))
      | (p, None) \<Rightarrow> run p (\<lambda>r. Ret (send_ack t r)))"

definition message_prog :: "('e, 'f) os_calls \<Rightarrow> envelope \<Rightarrow> 'e handling" where
  "message_prog C env =
     (let t = env_type env in
      if t = msg_ping then Ret (reply msg_pong None)
      else if t = msg_get_health then health_prog C
      else if t = msg_set_config then
        command_prog msg_set_config ''config'' dec_config zero_config (set_config_prog C) env
      else if t = msg_inject_secret then
        command_prog msg_inject_secret ''secret'' dec_secret zero_secret (inject_prog C) env
      else if t = msg_inject_ssh_key then
        command_prog msg_inject_ssh_key ''ssh key'' dec_ssh_key zero_ssh_key (ssh_key_prog C) env
      else if t = msg_mount then command_prog msg_mount ''mount'' dec_mount zero_mount (mount_prog C) env
      else if t = msg_shutdown then change (shutdown_op env) (Ret (send_ack msg_shutdown None))
      else Ret (Inl (ErrMsg (''unknown message type: '' @ t))))"

subsection \<open>By itself a call is the handler of Daemon\<close>

lemma run_access [simp]:
  "run_prog (sys f k) (d, e) = run_prog (k (fst (f e))) (d, snd (f e))"
  "run_prog (look g k) (d, e) = run_prog (k (g d)) (d, e)"
  "run_prog (change h p) (d, e) = run_prog p (h d, e)"
  by (simp_all add: sys_def look_def change_def split: prod.split)

lemma run_try_call:
  "run_prog (try_call f failed rest) (d, e) =
     (case f e of (Some x, e1) \<Rightarrow> run_prog (failed x) (d, e1) | (None, e1) \<Rightarrow> run_prog rest (d, e1))"
  by (cases "f e"; cases "fst (f e)") (simp_all add: try_call_def)

lemma run_write_file:
  "run_prog (write_file_prog world_calls p s m failed rest) (d, w) =
     (case os_write_file p s m w of (Some x, w1) \<Rightarrow> run_prog (failed x) (d, w1) | (None, w1) \<Rightarrow> run_prog rest (d, w1))"
  by (simp add: write_file_prog_def run_try_call os_write_file_def world_calls_def split: prod.split option.split)

lemma world_calls_sel [simp]:
  "c_rename world_calls = os_rename" "c_remove world_calls = os_remove" "c_mkdir_all world_calls = os_mkdir_all"
  "c_chmod world_calls = os_chmod" "c_chown world_calls = os_chown" "c_run world_calls = (\<lambda>c. c)"
  "c_user world_calls = km_user_lookup" "c_now world_calls = w_clock"
  by (simp_all add: world_calls_def)

lemma run_inject:
  "run_prog (inject_prog world_calls p k) (d, w) =
     (let (r, p1, w1) = inject (d_secrets d) p w in run_prog (k r) (d, w1))"
  by (simp add: inject_prog_def inject_def Let_def run_write_file run_try_call split: prod.split option.split)

lemma run_install:
  "run_prog (install_prog world_calls h i j key k) (d, w) =
     (let (r, w1) = install_key h i j key w in run_prog (k r) (d, w1))"
  by (simp add: install_prog_def install_key_def Let_def run_write_file run_try_call or_fail_def
      split: prod.split option.split)

lemma run_ssh_key:
  "run_prog (ssh_key_prog world_calls p k) (d, w) =
     (let (r, w1) = inject_authorized_key (d_sshkeys d) p w in run_prog (k r) (d, w1))"
  by (simp add: ssh_key_prog_def inject_authorized_key_def run_install split: sum.split)

lemma run_mount:
  "run_prog (mount_prog world_calls m k) (d, w) =
     (let (r, mm, w1) = mount (d_mounts d) m w in run_prog (k r) (d\<lparr>d_mounts := mm\<rparr>, w1))"
  by (simp add: mount_prog_def mount_def Let_def run_try_call track_def split: prod.split option.split)

lemma run_command:
  assumes "\<And>p k. run_prog (prg p k) (d, w) = (let (r, d1, w1) = run p d w in run_prog (k r) (d1, w1))"
  shows "run_prog (command_prog t what dec zero prg env) (d, w) = command t what dec zero run env d w"
  using assms by (simp add: command_prog_def command_def split: prod.split option.split)

theorem message_prog_alone: "run_prog (message_prog world_calls env) (d, w) = handle_message d env w"
  by (simp add: message_prog_def handle_message_def Let_def run_command run_write_file set_config_prog_def
      set_config_op_def run_inject inject_op_def run_ssh_key ssh_key_op_def run_mount mount_op_def
      health_prog_def health_def uptime_def split: prod.split option.split)

subsection \<open>What every access keeps, whatever the others do\<close>

text \<open>What an access can do to the memory of the daemon: store the mounts, or start one job.\<close>

definition memory_step :: "daemon \<Rightarrow> daemon \<Rightarrow> bool" where
  "memory_step d d' \<longleftrightarrow> mounts_only d d' \<and> (\<exists>ps. length ps \<le> 1 \<and> d_jobs d' = d_jobs d @ ps)"

abbreviation quiet_prog :: "'e handling \<Rightarrow> bool" where
  "quiet_prog \<equiv> acts_ok (\<lambda>s. daemon_ok (fst s)) (\<lambda>s s'. memory_step (fst s) (fst s'))"

lemma memory_step_refl [simp]: "memory_step d d"
  by (simp add: memory_step_def)

lemma quiet_sys [simp]: "(\<And>x. quiet_prog (k x)) \<Longrightarrow> quiet_prog (sys f k)"
  by (simp add: sys_def split_beta)

lemma quiet_look: "(\<And>d. daemon_ok d \<Longrightarrow> quiet_prog (k (g d))) \<Longrightarrow> quiet_prog (look g k)"
  by (simp add: look_def)

lemma quiet_change: "(\<And>d. daemon_ok d \<Longrightarrow> memory_step d (h d)) \<Longrightarrow> quiet_prog p \<Longrightarrow> quiet_prog (change h p)"
  by (simp add: change_def)

lemma quiet_try [simp]: "(\<And>x. quiet_prog (failed x)) \<Longrightarrow> quiet_prog rest \<Longrightarrow> quiet_prog (try_call f failed rest)"
  by (simp add: try_call_def split: option.split)

lemma quiet_write [simp]:
  "(\<And>x. quiet_prog (failed x)) \<Longrightarrow> quiet_prog rest \<Longrightarrow> quiet_prog (write_file_prog C p s m failed rest)"
  by (simp add: write_file_prog_def split: sum.split)

lemma quiet_ops:
  assumes "\<And>r. quiet_prog (k r)"
  shows "quiet_prog (inject_prog C p1 k)" "quiet_prog (ssh_key_prog C p2 k)" "quiet_prog (mount_prog C m k)"
    "quiet_prog (set_config_prog C p3 k)"
proof -
  show "quiet_prog (inject_prog C p1 k)" using assms by (simp add: inject_prog_def Let_def quiet_look)
  have "quiet_prog (install_prog C h i j key k)" for h i j key using assms by (simp add: install_prog_def Let_def)
  then show "quiet_prog (ssh_key_prog C p2 k)"
    using assms by (auto simp: ssh_key_prog_def intro!: quiet_look quiet_sys split: sum.split)
  show "quiet_prog (set_config_prog C p3 k)" using assms by (simp add: set_config_prog_def)
  have "quiet_prog (change (track (mm_mounts (d_mounts d) @ [m])) (k None))"
    if "mount_check m = None" "daemon_ok d" for d
    using that assms mount_check_valid[of m]
    by (intro quiet_change) (auto simp: memory_step_def mounts_only_def track_def daemon_ok_def)
  then show "quiet_prog (mount_prog C m k)"
    using assms by (auto simp: mount_prog_def Let_def intro!: quiet_look quiet_try quiet_sys split: option.split)
qed

lemma quiet_command:
  assumes "\<And>p k. (\<And>r. quiet_prog (k r)) \<Longrightarrow> quiet_prog (run p k)"
  shows "quiet_prog (command_prog t what dec zero run env)"
  using assms by (simp add: command_prog_def split: prod.split option.split)

lemma message_prog_quiet: "quiet_prog (message_prog C env)"
proof -
  have "memory_step d (shutdown_op env d)" for d
    by (simp add: memory_step_def mounts_only_ops) (simp add: shutdown_op_def start_job_def)
  then show ?thesis
    by (simp add: message_prog_def Let_def health_prog_def quiet_command quiet_ops quiet_change)
qed

subsection \<open>What a call can return, whatever the others do\<close>

definition right_result :: "envelope \<Rightarrow> handled_result \<Rightarrow> bool" where
  "right_result env x \<longleftrightarrow>
     (case x of
        Inl e \<Rightarrow> env_type env \<notin> {msg_ping, msg_get_health, msg_shutdown}
      | Inr r \<Rightarrow>
          (\<exists>v. r = Some v \<and>
             (if env_type env = msg_ping then v = \<lparr>env_type = msg_pong, env_payload = None\<rparr>
              else if env_type env = msg_get_health then
                \<exists>h. v = \<lparr>env_type = msg_health, env_payload = Some (enc_health h)\<rparr>
              else env_type env \<in> set commands \<and>
                (\<exists>a. v = ack_envelope a \<and> ap_reply_to a = env_type env \<and> (ap_ok a \<longrightarrow> ap_error a = '''')))))"

lemma returns_access [simp]:
  "returns (sys f k) x \<longleftrightarrow> (\<exists>e. returns (k (fst (f e))) x)"
  "returns (look g k) x \<longleftrightarrow> (\<exists>d. returns (k (g d)) x)"
  "returns (change h p) x \<longleftrightarrow> returns p x"
  by (simp_all add: sys_def look_def change_def split_beta)

lemma returns_try: "returns (try_call f failed rest) x \<Longrightarrow> (\<exists>e. returns (failed e) x) \<or> returns rest x"
  by (auto simp: try_call_def split: option.split_asm)

lemma returns_sum:
  "returns (case r of Inl a \<Rightarrow> f a | Inr b \<Rightarrow> g b) x \<Longrightarrow> (\<exists>a. returns (f a) x) \<or> (\<exists>b. returns (g b) x)"
  by (cases r) auto

lemma returns_write:
  "returns (write_file_prog C p s m failed rest) x \<Longrightarrow> (\<exists>e. returns (failed e) x) \<or> returns rest x"
  by (auto simp: write_file_prog_def dest!: returns_sum returns_try)

text \<open>An operation returns what is made of some error, or of none.\<close>

lemma returns_ops:
  "returns (inject_prog C p1 k) x \<Longrightarrow> \<exists>r. returns (k r) x"
  "returns (ssh_key_prog C p2 k) x \<Longrightarrow> \<exists>r. returns (k r) x"
  "returns (mount_prog C m k) x \<Longrightarrow> \<exists>r. returns (k r) x"
  "returns (set_config_prog C p3 k) x \<Longrightarrow> \<exists>r. returns (k r) x"
proof -
  show "returns (inject_prog C p1 k) x \<Longrightarrow> \<exists>r. returns (k r) x"
    by (auto simp: inject_prog_def Let_def split: if_splits dest!: returns_write returns_try)
  have "returns (install_prog C h i j key k) x \<Longrightarrow> \<exists>r. returns (k r) x" for h i j key
    by (auto simp: install_prog_def Let_def dest!: returns_write returns_try)
  then show "returns (ssh_key_prog C p2 k) x \<Longrightarrow> \<exists>r. returns (k r) x"
    by (auto simp: ssh_key_prog_def split: if_split_asm dest!: returns_sum)
  show "returns (mount_prog C m k) x \<Longrightarrow> \<exists>r. returns (k r) x"
    by (auto simp: mount_prog_def Let_def split: option.splits dest!: returns_try) blast+
  show "returns (set_config_prog C p3 k) x \<Longrightarrow> \<exists>r. returns (k r) x"
    by (auto simp: set_config_prog_def dest!: returns_write)
qed

lemma right_ack: "env_type env \<in> set commands \<Longrightarrow> right_result env (send_ack (env_type env) r)"
  by (cases r) (auto simp: right_result_def send_ack_eq commands_def ack_of_def)

lemma command_right:
  assumes "env_type env \<in> set commands - {msg_shutdown}"
    and "\<And>p k. returns (run p k) x \<Longrightarrow> \<exists>r. returns (k r) x"
    and "returns (command_prog (env_type env) what dec zero run env) x"
  shows "right_result env x"
proof -
  obtain p y where p: "decode_payload dec env zero = (p, y)" by force
  show ?thesis
  proof (cases y)
    case (Some e)
    then show ?thesis using assms(1,3) p by (auto simp: command_prog_def right_result_def commands_def)
  next
    case None
    then have "returns (run p (\<lambda>r. Ret (send_ack (env_type env) r))) x" using assms(3) p by (simp add: command_prog_def)
    from assms(2)[OF this] show ?thesis using right_ack[of env] assms(1) by auto
  qed
qed

lemma message_prog_right: "returns (message_prog C env) x \<Longrightarrow> right_result env x"
proof -
  assume r: "returns (message_prog C env) x"
  consider "env_type env = msg_ping" | "env_type env = msg_get_health"
    | "env_type env \<in> set commands - {msg_shutdown}" | "env_type env = msg_shutdown"
    | "env_type env \<notin> set (msg_ping # msg_get_health # commands)"
    by auto
  then show ?thesis
  proof cases
    case 1
    then show ?thesis using r by (auto simp: message_prog_def right_result_def)
  next
    case 2
    then show ?thesis using r by (auto simp: message_prog_def health_prog_def right_result_def)
  next
    case 3
    then consider "env_type env = msg_set_config" | "env_type env = msg_inject_secret"
      | "env_type env = msg_inject_ssh_key" | "env_type env = msg_mount"
      by (auto simp: commands_def)
    then show ?thesis
      using r command_right[OF 3 returns_ops(1)] command_right[OF 3 returns_ops(2)]
        command_right[OF 3 returns_ops(3)] command_right[OF 3 returns_ops(4)]
      by cases (simp_all add: message_prog_def)
  next
    case 4
    then show ?thesis using r right_ack[of env] by (auto simp: message_prog_def commands_def)
  next
    case 5
    then show ?thesis using r by (auto simp: message_prog_def right_result_def commands_def)
  qed
qed

end
