(* ===== verification/Serving.thy ===== *)
theory Serving
  imports Server Handlers
begin

text \<open>
  The control plane server with all its connections (pkg/server.go, Serve): the accept loop, one
  goroutine for each connection, the wait group that counts them, and the state behind the
  handler, which they share without a lock. The handler is a program of atomic accesses, and
  between two accesses of one call every other goroutine may run, another call too.
\<close>

subsection \<open>Steps of the server\<close>

text \<open>The handler: for each message the accesses of its call. By itself it is a handler of Server.\<close>

type_synonym 's handler_prog = "envelope \<Rightarrow> ('s, handled_result) prog"

definition alone :: "'s handler_prog \<Rightarrow> 's handler" where
  "alone h env s = run_prog (h env) s"

text \<open>What the loop of a connection answers to a message, from the result of the call.\<close>

fun reply_to :: "envelope \<Rightarrow> handled_result \<Rightarrow> line_reply" where
  "reply_to env (Inl e) = ErrorAck (error_ack (env_type env) (error_text e))"
| "reply_to env (Inr None) = NoResponse"
| "reply_to env (Inr (Some v)) = Response v"

text \<open>The answer to a line that is no message.\<close>

definition malformed_reply :: "go_error \<Rightarrow> line_reply" where
  "malformed_reply e = ErrorAck (error_ack '''' (''malformed JSON: '' @ error_text e))"

text \<open>The answer is written; the flag is whether the loop goes on: a failed write of a response ends it.\<close>

fun send_reply :: "(nat \<Rightarrow> nat option) \<Rightarrow> line_reply \<Rightarrow> conn_out \<Rightarrow> bool \<times> conn_out" where
  "send_reply fails (ErrorAck v) out = (True, snd (encode fails v out))"
| "send_reply fails (Response v) out = encode fails v out"
| "send_reply fails NoResponse out = (True, out)"

text \<open>
  A call of the handler: the line it is for and its message, how many accesses it has made, and
  those it still has to make. A connection: what the host sends on it, the lines still to be read, the call under way,
  what was sent back, and whether its goroutine is running.
\<close>

record 's hcall =
  hc_line :: string
  hc_env :: envelope
  hc_made :: nat
  hc_rest :: "('s, handled_result) prog"

record 's conn =
  cn_input :: string
  cn_pending :: "string list"
  cn_call :: "'s hcall option"
  cn_out :: conn_out
  cn_open :: bool

definition new_conn :: "string \<Rightarrow> 's conn" where
  "new_conn input =
     \<lparr>cn_input = input, cn_pending = fst (scan_lines input), cn_call = None, cn_out = new_conn_out, cn_open = True\<rparr>"

text \<open>One turn of the loop up to the call of the handler, which is only started here.\<close>

definition take_line :: "'s handler_prog \<Rightarrow> (nat \<Rightarrow> nat option) \<Rightarrow> string \<Rightarrow> 's conn \<Rightarrow> 's conn" where
  "take_line h fails l c =
     (if l = [] then c
      else
        (case receive_line l of
           None \<Rightarrow> c\<lparr>cn_out := snd (send_reply fails (malformed_reply json_syntax_error) (cn_out c))\<rparr>
         | Some (env, Some e) \<Rightarrow> c\<lparr>cn_out := snd (send_reply fails (malformed_reply e) (cn_out c))\<rparr>
         | Some (env, None) \<Rightarrow> c\<lparr>cn_call := Some \<lparr>hc_line = l, hc_env = env, hc_made = 0, hc_rest = h env\<rparr>\<rparr>))"

text \<open>The accept loop: accepting, waiting for the connections, or returned.\<close>

datatype serve_pc = Accepting | Waiting | Returned "go_error option"

record 's serving =
  sv_state :: 's
  sv_conns :: "'s conn list"
  sv_cancelled :: bool
  sv_wg :: nat
  sv_pc :: serve_pc

definition serving_init :: "'s \<Rightarrow> 's serving" where
  "serving_init s0 =
     \<lparr>sv_state = s0, sv_conns = [], sv_cancelled = False, sv_wg = 0, sv_pc = Accepting\<rparr>"

definition set_conn :: "nat \<Rightarrow> 's conn \<Rightarrow> 's serving \<Rightarrow> 's serving" where
  "set_conn k c s =
     s\<lparr>sv_conns := (sv_conns s)[k := c], sv_wg := (if cn_open c then sv_wg s else sv_wg s - 1)\<rparr>"

text \<open>Connection \<open>k\<close> is \<open>c\<close> and its goroutine is running.\<close>

definition running :: "'s serving \<Rightarrow> nat \<Rightarrow> 's conn \<Rightarrow> bool" where
  "running s k c \<longleftrightarrow> k < length (sv_conns s) \<and> sv_conns s ! k = c \<and> cn_open c"

inductive srv_step :: "'s handler_prog \<Rightarrow> (nat \<Rightarrow> nat \<Rightarrow> nat option) \<Rightarrow> 's serving \<Rightarrow> 's serving \<Rightarrow> bool"
  for h :: "'s handler_prog" and fails :: "nat \<Rightarrow> nat \<Rightarrow> nat option" where
  accept: "sv_pc s = Accepting \<Longrightarrow>
     srv_step h fails s (s\<lparr>sv_conns := sv_conns s @ [new_conn input], sv_wg := Suc (sv_wg s)\<rparr>)"
| accept_fails: "sv_pc s = Accepting \<Longrightarrow>
     srv_step h fails s (s\<lparr>sv_pc := (if sv_cancelled s then Waiting else Returned (Some (ErrWrap ''accept: '' e)))\<rparr>)"
| cancel: "srv_step h fails s (s\<lparr>sv_cancelled := True\<rparr>)"
| waited: "\<lbrakk>sv_pc s = Waiting; sv_wg s = 0\<rbrakk> \<Longrightarrow> srv_step h fails s (s\<lparr>sv_pc := Returned None\<rparr>)"
| conn_line: "\<lbrakk>running s k c; cn_call c = None; cn_pending c = l # ls; \<not> sv_cancelled s\<rbrakk> \<Longrightarrow>
     srv_step h fails s (set_conn k (take_line h (fails k) l (c\<lparr>cn_pending := ls\<rparr>)) s)"
| conn_access: "\<lbrakk>running s k c; cn_call c = Some b; hc_rest b = Act f; f (sv_state s) = (p, s1)\<rbrakk> \<Longrightarrow>
     srv_step h fails s
       (set_conn k (c\<lparr>cn_call := Some (b\<lparr>hc_made := Suc (hc_made b), hc_rest := p\<rparr>)\<rparr>) (s\<lparr>sv_state := s1\<rparr>))"
| conn_answer: "\<lbrakk>running s k c; cn_call c = Some b; hc_rest b = Ret r;
       send_reply (fails k) (reply_to (hc_env b) r) (cn_out c) = (go, out1)\<rbrakk> \<Longrightarrow>
     srv_step h fails s (set_conn k (c\<lparr>cn_call := None, cn_out := out1, cn_open := go\<rparr>) s)"
| conn_end: "\<lbrakk>running s k c; cn_call c = None; cn_pending c = [] \<or> sv_cancelled s\<rbrakk> \<Longrightarrow>
     srv_step h fails s (set_conn k (c\<lparr>cn_open := False\<rparr>) s)"

inductive_cases srv_stepE: "srv_step h fails s s'"

abbreviation srv_reach where
  "srv_reach h fails \<equiv> (srv_step h fails)\<^sup>*\<^sup>*"

lemma set_conn_fields [simp]:
  "sv_state (set_conn k c s) = sv_state s" "sv_conns (set_conn k c s) = (sv_conns s)[k := c]"
  "sv_cancelled (set_conn k c s) = sv_cancelled s" "sv_pc (set_conn k c s) = sv_pc s"
  "sv_wg (set_conn k c s) = (if cn_open c then sv_wg s else sv_wg s - 1)"
  by (simp_all add: set_conn_def)

lemma take_line_fields [simp]:
  "cn_input (take_line h fails l c) = cn_input c" "cn_pending (take_line h fails l c) = cn_pending c"
  "cn_open (take_line h fails l c) = cn_open c"
  by (simp_all add: take_line_def split: option.split prod.split)

subsection \<open>The wait group\<close>

definition counted :: "'s serving \<Rightarrow> bool" where
  "counted s \<longleftrightarrow> sv_wg s = length (filter cn_open (sv_conns s)) \<and>
     (sv_pc s = Waiting \<or> sv_pc s = Returned None \<longrightarrow> sv_cancelled s) \<and>
     (sv_pc s = Returned None \<longrightarrow> sv_wg s = 0)"

lemma filter_close:
  assumes "k < length cs" and "cn_open (cs ! k)"
  shows "length (filter cn_open (cs[k := c])) = length (filter cn_open cs) - (if cn_open c then 0 else 1)"
    and "0 < length (filter cn_open cs)"
proof -
  have cs: "cs = take k cs @ cs ! k # drop (Suc k) cs" "cs[k := c] = take k cs @ c # drop (Suc k) cs"
    using assms(1) by (simp_all add: id_take_nth_drop upd_conv_take_nth_drop)
  have "length (filter cn_open cs) = length (filter cn_open (take k cs)) + Suc (length (filter cn_open (drop (Suc k) cs)))"
    using assms(2) by (subst cs(1)) simp
  then show "length (filter cn_open (cs[k := c])) = length (filter cn_open cs) - (if cn_open c then 0 else 1)"
    "0 < length (filter cn_open cs)"
    by (simp_all add: cs(2))
qed

lemma counted_set: "counted s \<Longrightarrow> running s k c \<Longrightarrow> counted (set_conn k c' s)"
  using filter_close(1)[of k "sv_conns s" c'] filter_close(2)[of k "sv_conns s"]
  by (auto simp: counted_def running_def simp del: length_greater_0_conv)

lemma counted_state: "counted (s\<lparr>sv_state := s1\<rparr>) = counted s" "running (s\<lparr>sv_state := s1\<rparr>) k c = running s k c"
  by (simp_all add: counted_def running_def)

lemma counted_step: "srv_step h fails s s' \<Longrightarrow> counted s \<Longrightarrow> counted s'"
proof (induction rule: srv_step.induct)
  case (conn_access s k c b f p s1)
  then show ?case using counted_set[of "s\<lparr>sv_state := s1\<rparr>" k c] by (simp add: counted_state)
next
  case (conn_line s k c l ls)
  then show ?case using counted_set by blast
next
  case (conn_answer s k c b r go out1)
  then show ?case using counted_set by blast
next
  case (conn_end s k c)
  then show ?case using counted_set by blast
qed (auto simp: counted_def new_conn_def)

text \<open>C19: When Serve returns without an error, the context was cancelled and the goroutine of every
  connection has finished: the wait group counts them exactly. When it returns an error, it
  waits for none of them: there is a run that returns with a connection still being served.\<close>

theorem serve_waits_for_connections:
  "(srv_reach h fails (serving_init s0) s \<and> sv_pc s = Returned None \<longrightarrow>
      sv_cancelled s \<and> list_all (\<lambda>c. \<not> cn_open c) (sv_conns s)) \<and>
   (\<exists>t. srv_reach h fails (serving_init s0) t \<and> sv_pc t = Returned (Some (ErrWrap ''accept: '' e)) \<and>
      list_ex cn_open (sv_conns t))"
proof
  have "counted s" if "srv_reach h fails (serving_init s0) s"
    using that
  proof (induction rule: rtranclp_induct)
    case base
    show ?case by (simp add: counted_def serving_init_def)
  next
    case (step t u)
    then show ?case using counted_step by blast
  qed
  then show "srv_reach h fails (serving_init s0) s \<and> sv_pc s = Returned None \<longrightarrow>
      sv_cancelled s \<and> list_all (\<lambda>c. \<not> cn_open c) (sv_conns s)"
    by (auto simp: counted_def filter_empty_conv list_all_iff)
  let ?s0 = "serving_init s0"
  let ?s1 = "?s0\<lparr>sv_conns := sv_conns ?s0 @ [new_conn []], sv_wg := Suc (sv_wg ?s0)\<rparr>"
  let ?s2 = "?s1\<lparr>sv_pc := (if sv_cancelled ?s1 then Waiting else Returned (Some (ErrWrap ''accept: '' e)))\<rparr>"
  have "srv_step h fails ?s0 ?s1" by (rule accept) (simp add: serving_init_def)
  moreover have "srv_step h fails ?s1 ?s2" by (rule accept_fails) (simp add: serving_init_def)
  ultimately have "srv_reach h fails ?s0 ?s2" by (meson converse_rtranclp_into_rtranclp rtranclp.rtrancl_refl)
  then show "\<exists>t. srv_reach h fails ?s0 t \<and> sv_pc t = Returned (Some (ErrWrap ''accept: '' e)) \<and>
      list_ex cn_open (sv_conns t)"
    by (intro exI[of _ ?s2]) (simp add: serving_init_def new_conn_def)
qed

subsection \<open>What is sent on a connection\<close>

lemma process_line_alone:
  "process_line (alone h) l s =
     (case receive_line l of
        None \<Rightarrow> (malformed_reply json_syntax_error, s)
      | Some (env, Some e) \<Rightarrow> (malformed_reply e, s)
      | Some (env, None) \<Rightarrow> (let (r, s1) = run_prog (h env) s in (reply_to env r, s1)))"
  by (auto simp: process_line_def malformed_reply_def alone_def split: option.split prod.split sum.split)

lemma encode_out:
  assumes "encode fails v out = (ok, out1)"
  shows "co_err out \<Longrightarrow> out1 = out"
    and "\<not> co_err out \<Longrightarrow> prefix (co_sent out1) (co_sent out @ wire_text [v])"
    and "\<not> co_err out1 \<Longrightarrow> co_sent out1 = co_sent out @ wire_text [v]"
    and "\<not> co_err out \<Longrightarrow> (\<And>n. fails n = None) \<Longrightarrow> \<not> co_err out1 \<and> ok"
  using assms by (auto simp: encode_def take_is_prefix split: option.splits if_splits)

text \<open>The answers \<open>vs\<close> were sent, all of them while no write failed and the first bytes when one did.\<close>

definition sent_ok :: "(nat \<Rightarrow> nat option) \<Rightarrow> envelope list \<Rightarrow> conn_out \<Rightarrow> bool" where
  "sent_ok fails vs out \<longleftrightarrow> prefix (co_sent out) (wire_text vs) \<and>
     (\<not> co_err out \<longrightarrow> co_sent out = wire_text vs) \<and> ((\<forall>n. fails n = None) \<longrightarrow> \<not> co_err out)"

lemma sent_ok_encode:
  assumes "sent_ok fails vs out"
  shows "sent_ok fails (vs @ [v]) (snd (encode fails v out))"
proof -
  obtain ok out1 where e: "encode fails v out = (ok, out1)" by force
  show ?thesis
    using assms encode_out[OF e] e by (cases "co_err out") (auto simp: sent_ok_def intro: prefix_prefix)
qed

lemma sent_ok_reply: "sent_ok fails vs out \<Longrightarrow> sent_ok fails (vs @ line_envelopes r) (snd (send_reply fails r out))"
  by (cases r) (simp_all add: sent_ok_encode)

lemma send_reply_go: "snd (send_reply fails r out) = out1 \<Longrightarrow> \<exists>go. send_reply fails r out = (go, out1)"
  by (cases "send_reply fails r out") simp

text \<open>
  A connection of which the lines \<open>past\<close> are answered, by \<open>vs\<close>; the line of the call under way
  comes next.
\<close>

definition conn_at :: "(nat \<Rightarrow> nat option) \<Rightarrow> string list \<Rightarrow> envelope list \<Rightarrow> 's conn \<Rightarrow> bool" where
  "conn_at fails past vs c \<longleftrightarrow> sent_ok fails vs (cn_out c) \<and>
     (case cn_call c of
        None \<Rightarrow> past @ cn_pending c = fst (scan_lines (cn_input c))
      | Some b \<Rightarrow> hc_line b \<noteq> [] \<and> receive_line (hc_line b) = Some (hc_env b, None) \<and>
          past @ hc_line b # cn_pending c = fst (scan_lines (cn_input c)))"

lemma conn_at_new: "conn_at fails [] [] (new_conn input)"
  by (simp add: conn_at_def new_conn_def sent_ok_def new_conn_out_def)

lemma conn_at_close: "conn_at fails past vs (c\<lparr>cn_open := go\<rparr>) = conn_at fails past vs c"
  by (simp add: conn_at_def split: option.split)

text \<open>What taking a line does: it starts a call, or the line is answered at once.\<close>

lemma take_line_cases:
  assumes "conn_at fails past vs c" and "cn_call c = None" and "cn_pending c = l # ls"
  obtains (call) env where "l \<noteq> []" "receive_line l = Some (env, None)"
      "cn_call (take_line h fails l (c\<lparr>cn_pending := ls\<rparr>)) =
        Some \<lparr>hc_line = l, hc_env = env, hc_made = 0, hc_rest = h env\<rparr>"
      "conn_at fails past vs (take_line h fails l (c\<lparr>cn_pending := ls\<rparr>))"
  | (answer) r where "cn_call (take_line h fails l (c\<lparr>cn_pending := ls\<rparr>)) = None"
      "conn_at fails (past @ [l]) (vs @ line_envelopes r) (take_line h fails l (c\<lparr>cn_pending := ls\<rparr>))"
      "l = [] \<Longrightarrow> r = NoResponse"
      "\<And>s. l \<noteq> [] \<Longrightarrow> process_line (alone h) l s = (r, s)"
      "l \<noteq> [] \<Longrightarrow> receive_line l = None \<and> r = malformed_reply json_syntax_error \<or>
        (\<exists>env e. receive_line l = Some (env, Some e) \<and> r = malformed_reply e)"
proof (cases "l = []")
  case True
  then show thesis using assms by (intro answer[of NoResponse]) (simp_all add: take_line_def conn_at_def)
next
  case False
  let ?c = "c\<lparr>cn_pending := ls\<rparr>"
  have bad: thesis
    if "take_line h fails l ?c = ?c\<lparr>cn_out := snd (send_reply fails (malformed_reply e) (cn_out c))\<rparr>"
      "\<And>s. process_line (alone h) l s = (malformed_reply e, s)"
      "receive_line l = None \<and> e = json_syntax_error \<or> (\<exists>env. receive_line l = Some (env, Some e))" for e
    using that assms False sent_ok_reply[of fails vs "cn_out c" "malformed_reply e"]
    by (intro answer[of "malformed_reply e"]) (auto simp: conn_at_def)
  show thesis
  proof (cases "receive_line l")
    case None
    then show thesis
      using False by (intro bad[of json_syntax_error]) (simp_all add: take_line_def process_line_def malformed_reply_def)
  next
    case (Some x)
    obtain env y where x: "x = (env, y)" by force
    show thesis
    proof (cases y)
      case None
      then show thesis using call[of env] assms False Some x by (simp add: take_line_def conn_at_def)
    next
      case (Some e)
      then show thesis
        using False \<open>receive_line l = Some x\<close> x
        by (intro bad[of e]) (simp_all add: take_line_def process_line_def malformed_reply_def)
    qed
  qed
qed

lemma conn_at_answer:
  assumes "conn_at fails past vs c" and "cn_call c = Some b" and "snd (send_reply fails r (cn_out c)) = out1"
  shows "conn_at fails (past @ [hc_line b]) (vs @ line_envelopes r) (c\<lparr>cn_call := None, cn_out := out1, cn_open := go\<rparr>)"
  using assms sent_ok_reply[of fails vs "cn_out c" r] by (auto simp: conn_at_def)

subsection \<open>Each connection gets the answers to its own lines\<close>

text \<open>A reply the loop can give to a line, when other goroutines run between the accesses of the call.\<close>

definition line_answer :: "'s handler_prog \<Rightarrow> string \<Rightarrow> line_reply \<Rightarrow> bool" where
  "line_answer h l r \<longleftrightarrow>
     (if l = [] then r = NoResponse
      else
        (case receive_line l of
           None \<Rightarrow> r = malformed_reply json_syntax_error
         | Some (env, Some e) \<Rightarrow> r = malformed_reply e
         | Some (env, None) \<Rightarrow> \<exists>x. returns (h env) x \<and> r = reply_to env x))"

definition isolated :: "'s handler_prog \<Rightarrow> (nat \<Rightarrow> nat option) \<Rightarrow> 's conn \<Rightarrow> bool" where
  "isolated h fails c \<longleftrightarrow>
     (\<exists>past rs. conn_at fails past (concat (map line_envelopes rs)) c \<and> list_all2 (line_answer h) past rs) \<and>
     (\<forall>b x. cn_call c = Some b \<longrightarrow> returns (hc_rest b) x \<longrightarrow> returns (h (hc_env b)) x)"

lemma isolated_line:
  assumes "isolated h fails c" and "cn_call c = None" and "cn_pending c = l # ls"
  shows "isolated h fails (take_line h fails l (c\<lparr>cn_pending := ls\<rparr>))"
proof -
  obtain past rs where d: "conn_at fails past (concat (map line_envelopes rs)) c" "list_all2 (line_answer h) past rs"
    using assms(1) by (auto simp: isolated_def)
  from d(1) assms(2,3) show ?thesis
  proof (cases rule: take_line_cases[where h = h])
    case (call env)
    then show ?thesis using d(2) by (auto simp: isolated_def)
  next
    case (answer r)
    have "line_answer h l r" using answer(3,5) by (auto simp: line_answer_def)
    then have "list_all2 (line_answer h) (past @ [l]) (rs @ [r])" using d(2) by (simp add: list_all2_appendI)
    then show ?thesis using answer(1,2) unfolding isolated_def by (intro conjI exI[of _ "past @ [l]"] exI[of _ "rs @ [r]"]) simp_all
  qed
qed

lemma isolated_answer:
  assumes "isolated h fails c" and "cn_call c = Some b" and "hc_rest b = Ret x"
    and "snd (send_reply fails (reply_to (hc_env b) x) (cn_out c)) = out1"
  shows "isolated h fails (c\<lparr>cn_call := None, cn_out := out1, cn_open := go\<rparr>)"
proof -
  obtain past rs where d: "conn_at fails past (concat (map line_envelopes rs)) c" "list_all2 (line_answer h) past rs"
    using assms(1) by (auto simp: isolated_def)
  have "returns (h (hc_env b)) x" using assms(1-3) by (auto simp: isolated_def)
  then have "line_answer h (hc_line b) (reply_to (hc_env b) x)"
    using d(1) assms(2) by (auto simp: line_answer_def conn_at_def)
  then have l: "list_all2 (line_answer h) (past @ [hc_line b]) (rs @ [reply_to (hc_env b) x])"
    using d(2) by (simp add: list_all2_appendI)
  have a: "conn_at fails (past @ [hc_line b]) (concat (map line_envelopes (rs @ [reply_to (hc_env b) x])))
      (c\<lparr>cn_call := None, cn_out := out1, cn_open := go\<rparr>)"
    using conn_at_answer[OF d(1) assms(2,4), of go] by simp
  show ?thesis unfolding isolated_def using l a by (intro conjI exI) simp_all
qed

lemma isolated_access:
  assumes "isolated h fails c" and "cn_call c = Some b" and "hc_rest b = Act f" and "f s = (p, s1)"
  shows "isolated h fails (c\<lparr>cn_call := Some (b\<lparr>hc_made := n, hc_rest := p\<rparr>)\<rparr>)"
proof -
  have "returns (Act f) x" if "returns p x" for x using assms(4) that by (auto intro: exI[of _ s])
  then show ?thesis using assms(1-3) by (auto simp: isolated_def conn_at_def)
qed

lemma isolated_close: "isolated h fails c \<Longrightarrow> isolated h fails (c\<lparr>cn_open := False\<rparr>)"
  by (auto simp: isolated_def conn_at_close)

definition all_isolated :: "'s handler_prog \<Rightarrow> (nat \<Rightarrow> nat \<Rightarrow> nat option) \<Rightarrow> 's serving \<Rightarrow> bool" where
  "all_isolated h fails s \<longleftrightarrow> (\<forall>k<length (sv_conns s). isolated h (fails k) (sv_conns s ! k))"

lemma all_isolated_set:
  "all_isolated h fails s \<Longrightarrow> (isolated h (fails k) (sv_conns s ! k) \<Longrightarrow> isolated h (fails k) c) \<Longrightarrow>
   all_isolated h fails (set_conn k c (s\<lparr>sv_state := x\<rparr>))"
  by (simp add: all_isolated_def) (metis nth_list_update_eq nth_list_update_neq)

lemma all_isolated_step: "srv_step h fails s s' \<Longrightarrow> all_isolated h fails s \<Longrightarrow> all_isolated h fails s'"
proof (induction rule: srv_step.induct)
  case (accept s input)
  have "isolated h (fails k) (new_conn input)" for k
    using conn_at_new[of "fails k" input] by (auto simp: isolated_def new_conn_def intro!: exI[of _ "[]"])
  then show ?case using accept by (auto simp: all_isolated_def nth_append less_Suc_eq)
next
  case (conn_line s k c l ls)
  then show ?case
    using all_isolated_set[of h fails s k _ "sv_state s"] isolated_line[of h "fails k" c l ls] by (simp add: running_def)
next
  case (conn_access s k c b f p s1)
  then show ?case
    by (intro all_isolated_set) (auto simp: running_def intro: isolated_access)
next
  case (conn_answer s k c b r go out1)
  then show ?case
    using all_isolated_set[of h fails s k _ "sv_state s"] isolated_answer[of h "fails k" c b r out1 go] by (simp add: running_def)
next
  case (conn_end s k c)
  then show ?case
    using isolated_close[of h "fails k" c] all_isolated_set[of h fails s k _ "sv_state s"] by (simp add: running_def)
qed (simp_all add: all_isolated_def)

lemma serving_isolated: "srv_reach h fails (serving_init s0) s \<Longrightarrow> all_isolated h fails s"
proof (induction rule: rtranclp_induct)
  case base
  show ?case by (simp add: all_isolated_def serving_init_def)
next
  case (step t u)
  then show ?case using all_isolated_step by blast
qed

subsection \<open>A concrete run\<close>

theorem serve_waits_for_connections_witness:
  "list_all (\<lambda>c. \<not> cn_open c) (sv_conns ((serving_init (0 :: nat))\<lparr>sv_cancelled := True, sv_pc := Returned None\<rparr>))"
proof -
  let ?h = "\<lambda>env. Ret (Inr None)" and ?f = "\<lambda>k n. None" and ?s0 = "serving_init (0 :: nat)"
  let ?s1 = "?s0\<lparr>sv_cancelled := True\<rparr>"
  let ?s2 = "?s1\<lparr>sv_pc := (if sv_cancelled ?s1 then Waiting else Returned (Some (ErrWrap ''accept: '' (ErrnoErr EINVAL))))\<rparr>"
  let ?s3 = "?s2\<lparr>sv_pc := Returned None\<rparr>"
  have "srv_step ?h ?f ?s0 ?s1" by (rule cancel)
  moreover have "srv_step ?h ?f ?s1 ?s2" by (rule accept_fails) (simp add: serving_init_def)
  moreover have "srv_step ?h ?f ?s2 ?s3" by (rule waited) (simp_all add: serving_init_def)
  ultimately have "srv_reach ?h ?f ?s0 ?s3" by (meson converse_rtranclp_into_rtranclp rtranclp.rtrancl_refl)
  then show ?thesis using serve_waits_for_connections[of ?h ?f 0 ?s3] by simp
qed

end
