(* ===== verification/Serializable.thy ===== *)
theory Serializable
  imports Serving
begin

text \<open>
  Connections whose calls of the handler do not interrupt each other (pkg/server.go): the server
  of the theory Serving then does what the sequential server of Server does with the lines in
  some order. The condition is one on schedules, not on the program, which has no lock.
\<close>

subsection \<open>Calls that do not interrupt each other are served as if one after the other\<close>

text \<open>The sequential server on the lines of all connections, its answers marked with theirs.\<close>

fun replies_log :: "'s handler \<Rightarrow> (nat \<times> string) list \<Rightarrow> 's \<Rightarrow> (nat \<times> envelope) list \<times> 's" where
  "replies_log h [] s = ([], s)"
| "replies_log h ((k, l) # es) s =
     (if l = [] then replies_log h es s
      else
        (let (r, s1) = process_line h l s; (vs, s2) = replies_log h es s1
         in (map (Pair k) (line_envelopes r) @ vs, s2)))"

definition of_conn :: "nat \<Rightarrow> (nat \<times> 'a) list \<Rightarrow> 'a list" where
  "of_conn k es = map snd (filter (\<lambda>e. fst e = k) es)"

lemma of_conn_simps [simp]:
  "of_conn k [] = []" "of_conn k (es @ fs) = of_conn k es @ of_conn k fs"
  "of_conn k (e # es) = (if fst e = k then snd e # of_conn k es else of_conn k es)"
  "of_conn k (map (Pair j) vs) = (if j = k then vs else [])"
  by (simp_all add: of_conn_def comp_def)

lemma replies_log_Cons:
  "replies_log h ((k, l) # es) s =
     (if l = [] then replies_log h es s
      else (map (Pair k) (line_envelopes (fst (process_line h l s))) @ fst (replies_log h es (snd (process_line h l s))),
            snd (replies_log h es (snd (process_line h l s)))))"
  by (simp split: prod.split)

lemma replies_log_snoc:
  "fst (replies_log h (es @ [(k, l)]) s) = fst (replies_log h es s) @
     (if l = [] then [] else map (Pair k) (line_envelopes (fst (process_line h l (snd (replies_log h es s))))))"
  "snd (replies_log h (es @ [(k, l)]) s) =
     (if l = [] then snd (replies_log h es s) else snd (process_line h l (snd (replies_log h es s))))"
proof (induction es arbitrary: s)
  case (Cons e es)
  obtain j m where e: "e = (j, m)" by (cases e)
  case 1
  show ?case using Cons by (cases "l = []") (simp_all add: e replies_log_Cons del: replies_log.simps)
  case 2
  show ?case using Cons by (cases "l = []") (simp_all add: e replies_log_Cons del: replies_log.simps)
qed (simp_all split: prod.split)

lemma replies_log_one: "replies_log h (map (Pair k) ls) s = (map (Pair k) (fst (replies h ls s)), snd (replies h ls s))"
  by (induction ls arbitrary: s) (simp_all split: prod.split)

lemma replies_log_conns: "fst ` set (fst (replies_log h es s)) \<subseteq> fst ` set es"
proof (induction h es s rule: replies_log.induct)
  case (2 h k l es s)
  obtain r s1 where p: "process_line h l s = (r, s1)" by force
  show ?case
  proof (cases "l = []")
    case True
    then show ?thesis using 2(1) by auto
  next
    case False
    have "fst ` set (fst (replies_log h es s1)) \<subseteq> fst ` set es" using 2(2)[OF False p[symmetric] refl] .
    then show ?thesis using p False by (fastforce simp: replies_log_Cons simp del: replies_log.simps)
  qed
qed simp

lemma of_conn_fresh: "k \<notin> fst ` set es \<Longrightarrow> of_conn k es = []"
  by (force simp: of_conn_def filter_empty_conv)

text \<open>
  A call is under way between its first access and its last; no access is made while the call of
  another connection is under way. A lock around the handler would see to this; the program has
  none, and only calls that happen not to meet, or make one access, satisfy it.
\<close>

definition under_way :: "'s serving \<Rightarrow> nat \<Rightarrow> bool" where
  "under_way s k \<longleftrightarrow> k < length (sv_conns s) \<and>
     (\<exists>b f. cn_call (sv_conns s ! k) = Some b \<and> 0 < hc_made b \<and> hc_rest b = Act f)"

definition uninterrupted :: "'s serving \<Rightarrow> 's serving \<Rightarrow> bool" where
  "uninterrupted s s' \<longleftrightarrow>
     (\<forall>k b b'. k < length (sv_conns s) \<longrightarrow> cn_call (sv_conns s ! k) = Some b \<longrightarrow>
        cn_call (sv_conns s' ! k) = Some b' \<longrightarrow> hc_made b < hc_made b' \<longrightarrow> (\<forall>j. under_way s j \<longrightarrow> j = k))"

definition serial_srv_step where
  "serial_srv_step h fails s s' \<longleftrightarrow> srv_step h fails s s' \<and> uninterrupted s s'"

abbreviation serial_reach where
  "serial_reach h fails \<equiv> (serial_srv_step h fails)\<^sup>*\<^sup>*"

lemma serial_path:
  "srv_step h fails s t \<Longrightarrow> uninterrupted s t \<Longrightarrow> serial_reach h fails t u \<Longrightarrow> serial_reach h fails s u"
  by (rule converse_rtranclp_into_rtranclp) (simp_all add: serial_srv_step_def)

lemma serial_reach_reach: "serial_reach h fails s t \<Longrightarrow> srv_reach h fails s t"
  by (rule mono_rtranclp[rule_format]) (simp_all add: serial_srv_step_def)

text \<open>
  A connection, when \<open>es\<close> are the lines taken so far in the order of their calls and \<open>vs\<close> the answers
  of the sequential server to its own: a line is in \<open>es\<close> from the last access of its call on.
\<close>

definition in_order ::
  "'s handler_prog \<Rightarrow> (nat \<Rightarrow> nat option) \<Rightarrow> string list \<Rightarrow> envelope list \<Rightarrow> 's conn \<Rightarrow> bool" where
  "in_order h fails ls vs c \<longleftrightarrow>
     (case cn_call c of
        None \<Rightarrow> conn_at fails ls vs c
      | Some b \<Rightarrow>
          (case hc_rest b of
             Ret x \<Rightarrow> \<exists>past us. conn_at fails past us c \<and> ls = past @ [hc_line b] \<and>
               vs = us @ line_envelopes (reply_to (hc_env b) x)
           | Act f \<Rightarrow> conn_at fails ls vs c \<and> (hc_made b = 0 \<longrightarrow> hc_rest b = h (hc_env b))))"

definition serial :: "'s handler_prog \<Rightarrow> (nat \<Rightarrow> nat \<Rightarrow> nat option) \<Rightarrow> 's \<Rightarrow> (nat \<times> string) list \<Rightarrow> 's serving \<Rightarrow> bool" where
  "serial h fails s0 es s \<longleftrightarrow>
     (\<forall>e\<in>set es. fst e < length (sv_conns s)) \<and>
     (\<forall>k<length (sv_conns s).
        in_order h (fails k) (of_conn k es) (of_conn k (fst (replies_log (alone h) es s0))) (sv_conns s ! k)) \<and>
     (\<forall>j k. under_way s j \<longrightarrow> under_way s k \<longrightarrow> j = k) \<and>
     ((\<forall>k. \<not> under_way s k) \<longrightarrow> sv_state s = snd (replies_log (alone h) es s0)) \<and>
     (\<forall>k b. under_way s k \<longrightarrow> cn_call (sv_conns s ! k) = Some b \<longrightarrow>
        run_prog (hc_rest b) (sv_state s) = alone h (hc_env b) (snd (replies_log (alone h) es s0)))"

lemma in_order_call:
  assumes "in_order h fails ls vs c" and "cn_call c = Some b" and "hc_rest b = Act f"
  shows "conn_at fails ls vs c" "receive_line (hc_line b) = Some (hc_env b, None)" "hc_line b \<noteq> []"
    "hc_made b = 0 \<Longrightarrow> Act f = h (hc_env b)"
  using assms by (auto simp: in_order_def conn_at_def)

lemma under_way_set:
  assumes "k < length (sv_conns s)"
  shows "under_way (set_conn k c (s\<lparr>sv_state := x\<rparr>)) j \<longleftrightarrow>
    (if j = k then \<exists>b f. cn_call c = Some b \<and> 0 < hc_made b \<and> hc_rest b = Act f else under_way s j)"
  using assms by (auto simp: under_way_def nth_list_update)

text \<open>The step of a connection, with the line of its call added or not.\<close>

lemma serial_set:
  assumes "serial h fails s0 es s" and "k < length (sv_conns s)"
    and "es' = es \<or> es' = es @ [(k, l)]"
    and "in_order h (fails k) (of_conn k es') (of_conn k (fst (replies_log (alone h) es' s0))) c"
    and "\<And>j. under_way s j \<Longrightarrow> j = k \<or> snd (replies_log (alone h) es' s0) = snd (replies_log (alone h) es s0) \<and> x = sv_state s"
    and "\<And>b f. cn_call c = Some b \<Longrightarrow> 0 < hc_made b \<Longrightarrow> hc_rest b = Act f \<Longrightarrow> (\<forall>j. under_way s j \<longrightarrow> j = k) \<and>
      run_prog (hc_rest b) x = alone h (hc_env b) (snd (replies_log (alone h) es' s0))"
    and "(\<forall>j. under_way s j \<longrightarrow> j = k) \<Longrightarrow> \<not> (\<exists>b f. cn_call c = Some b \<and> 0 < hc_made b \<and> hc_rest b = Act f) \<Longrightarrow>
      x = snd (replies_log (alone h) es' s0)"
  shows "serial h fails s0 es' (set_conn k c (s\<lparr>sv_state := x\<rparr>))"
proof -
  let ?s = "set_conn k c (s\<lparr>sv_state := x\<rparr>)"
  note inv = assms(1)[unfolded serial_def]
  note uw = under_way_set[OF assms(2), of c x]
  have other: "of_conn j es' = of_conn j es"
    "of_conn j (fst (replies_log (alone h) es' s0)) = of_conn j (fst (replies_log (alone h) es s0))" if "j \<noteq> k" for j
    using assms(3) that by (auto simp: replies_log_snoc(1))
  have "in_order h (fails j) (of_conn j es') (of_conn j (fst (replies_log (alone h) es' s0))) (sv_conns ?s ! j)"
    if "j < length (sv_conns ?s)" for j
    using that inv assms(2,4) other[of j] by (cases "j = k") auto
  moreover have "\<forall>e\<in>set es'. fst e < length (sv_conns ?s)" using inv assms(2,3) by auto
  moreover have "j = i" if "under_way ?s j" "under_way ?s i" for i j
    using that inv assms(6) unfolding uw by (auto split: if_splits)
  moreover have "sv_state ?s = snd (replies_log (alone h) es' s0)" if "\<forall>j. \<not> under_way ?s j"
  proof -
    have "\<forall>j. under_way s j \<longrightarrow> j = k" using that uw by (metis (full_types))
    moreover have "\<not> (\<exists>b f. cn_call c = Some b \<and> 0 < hc_made b \<and> hc_rest b = Act f)" using that uw[of k] by simp
    ultimately show ?thesis using assms(7) by simp
  qed
  moreover have "run_prog (hc_rest b) (sv_state ?s) = alone h (hc_env b) (snd (replies_log (alone h) es' s0))"
    if u: "under_way ?s j" and b: "cn_call (sv_conns ?s ! j) = Some b" for j b
  proof (cases "j = k")
    case True
    then have c: "cn_call c = Some b" using b assms(2) by simp
    then obtain f where "0 < hc_made b" "hc_rest b = Act f" using u True uw by auto
    then show ?thesis using assms(6)[OF c] by simp
  next
    case False
    then have "under_way s j" using u by (simp add: uw)
    moreover have "cn_call (sv_conns s ! j) = Some b" using b False by simp
    ultimately have "run_prog (hc_rest b) (sv_state s) = alone h (hc_env b) (snd (replies_log (alone h) es s0))"
      using inv by blast
    then show ?thesis using assms(5)[OF \<open>under_way s j\<close>] False by simp
  qed
  ultimately show ?thesis unfolding serial_def by blast
qed

lemma log_snoc_call:
  assumes "l \<noteq> []" and "receive_line l = Some (env, None)"
    and "alone h env (snd (replies_log (alone h) es s0)) = (x, s1)"
  shows "of_conn k (fst (replies_log (alone h) (es @ [(k, l)]) s0)) =
      of_conn k (fst (replies_log (alone h) es s0)) @ line_envelopes (reply_to env x)"
    and "snd (replies_log (alone h) (es @ [(k, l)]) s0) = s1"
  using assms by (simp_all add: replies_log_snoc process_line_alone alone_def)

lemma not_started: "cn_call (sv_conns s ! k) = None \<Longrightarrow> \<not> under_way s k"
  by (simp add: under_way_def)

lemma serial_line:
  assumes "serial h fails s0 es s" and "running s k c" and "cn_call c = None" and "cn_pending c = l # ls"
  shows "\<exists>es'. serial h fails s0 es' (set_conn k (take_line h (fails k) l (c\<lparr>cn_pending := ls\<rparr>)) s)"
proof -
  let ?c = "take_line h (fails k) l (c\<lparr>cn_pending := ls\<rparr>)" and ?S = "snd (replies_log (alone h) es s0)"
  let ?vs = "of_conn k (fst (replies_log (alone h) es s0))"
  have k: "k < length (sv_conns s)" "sv_conns s ! k = c" using assms(2) by (simp_all add: running_def)
  have at: "conn_at (fails k) (of_conn k es) ?vs c"
    using assms(1,3) k by (auto simp: serial_def in_order_def)
  have idle: "\<not> under_way s k" using assms(3) k by (simp add: not_started)
  have st: "\<forall>j. \<not> under_way s j \<Longrightarrow> sv_state s = ?S" using assms(1) by (simp add: serial_def)
  have go: "\<exists>es'. serial h fails s0 es' (set_conn k ?c (s\<lparr>sv_state := sv_state s\<rparr>))"
    if "es' = es \<or> es' = es @ [(k, l)]"
      "in_order h (fails k) (of_conn k es') (of_conn k (fst (replies_log (alone h) es' s0))) ?c"
      "snd (replies_log (alone h) es' s0) = ?S" "\<And>b. cn_call ?c = Some b \<Longrightarrow> hc_made b = 0" for es'
    by (rule exI[of _ es'], rule serial_set[OF assms(1) k(1) that(1,2)])
      (use that(3,4) st idle in auto)
  show ?thesis
    using at assms(3,4)
  proof (cases rule: take_line_cases[where h = h])
    case (call env)
    show ?thesis
    proof (cases "h env")
      case (Ret x)
      then have a: "alone h env ?S = (x, ?S)" by (simp add: alone_def)
      note snoc = log_snoc_call[OF call(1,2) a]
      show ?thesis
        using go[of "es @ [(k, l)]"] call(3,4) snoc Ret by (auto simp: in_order_def)
    next
      case (Act f)
      then show ?thesis using go[of es] call(3,4) by (auto simp: in_order_def)
    qed
  next
    case (answer r)
    have "of_conn k (fst (replies_log (alone h) (es @ [(k, l)]) s0)) = ?vs @ line_envelopes r"
      "snd (replies_log (alone h) (es @ [(k, l)]) s0) = ?S"
      using answer(3,4) by (cases "l = []"; simp add: replies_log_snoc)+
    then show ?thesis using go[of "es @ [(k, l)]"] answer(1,2) by (auto simp: in_order_def)
  qed
qed

lemma serial_access:
  assumes "serial h fails s0 es s" and "running s k c" and "cn_call c = Some b" and "hc_rest b = Act f"
    and "f (sv_state s) = (p, s1)" and only: "\<And>j. under_way s j \<Longrightarrow> j = k"
  shows "\<exists>es'. serial h fails s0 es'
    (set_conn k (c\<lparr>cn_call := Some (b\<lparr>hc_made := Suc (hc_made b), hc_rest := p\<rparr>)\<rparr>) (s\<lparr>sv_state := s1\<rparr>))"
proof -
  let ?b = "b\<lparr>hc_made := Suc (hc_made b), hc_rest := p\<rparr>" and ?S = "snd (replies_log (alone h) es s0)"
  let ?c = "c\<lparr>cn_call := Some ?b\<rparr>" and ?vs = "of_conn k (fst (replies_log (alone h) es s0))"
  have k: "k < length (sv_conns s)" "sv_conns s ! k = c" using assms(2) by (simp_all add: running_def)
  have io: "in_order h (fails k) (of_conn k es) ?vs c" using assms(1) k by (auto simp: serial_def)
  note call = in_order_call[OF io assms(3,4)]
  have "run_prog (Act f) (sv_state s) = alone h (hc_env b) ?S"
  proof (cases "hc_made b = 0")
    case True
    then have "\<not> under_way s k" using assms(3) k by (simp add: under_way_def)
    then have "sv_state s = ?S" using only assms(1) unfolding serial_def by metis
    then show ?thesis using call(4)[OF True] by (simp add: alone_def)
  next
    case False
    then have "under_way s k" using assms(3,4) k by (auto simp: under_way_def)
    then show ?thesis using assms(1,3,4) k unfolding serial_def by metis
  qed
  then have run: "run_prog p s1 = alone h (hc_env b) ?S" using assms(5) by simp
  have at: "conn_at (fails k) (of_conn k es) ?vs ?c" using call(1) assms(3) by (simp add: conn_at_def)
  show ?thesis
  proof (cases p)
    case (Ret x)
    then have "alone h (hc_env b) ?S = (x, s1)" using run by simp
    note snoc = log_snoc_call[OF call(3,2) this]
    have "in_order h (fails k) (of_conn k (es @ [(k, hc_line b)]))
        (of_conn k (fst (replies_log (alone h) (es @ [(k, hc_line b)]) s0))) ?c"
      using at snoc(1) Ret by (auto simp: in_order_def)
    then show ?thesis
      by (intro exI[of _ "es @ [(k, hc_line b)]"] serial_set[OF assms(1) k(1), where l = "hc_line b"])
        (use only snoc(2) Ret in auto)
  next
    case (Act g)
    have "in_order h (fails k) (of_conn k es) ?vs ?c" using at Act by (simp add: in_order_def)
    then show ?thesis
      by (intro exI[of _ es] serial_set[OF assms(1) k(1), where l = "hc_line b"]) (use only run Act in auto)
  qed
qed

lemma serial_answer:
  assumes "serial h fails s0 es s" and "running s k c" and "cn_call c = Some b" and "hc_rest b = Ret x"
    and "send_reply (fails k) (reply_to (hc_env b) x) (cn_out c) = (go, out1)"
  shows "serial h fails s0 es (set_conn k (c\<lparr>cn_call := None, cn_out := out1, cn_open := go\<rparr>) s)"
proof -
  let ?c = "c\<lparr>cn_call := None, cn_out := out1, cn_open := go\<rparr>"
  have k: "k < length (sv_conns s)" "sv_conns s ! k = c" using assms(2) by (simp_all add: running_def)
  have "in_order h (fails k) (of_conn k es) (of_conn k (fst (replies_log (alone h) es s0))) c"
    using assms(1) k by (auto simp: serial_def)
  then obtain past us where p: "conn_at (fails k) past us c" "of_conn k es = past @ [hc_line b]"
      "of_conn k (fst (replies_log (alone h) es s0)) = us @ line_envelopes (reply_to (hc_env b) x)"
    using assms(3,4) by (auto simp: in_order_def)
  have "snd (send_reply (fails k) (reply_to (hc_env b) x) (cn_out c)) = out1" using assms(5) by simp
  then have "in_order h (fails k) (of_conn k es) (of_conn k (fst (replies_log (alone h) es s0))) ?c"
    using conn_at_answer[OF p(1) assms(3)] p(2,3) by (simp add: in_order_def)
  moreover have "\<not> under_way s k" using assms(3,4) k by (simp add: under_way_def)
  moreover have "\<forall>j. \<not> under_way s j \<Longrightarrow> sv_state s = snd (replies_log (alone h) es s0)"
    using assms(1) by (simp add: serial_def)
  ultimately have "serial h fails s0 es (set_conn k ?c (s\<lparr>sv_state := sv_state s\<rparr>))"
    by (intro serial_set[OF assms(1) k(1), where l = "hc_line b"]) auto
  then show ?thesis by simp
qed

lemma serial_close:
  assumes "serial h fails s0 es s" and "running s k c" and "cn_call c = None"
  shows "serial h fails s0 es (set_conn k (c\<lparr>cn_open := False\<rparr>) s)"
proof -
  have k: "k < length (sv_conns s)" "sv_conns s ! k = c" using assms(2) by (simp_all add: running_def)
  have "in_order h (fails k) (of_conn k es) (of_conn k (fst (replies_log (alone h) es s0))) (c\<lparr>cn_open := False\<rparr>)"
    using assms(1,3) k by (auto simp: serial_def in_order_def conn_at_close)
  moreover have "\<not> under_way s k" using assms(3) k by (simp add: not_started)
  moreover have "\<forall>j. \<not> under_way s j \<Longrightarrow> sv_state s = snd (replies_log (alone h) es s0)"
    using assms(1) by (simp add: serial_def)
  ultimately have "serial h fails s0 es (set_conn k (c\<lparr>cn_open := False\<rparr>) (s\<lparr>sv_state := sv_state s\<rparr>))"
    by (intro serial_set[OF assms(1) k(1), where l = "[]"]) (use assms(3) in auto)
  then show ?thesis by simp
qed

lemma serial_accept:
  assumes "serial h fails s0 es s"
  shows "serial h fails s0 es (s\<lparr>sv_conns := sv_conns s @ [new_conn input], sv_wg := Suc (sv_wg s)\<rparr>)"
proof -
  let ?n = "length (sv_conns s)"
  let ?s = "s\<lparr>sv_conns := sv_conns s @ [new_conn input], sv_wg := Suc (sv_wg s)\<rparr>"
  have "?n \<notin> fst ` set es" using assms by (auto simp: serial_def)
  then have "of_conn ?n es = []" "of_conn ?n (fst (replies_log (alone h) es s0)) = []"
    using replies_log_conns[of "alone h" es s0] by (blast intro: of_conn_fresh)+
  then have "in_order h (fails ?n) (of_conn ?n es) (of_conn ?n (fst (replies_log (alone h) es s0))) (new_conn input)"
    using conn_at_new[of "fails ?n" input] by (simp add: in_order_def) (simp add: new_conn_def)
  moreover have "under_way ?s j = under_way s j" for j
    by (auto simp: under_way_def nth_append new_conn_def less_Suc_eq split: if_splits)
  moreover have "sv_conns ?s ! j = sv_conns s ! j" if "under_way s j" for j
    using that by (simp add: under_way_def nth_append)
  ultimately show ?thesis using assms by (auto simp: serial_def nth_append less_Suc_eq)
qed

lemma serial_step:
  assumes "srv_step h fails s s'" and "uninterrupted s s'" and "serial h fails s0 es s"
  shows "\<exists>es'. serial h fails s0 es' s'"
  using assms
proof (induction rule: srv_step.induct)
  case (accept s input)
  show ?case by (rule exI) (rule serial_accept[OF accept.prems(2)])
next
  case (conn_line s k c l ls)
  show ?case by (rule serial_line[OF conn_line.prems(2) conn_line.hyps(1-3)])
next
  case (conn_access s k c b f p s1)
  have "under_way s j \<Longrightarrow> j = k" for j
    using conn_access.hyps(1,2) conn_access.prems(1) by (auto simp: uninterrupted_def running_def)
  then show ?case by (rule serial_access[OF conn_access.prems(2) conn_access.hyps])
next
  case (conn_answer s k c b r go out1)
  show ?case by (rule exI) (rule serial_answer[OF conn_answer.prems(2) conn_answer.hyps])
next
  case (conn_end s k c)
  show ?case by (rule exI) (rule serial_close[OF conn_end.prems(2) conn_end.hyps(1,2)])
qed (auto simp: serial_def under_way_def intro!: exI[of _ es])

lemma serving_serial: "serial_reach h fails (serving_init s0) s \<Longrightarrow> \<exists>es. serial h fails s0 es s"
proof (induction rule: rtranclp_induct)
  case base
  show ?case by (intro exI[of _ "[]"]) (simp add: serial_def serving_init_def under_way_def)
next
  case (step t u)
  then show ?case using serial_step[of h fails t u s0] by (auto simp: serial_srv_step_def)
qed

lemma in_order_sent:
  assumes "in_order h fails ls vs c"
  shows "prefix ls (fst (scan_lines (cn_input c)))" and "prefix (co_sent (cn_out c)) (wire_text vs)"
    and "cn_call c = None \<Longrightarrow> ls @ cn_pending c = fst (scan_lines (cn_input c)) \<and> sent_ok fails vs (cn_out c)"
  using assms
  by (auto simp: in_order_def conn_at_def sent_ok_def prefix_def simp flip: append_assoc split: option.splits prog.splits)
     (metis append.assoc append_Cons append_Nil)+

text \<open>C3: Connections whose calls of the handler do not interrupt each other are served as if their
  lines had come one after the other. Whatever else interleaves, there is an order of the lines
  taken, in which those of each connection are in their own order, such that the state is that
  of the sequential server whenever no call is under way, and what is sent on a connection is
  the sequential server's answers to its own lines: all of them for a connection that is between
  two lines while no write fails, the first bytes otherwise. The program does not ensure the
  condition: its handler has no lock, and calls that interrupt each other can end otherwise
  (overlapping_mounts_lose_one in the theory ServingRun).\<close>

theorem connections_serializable:
  assumes "serial_reach h fails (serving_init s0) s"
  shows "\<exists>es. ((\<forall>k. \<not> under_way s k) \<longrightarrow> sv_state s = snd (replies_log (alone h) es s0)) \<and>
    (\<forall>k<length (sv_conns s).
       let c = sv_conns s ! k; vs = of_conn k (fst (replies_log (alone h) es s0)) in
       prefix (of_conn k es) (fst (scan_lines (cn_input c))) \<and> prefix (co_sent (cn_out c)) (wire_text vs) \<and>
       (cn_call c = None \<longrightarrow> of_conn k es @ cn_pending c = fst (scan_lines (cn_input c)) \<and>
          ((\<forall>n. fails k n = None) \<longrightarrow> co_sent (cn_out c) = wire_text vs)))"
proof -
  obtain es where es: "serial h fails s0 es s" using serving_serial[OF assms] by blast
  have "in_order h (fails k) (of_conn k es) (of_conn k (fst (replies_log (alone h) es s0))) (sv_conns s ! k)"
    if "k < length (sv_conns s)" for k
    using es that by (simp add: serial_def)
  note io = in_order_sent[OF this]
  have "(\<forall>k. \<not> under_way s k) \<longrightarrow> sv_state s = snd (replies_log (alone h) es s0)"
    using es by (simp add: serial_def)
  then show ?thesis
    using io by (intro exI[of _ es]) (auto simp: Let_def sent_ok_def)
qed

subsection \<open>Concrete runs\<close>

definition ping_line :: string where
  "ping_line = print_json (enc_envelope \<lparr>env_type = msg_ping, env_payload = None\<rparr>)"

lemma ping_line_text: "ping_line = ''{\"type\":\"ping\"}''"
  by code_simp

lemma ping_line_facts:
  "scan_lines ping_line = ([ping_line], False)" "ping_line \<noteq> []"
  "receive_line ping_line = Some (\<lparr>env_type = msg_ping, env_payload = None\<rparr>, None)"
proof -
  show "scan_lines ping_line = ([ping_line], False)" by (simp add: ping_line_text max_token_def drop_cr_def)
  show "ping_line \<noteq> []" by (simp add: ping_line_text)
  show "receive_line ping_line = Some (\<lparr>env_type = msg_ping, env_payload = None\<rparr>, None)"
    unfolding ping_line_def by (rule receive_print) (simp add: envelope_ok_def, code_simp)
qed

text \<open>No call is under way when each has made no access, or its last.\<close>

definition all_idle :: "'s serving \<Rightarrow> bool" where
  "all_idle s \<longleftrightarrow> list_all (\<lambda>c. case cn_call c of None \<Rightarrow> True
     | Some b \<Rightarrow> hc_made b = 0 \<or> (case hc_rest b of Ret x \<Rightarrow> True | Act f \<Rightarrow> False)) (sv_conns s)"

lemma idle_calls: "all_idle s \<Longrightarrow> \<not> under_way s j" "all_idle s \<Longrightarrow> uninterrupted s s'"
proof -
  show n: "\<not> under_way s j" if "all_idle s" for j
    using that by (auto simp: all_idle_def under_way_def list_all_length)
  show "all_idle s \<Longrightarrow> uninterrupted s s'" using n by (simp add: uninterrupted_def)
qed

text \<open>Two pings on two connections, handled by a program that counts them with one access: both calls
  are started before the first one makes its access, and the second connection comes first.\<close>

definition counting :: "nat handler_prog" where
  "counting env = Act (\<lambda>n. (Ret (Inr None), Suc n))"

theorem connections_serializable_witness:
  "\<exists>s es. serial_reach counting (\<lambda>k n. None) (serving_init 0) s \<and> sv_state s = 2 \<and>
     2 = snd (replies_log (alone counting) es 0)"
proof -
  let ?h = "counting" and ?f = "\<lambda>k n. None" and ?s0 = "serving_init (0 :: nat)"
  let ?c0 = "new_conn ping_line :: nat conn"
  let ?s1 = "?s0\<lparr>sv_conns := sv_conns ?s0 @ [?c0], sv_wg := Suc (sv_wg ?s0)\<rparr>"
  let ?s2 = "?s1\<lparr>sv_conns := sv_conns ?s1 @ [?c0], sv_wg := Suc (sv_wg ?s1)\<rparr>"
  let ?t = "take_line ?h (\<lambda>n. None) ping_line (?c0\<lparr>cn_pending := []\<rparr>)"
  let ?b = "\<lparr>hc_line = ping_line, hc_env = \<lparr>env_type = msg_ping, env_payload = None\<rparr>, hc_made = 0,
    hc_rest = Act (\<lambda>n. (Ret (Inr None), Suc n))\<rparr> :: nat hcall"
  let ?s3 = "set_conn 0 ?t ?s2" and ?s4 = "set_conn 1 ?t (set_conn 0 ?t ?s2)"
  let ?u = "?t\<lparr>cn_call := Some (?b\<lparr>hc_made := Suc (hc_made ?b), hc_rest := Ret (Inr None)\<rparr>)\<rparr>"
  let ?s5 = "set_conn 1 ?u (?s4\<lparr>sv_state := Suc (sv_state ?s4)\<rparr>)"
  let ?s6 = "set_conn 0 ?u (?s5\<lparr>sv_state := Suc (sv_state ?s5)\<rparr>)"
  have c: "cn_open ?c0" "cn_call ?c0 = None" "cn_pending ?c0 = [ping_line]"
    by (simp_all add: new_conn_def ping_line_facts)
  have t: "cn_call ?t = Some ?b" "cn_open ?t"
    using c by (simp_all add: take_line_def ping_line_facts counting_def)
  have i: "sv_conns ?s0 = []" "\<not> sv_cancelled ?s0" "sv_state ?s0 = 0" "sv_pc ?s0 = Accepting"
    by (simp_all add: serving_init_def)
  have "srv_step ?h ?f ?s0 ?s1" "srv_step ?h ?f ?s1 ?s2" by (rule accept, simp add: i)+
  moreover have "srv_step ?h ?f ?s2 ?s3"
    by (rule conn_line[of _ 0 ?c0]) (use c i in \<open>simp_all add: running_def\<close>)
  moreover have "srv_step ?h ?f ?s3 ?s4"
    by (rule conn_line[of _ 1 ?c0]) (use c i in \<open>simp_all add: running_def\<close>)
  moreover have "srv_step ?h ?f ?s4 ?s5"
    by (rule conn_access[of _ 1 ?t ?b]) (use t i in \<open>simp_all add: running_def\<close>)
  moreover have "srv_step ?h ?f ?s5 ?s6"
    by (rule conn_access[of _ 0 ?t ?b]) (use t i in \<open>simp_all add: running_def\<close>)
  moreover have "uninterrupted ?s0 ?s1" "uninterrupted ?s1 ?s2" "uninterrupted ?s2 ?s3" "uninterrupted ?s3 ?s4"
    "uninterrupted ?s4 ?s5" "uninterrupted ?s5 ?s6"
    by (rule idle_calls(2), use c t i in \<open>simp add: all_idle_def\<close>)+
  ultimately have r: "serial_reach ?h ?f ?s0 ?s6"
    by (meson serial_path rtranclp.rtrancl_refl)
  have "all_idle ?s6" using c t i by (simp add: all_idle_def)
  then have "\<forall>k. \<not> under_way ?s6 k" using idle_calls(1) by blast
  then obtain es where "sv_state ?s6 = snd (replies_log (alone ?h) es 0)" using connections_serializable[OF r] by blast
  moreover have "sv_state ?s6 = 2" using i by simp
  ultimately have "sv_state ?s6 = 2 \<and> 2 = snd (replies_log (alone ?h) es 0)" by simp
  with r show ?thesis by blast
qed

end
