(* ===== verification/Interleaving.thy ===== *)
theory Interleaving
  imports Run
begin

text \<open>
  The goroutines of the daemon taken apart into the accesses they make to shared state: the
  main goroutine of Run (pkg/stereosd.go), the poller (pkg/agentd.go) and the shutdown jobs
  share the lifecycle manager, whose every access is one step under its mutex. The list of
  mounts, which has no mutex, is in the theory MountRace.
\<close>

subsection \<open>The lifecycle state\<close>

text \<open>Where the main goroutine is: before the transition to ready, in the select, before the
  transition to shutdown, at the end.\<close>

datatype main_pc = MReady | MSelect | MClosing | MDone

text \<open>They follow each other in this order.\<close>

fun main_rank :: "main_pc \<Rightarrow> nat" where
  "main_rank MReady = 0"
| "main_rank MSelect = 1"
| "main_rank MClosing = 2"
| "main_rank MDone = 3"

lemma main_rank_inj: "main_rank p = main_rank q \<Longrightarrow> p = q"
  by (cases p; cases q) simp_all

instantiation main_pc :: linorder
begin

definition less_eq_main_pc :: "main_pc \<Rightarrow> main_pc \<Rightarrow> bool" where
  "less_eq_main_pc p q \<longleftrightarrow> main_rank p \<le> main_rank q"

definition less_main_pc :: "main_pc \<Rightarrow> main_pc \<Rightarrow> bool" where
  "less_main_pc p q \<longleftrightarrow> main_rank p < main_rank q"

instance
  by standard (auto simp: less_eq_main_pc_def less_main_pc_def dest: main_rank_inj)

end

lemma main_pc_order [simp]:
  "MReady \<le> p" "MReady < p \<longleftrightarrow> p \<noteq> MReady" "MSelect \<le> MClosing" "MClosing \<le> MDone" "p \<le> MDone"
  by (cases p; simp add: less_eq_main_pc_def less_main_pc_def)+

text \<open>Where the poller is: waiting, with a reply, before its look at the state (with whether some
  agent runs), before the transition to healthy.\<close>

datatype poller_pc = PWait | PReply "agent_status list" | PLook bool | PSet

record lc_state =
  lc_manager :: lifecycle_manager
  lc_world :: world
  lc_main :: main_pc
  lc_poller :: poller_pc
  lc_jobs :: "shutdown_payload list"
  lc_executed :: bool

definition moved :: "lifecycle_state \<Rightarrow> string \<Rightarrow> lc_state \<Rightarrow> lc_state" where
  "moved st msg s =
     s\<lparr>lc_manager := fst (transition st msg (lc_manager s) (lc_world s)),
       lc_world := snd (transition st msg (lc_manager s) (lc_world s))\<rparr>"

inductive lc_step :: "lc_state \<Rightarrow> lc_state \<Rightarrow> bool" where
  main_ready: "lc_main s = MReady \<Longrightarrow>
     lc_step s ((moved state_ready ''all subsystems started'' s)\<lparr>lc_main := MSelect\<rparr>)"
| main_wake: "lc_main s = MSelect \<Longrightarrow> lc_step s (s\<lparr>lc_main := MClosing\<rparr>)"
| main_close: "lc_main s = MClosing \<Longrightarrow>
     lc_step s ((moved state_shutdown ''shutting down'' s)\<lparr>lc_main := MDone\<rparr>)"
| poll_reply: "lc_poller s = PWait \<Longrightarrow> lc_step s (s\<lparr>lc_poller := PReply as\<rparr>)"
| poll_replace: "lc_poller s = PReply as \<Longrightarrow>
     lc_step s (s\<lparr>lc_manager := replace_agent_statuses as (lc_manager s),
                  lc_poller := PLook (list_ex as_running as)\<rparr>)"
| poll_look: "lc_poller s = PLook b \<Longrightarrow>
     lc_step s (s\<lparr>lc_poller := (if b \<and> lm_state (lc_manager s) = state_ready then PSet else PWait)\<rparr>)"
| poll_set: "lc_poller s = PSet \<Longrightarrow>
     lc_step s ((moved state_healthy ''agents running'' s)\<lparr>lc_poller := PWait\<rparr>)"
| job_start: "lc_step s (s\<lparr>lc_jobs := p # lc_jobs s\<rparr>)"
| job_transition: "lc_jobs s = ps @ p # qs \<Longrightarrow>
     lc_step s ((moved state_shutdown (shutdown_reason (Some p)) s)\<lparr>lc_jobs := ps @ qs, lc_executed := True\<rparr>)"

inductive_cases lc_stepE: "lc_step s s'"

abbreviation lc_reach :: "lc_state \<Rightarrow> lc_state \<Rightarrow> bool" where
  "lc_reach \<equiv> lc_step\<^sup>*\<^sup>*"

text \<open>When the goroutines start.\<close>

definition lc_init :: "lifecycle_manager \<Rightarrow> world \<Rightarrow> lc_state" where
  "lc_init lm w =
     \<lparr>lc_manager = fst (transition state_booting ''runtime directories ready'' lm w), lc_world = w,
      lc_main = MReady, lc_poller = PWait, lc_jobs = [], lc_executed = False\<rparr>"

lemma moved_fields [simp]:
  "lm_state (lc_manager (moved st msg s)) = st" "lm_send (lc_manager (moved st msg s)) = lm_send (lc_manager s)"
  "lc_main (moved st msg s) = lc_main s" "lc_poller (moved st msg s) = lc_poller s"
  "lc_jobs (moved st msg s) = lc_jobs s" "lc_executed (moved st msg s) = lc_executed s"
  "lm_send (lc_manager s) = None \<Longrightarrow> lc_world (moved st msg s) = lc_world s"
  by (simp_all add: moved_def)

lemma state_distinct [simp]:
  "state_ready \<noteq> state_shutdown" "state_shutdown \<noteq> state_ready"
  "state_healthy \<noteq> state_shutdown" "state_shutdown \<noteq> state_healthy"
  "state_ready \<noteq> state_healthy" "state_healthy \<noteq> state_ready" "state_degraded \<noteq> state_booting"
  "state_degraded \<noteq> state_ready" "state_degraded \<noteq> state_healthy" "state_degraded \<noteq> state_shutdown"
  by (simp_all add: state_defs)

lemma replace_fields [simp]:
  "lm_state (replace_agent_statuses as lm) = lm_state lm" "lm_send (replace_agent_statuses as lm) = lm_send lm"
  by (simp_all add: replace_agent_statuses_def)

text \<open>The main goroutine only moves forward.\<close>

lemma main_forward_step: "lc_step s s' \<Longrightarrow> lc_main s \<le> lc_main s'"
  by (erule lc_stepE) auto

lemma main_forward: "lc_reach s s' \<Longrightarrow> lc_main s \<le> lc_main s'"
  by (induction rule: rtranclp_induct) (auto intro: order_trans main_forward_step)

text \<open>The only two ways out of the state shutdown.\<close>

lemma leaves_shutdown:
  assumes "lc_step s s'" and "lm_state (lc_manager s) = state_shutdown"
    and "lm_state (lc_manager s') \<noteq> state_shutdown"
  shows "lc_main s = MReady \<and> lm_state (lc_manager s') = state_ready \<or>
    lc_poller s = PSet \<and> lm_state (lc_manager s') = state_healthy"
  using assms by (elim lc_stepE) auto

definition settled :: "lc_state \<Rightarrow> bool" where
  "settled s \<longleftrightarrow> lm_state (lc_manager s) = state_shutdown \<and> MReady < lc_main s \<and> lc_poller s \<noteq> PSet"

lemma settled_step: "lc_step s s' \<Longrightarrow> settled s \<Longrightarrow> settled s'"
  by (erule lc_stepE) (auto simp: settled_def)

text \<open>C35: Once the state is shutdown while the main goroutine has already reported readiness and the
  poller is not between its look at the state and its transition, it is shutdown for ever,
  in every interleaving of the goroutines; and a step that leaves shutdown is one of these two.\<close>

theorem shutdown_is_final:
  assumes "lm_state (lc_manager s) = state_shutdown" and "lc_main s \<noteq> MReady" and "lc_poller s \<noteq> PSet"
    and "lc_reach s s'"
  shows "lm_state (lc_manager s') = state_shutdown"
proof -
  have "settled s'"
    using assms(4) by (induction rule: rtranclp_induct) (use assms settled_step in \<open>auto simp: settled_def\<close>)
  then show ?thesis by (simp add: settled_def)
qed

text \<open>A schedule: the poller looks at the state while it is ready; before it acts on what it saw, a
  shutdown job moves the state to shutdown, and the main goroutine ends; then the poller acts.\<close>

definition some_agent :: agent_status where
  "some_agent = \<lparr>as_name = ''a'', as_running = True, as_session = '''', as_restarts = 0, as_error = ''''\<rparr>"

lemma lc_path:
  assumes "lc_step s t" and "lc_reach t u"
  shows "lc_reach s u"
  using assms by (rule converse_rtranclp_into_rtranclp)

text \<open>C36: The poller's look at the state and its transition are two critical sections, so a shutdown
  between them is overwritten: from every start there is a schedule after which a shutdown job
  has run and the run of the daemon is over, with the daemon reported as healthy.\<close>

theorem shutdown_overwritten_by_poller:
  "\<exists>s. lc_reach (lc_init lm w) s \<and> lc_executed s \<and> lc_main s = MDone \<and>
     lm_state (lc_manager s) = state_healthy"
proof -
  let ?s0 = "lc_init lm w"
  let ?s1 = "(moved state_ready ''all subsystems started'' ?s0)\<lparr>lc_main := MSelect\<rparr>"
  let ?s2 = "?s1\<lparr>lc_poller := PReply [some_agent]\<rparr>"
  let ?s3 = "?s2\<lparr>lc_manager := replace_agent_statuses [some_agent] (lc_manager ?s2), lc_poller := PLook (list_ex as_running [some_agent])\<rparr>"
  let ?s4 = "?s3\<lparr>lc_poller := (if list_ex as_running [some_agent] \<and> lm_state (lc_manager ?s3) = state_ready then PSet else PWait)\<rparr>"
  let ?s5 = "?s4\<lparr>lc_jobs := zero_shutdown # lc_jobs ?s4\<rparr>"
  let ?s6 = "(moved state_shutdown (shutdown_reason (Some zero_shutdown)) ?s5)\<lparr>lc_jobs := [] @ [], lc_executed := True\<rparr>"
  let ?s7 = "?s6\<lparr>lc_main := MClosing\<rparr>"
  let ?s8 = "(moved state_shutdown ''shutting down'' ?s7)\<lparr>lc_main := MDone\<rparr>"
  let ?s9 = "(moved state_healthy ''agents running'' ?s8)\<lparr>lc_poller := PWait\<rparr>"
  have "lc_step ?s0 ?s1" by (rule main_ready) (simp add: lc_init_def)
  moreover have "lc_step ?s1 ?s2" by (rule poll_reply) (simp add: lc_init_def)
  moreover have "lc_step ?s2 ?s3" by (rule poll_replace) simp
  moreover have "lc_step ?s3 ?s4" by (rule poll_look) simp
  moreover have "lc_step ?s4 ?s5" by (rule job_start)
  moreover have "lc_step ?s5 ?s6" by (rule job_transition) (simp add: lc_init_def)
  moreover have "lc_step ?s6 ?s7" by (rule main_wake) simp
  moreover have "lc_step ?s7 ?s8" by (rule main_close) simp
  moreover have "lc_step ?s8 ?s9" by (rule poll_set) (simp add: some_agent_def)
  ultimately have "lc_reach ?s0 ?s9" by (meson lc_path rtranclp.rtrancl_refl)
  moreover have "lc_executed ?s9" "lc_main ?s9 = MDone" "lm_state (lc_manager ?s9) = state_healthy" by simp_all
  ultimately show ?thesis by blast
qed

text \<open>A daemon that is shutting down, with one more poll and one more job to come.\<close>

theorem shutdown_is_final_witness:
  "lm_state (lc_manager
     ((lc_init (new_lifecycle_manager (quiet_world [])) (quiet_world []))
        \<lparr>lc_manager := (new_lifecycle_manager (quiet_world []))\<lparr>lm_state := state_shutdown\<rparr>, lc_main := MDone,
         lc_poller := PReply [some_agent]\<rparr>)) = state_shutdown"
  (is "lm_state (lc_manager ?s) = _")
proof -
  let ?s0 = "?s\<lparr>lc_poller := PWait\<rparr>"
  have "lc_step ?s0 (?s0\<lparr>lc_poller := PReply [some_agent]\<rparr>)" by (rule poll_reply) simp
  then have "lc_reach ?s0 ?s" by (simp add: r_into_rtranclp)
  from shutdown_is_final[OF _ _ _ this] show ?thesis by simp
qed

end
