(* ===== verification/RunSchedule.thy ===== *)
theory RunSchedule
  imports Interleaving "HOL-Library.Multiset"
begin

text \<open>
  The two models of a run of the daemon put together: every run of the theory Run, where a
  message, a poll or a shutdown job is one step, is a schedule of the theory Interleaving,
  where the goroutines take turns between any two accesses to the lifecycle state. What holds
  for all schedules so holds for all runs; the converse is false.
\<close>

subsection \<open>The relation\<close>

text \<open>Between two steps of a run no poll is under way.\<close>

definition matches :: "main_pc \<Rightarrow> daemon \<Rightarrow> lc_state \<Rightarrow> bool" where
  "matches pc d s \<longleftrightarrow> daemon_ok d \<and> lc_main s = pc \<and> lc_poller s = PWait \<and> lc_manager s = d_lifecycle d \<and>
     mset (lc_jobs s) = mset (d_jobs d) \<and> lc_executed s = d_shutdown_requested d"

text \<open>What a transition does to the manager does not depend on the world.\<close>

lemma transition_manager: "fst (transition st msg lm w) = lm\<lparr>lm_state := st, lm_message := msg\<rparr>"
  by (simp add: transition_def Let_def split: option.split sum.split)

lemma moved_manager: "lc_manager (moved st msg s) = (lc_manager s)\<lparr>lm_state := st, lm_message := msg\<rparr>"
  by (simp add: moved_def transition_manager)

lemma transition_eq: "transition st msg lm w = (lm', w') \<Longrightarrow> lm' = lm\<lparr>lm_state := st, lm_message := msg\<rparr>"
  using transition_manager[of st msg lm w] by simp

subsection \<open>One step\<close>

text \<open>A handler leaves the lifecycle manager alone and starts at most one shutdown job.\<close>

lemma one_job:
  "\<exists>ps. length ps \<le> 1 \<and> d_jobs (fst (snd (handle_message d env w))) = d_jobs d @ ps"
  "\<exists>ps. length ps \<le> 1 \<and> d_jobs (fst (snd (serve_request rq d w))) = d_jobs d @ ps"
proof -
  show "\<exists>ps. length ps \<le> 1 \<and> d_jobs (fst (snd (handle_message d env w))) = d_jobs d @ ps"
  proof (cases "env_type env = msg_shutdown")
    case True
    then show ?thesis by (simp add: handle_message_simps shutdown_op_def start_job_def)
  next
    case False
    then show ?thesis using handle_message_jobs[of env d w] by (intro exI[of _ "[]"]) simp
  qed
  show "\<exists>ps. length ps \<le> 1 \<and> d_jobs (fst (snd (serve_request rq d w))) = d_jobs d @ ps"
  proof (cases "asks_shutdown (Request rq)")
    case True
    then obtain p where "dispatch rq = Handle RShutdown p" by (cases "dispatch rq") (auto split: route.splits)
    then show ?thesis
      by (auto simp: serve_request_def run_route_def handle_shutdown_def start_job_def Let_def split: prod.split option.split)
  next
    case False
    then show ?thesis using serve_request_jobs[of rq d w] by (intro exI[of _ "[]"]) simp
  qed
qed

lemma mounts_only_lifecycle: "mounts_only d d' \<Longrightarrow> d_lifecycle d' = d_lifecycle d"
  unfolding mounts_only_def by (cases d; cases d') simp

lemma matches_handler:
  assumes "matches pc d s" and "mounts_only d d'" and "d_jobs d' = d_jobs d @ ps" and "length ps \<le> 1"
  shows "\<exists>s'. lc_reach s s' \<and> matches pc d' s'"
proof -
  have d': "daemon_ok d'" "d_lifecycle d' = d_lifecycle d" "d_shutdown_requested d' = d_shutdown_requested d"
    using assms(1) mounts_only_ok[OF assms(2)] mounts_only_requested[OF assms(2)] mounts_only_lifecycle[OF assms(2)]
    by (simp_all add: matches_def)
  show ?thesis
  proof (cases ps)
    case Nil
    then have "matches pc d' s" using assms(1,3) d' by (simp add: matches_def)
    then show ?thesis by blast
  next
    case (Cons p qs)
    then have "matches pc d' (s\<lparr>lc_jobs := p # lc_jobs s\<rparr>)"
      using assms(1,3,4) d' by (simp add: matches_def)
    then show ?thesis using job_start[of s p] by blast
  qed
qed

lemma matches_poll:
  assumes "matches pc d s" and "poll p rep (d_lifecycle d) w = (lm, w1)"
  shows "\<exists>s'. lc_reach s s' \<and> matches pc (d\<lparr>d_lifecycle := lm\<rparr>) s'"
proof -
  have ok: "daemon_ok (d\<lparr>d_lifecycle := lm\<rparr>)"
    using assms poll_fields[of p rep "d_lifecycle d" w] by (auto simp: matches_def daemon_ok_def split: sum.splits)
  show ?thesis
  proof (cases "agentd_agents (po_client p) rep")
    case (Inl e)
    then have "lm = d_lifecycle d" using assms(2) by (simp add: poll_def)
    then have "matches pc (d\<lparr>d_lifecycle := lm\<rparr>) s" using assms(1) ok by (simp add: matches_def)
    then show ?thesis by blast
  next
    case (Inr as)
    let ?s1 = "s\<lparr>lc_poller := PReply as\<rparr>"
    let ?s2 = "?s1\<lparr>lc_manager := replace_agent_statuses as (lc_manager ?s1), lc_poller := PLook (list_ex as_running as)\<rparr>"
    let ?act = "list_ex as_running as \<and> lm_state (lc_manager ?s2) = state_ready"
    let ?s3 = "?s2\<lparr>lc_poller := (if ?act then PSet else PWait)\<rparr>"
    have "lc_step s ?s1" by (rule poll_reply) (use assms(1) in \<open>simp add: matches_def\<close>)
    moreover have "lc_step ?s1 ?s2" by (rule poll_replace) simp
    moreover have "lc_step ?s2 ?s3" by (rule poll_look) simp
    ultimately have r3: "lc_reach s ?s3" by (meson lc_path rtranclp.rtrancl_refl)
    have m: "lc_manager s = d_lifecycle d" "lm_send (d_lifecycle d) = None"
      using assms(1) by (simp_all add: matches_def daemon_ok_def)
    show ?thesis
    proof (cases ?act)
      case False
      then have "lm = replace_agent_statuses as (d_lifecycle d)"
        using assms(2) Inr m by (auto simp: poll_def Let_def split: if_splits)
      then have "matches pc (d\<lparr>d_lifecycle := lm\<rparr>) ?s3" using assms(1) ok False m by (simp add: matches_def)
      then show ?thesis using r3 by blast
    next
      case True
      let ?s4 = "(moved state_healthy ''agents running'' ?s3)\<lparr>lc_poller := PWait\<rparr>"
      have "lc_step ?s3 ?s4" by (rule poll_set) (use True in simp)
      with r3 have "lc_reach s ?s4" by simp
      moreover have "matches pc (d\<lparr>d_lifecycle := lm\<rparr>) ?s4"
        using assms Inr ok True m by (auto simp: matches_def poll_def moved_manager dest: transition_eq)
      ultimately show ?thesis by blast
    qed
  qed
qed

lemma shutdown_job_lifecycle:
  assumes "shutdown_job p d w = Some (d', w')"
  shows "d_lifecycle d' = (d_lifecycle d)\<lparr>lm_state := state_shutdown, lm_message := shutdown_reason (Some p)\<rparr>"
proof -
  obtain r mm lm w1 where e: "execute (d_shutdown d) (Some p) (d_mounts d) (d_lifecycle d) w = (r, mm, lm, w1)"
    using prod_cases4 by blast
  then have "lm = (d_lifecycle d)\<lparr>lm_state := state_shutdown, lm_message := shutdown_reason (Some p)\<rparr>"
    by (auto simp: execute_def Let_def dest!: transition_eq split: prod.splits)
  then show ?thesis
    using assms by (auto simp: shutdown_job_def e request_shutdown_def Let_def split: if_splits option.splits)
qed

lemma matches_job:
  assumes "matches pc d s" and "i < length (d_jobs d)"
    and "shutdown_job (d_jobs d ! i) (d\<lparr>d_jobs := take i (d_jobs d) @ drop (Suc i) (d_jobs d)\<rparr>) w = Some (d', w')"
  shows "\<exists>s'. lc_reach s s' \<and> matches pc d' s'"
proof -
  let ?p = "d_jobs d ! i" and ?d = "d\<lparr>d_jobs := take i (d_jobs d) @ drop (Suc i) (d_jobs d)\<rparr>"
  have "daemon_ok ?d" using assms(1) by (simp add: matches_def daemon_ok_def)
  then obtain d2 w2 where "shutdown_job ?p ?d w = Some (d2, w2)" "daemon_ok d2" "d_shutdown_requested d2" "d_jobs d2 = d_jobs ?d"
    by (rule shutdown_job_ok)
  then have d': "daemon_ok d'" "d_shutdown_requested d'" "d_jobs d' = d_jobs ?d" using assms(3) by simp_all
  have lm: "d_lifecycle d' = (d_lifecycle d)\<lparr>lm_state := state_shutdown, lm_message := shutdown_reason (Some ?p)\<rparr>"
    using shutdown_job_lifecycle[OF assms(3)] by simp
  have jobs: "d_jobs d = take i (d_jobs d) @ ?p # drop (Suc i) (d_jobs d)" by (rule id_take_nth_drop[OF assms(2)])
  have m: "mset (lc_jobs s) = mset (d_jobs d)" using assms(1) by (simp add: matches_def)
  then have "?p \<in> set (lc_jobs s)" using assms(2) by (metis mset_eq_setD nth_mem)
  then obtain ps qs where q: "lc_jobs s = ps @ ?p # qs" by (meson split_list)
  let ?s = "(moved state_shutdown (shutdown_reason (Some ?p)) s)\<lparr>lc_jobs := ps @ qs, lc_executed := True\<rparr>"
  have "mset (ps @ ?p # qs) = mset (take i (d_jobs d) @ ?p # drop (Suc i) (d_jobs d))" using m q jobs by metis
  then have "mset (ps @ qs) = mset (d_jobs ?d)" by simp
  then have "matches pc d' ?s"
    using assms(1) d' lm by (simp add: matches_def moved_manager)
  moreover have "lc_step s ?s" using q by (rule job_transition)
  ultimately show ?thesis by blast
qed

lemma matches_step:
  assumes "matches pc d s" and "daemon_step e d w = Some (d', w')"
  shows "\<exists>s'. lc_reach s s' \<and> matches pc d' s'"
proof (cases e)
  case IpcStart
  then have "matches pc d' s" using assms by (auto simp: matches_def daemon_ok_def split: prod.splits)
  then show ?thesis by blast
next
  case (Message env)
  then have d': "d' = fst (snd (handle_message d env w))" using assms(2) by simp
  show ?thesis using matches_handler[OF assms(1) handle_message_frame] one_job(1)[of d env w] unfolding d' by blast
next
  case (Request rq)
  then have d': "d' = fst (snd (serve_request rq d w))" using assms(2) by simp
  show ?thesis using matches_handler[OF assms(1) serve_request_frame] one_job(2)[of rq d w] unfolding d' by blast
next
  case (Poll rep)
  then show ?thesis using matches_poll[OF assms(1)] assms(2) by (auto split: prod.splits)
next
  case (RunJob i)
  then show ?thesis
    using matches_job[OF assms(1)] assms by (cases "i < length (d_jobs d)") auto
qed

lemma matches_steps:
  assumes "matches pc d s" and "daemon_steps es d w = Some (d', w')"
  shows "\<exists>s'. lc_reach s s' \<and> matches pc d' s'"
  using assms
proof (induction es arbitrary: d s w)
  case Nil
  then show ?case by auto
next
  case (Cons e es)
  then obtain d1 w1 where d1: "daemon_step e d w = Some (d1, w1)" "daemon_steps es d1 w1 = Some (d', w')"
    by (auto split: option.splits)
  obtain s1 where "lc_reach s s1" "matches pc d1 s1" using matches_step[OF Cons.prems(1) d1(1)] by blast
  then show ?case using Cons.IH[OF _ d1(2)] by (meson rtranclp_trans)
qed

subsection \<open>A whole run\<close>

text \<open>C9: Every run whose boot succeeds is a schedule: from the moment the goroutines start there is a
  sequence of their accesses to the lifecycle state that ends with the manager, the pending
  shutdown jobs and the request for a shutdown as the run leaves them, and with the main
  goroutine at its end, or in the select when a failed server made Run return.\<close>

theorem run_is_a_schedule:
  assumes "daemon_ok d" and "d_jobs d = []" and "\<not> d_shutdown_requested d"
    and "daemon_boot d w n = (Inr l, d1, w1, n1)" and "daemon_run d early late wk w n = Some (r, d', w')"
  shows "\<exists>s. lc_reach (lc_init (d_lifecycle d) w) s \<and> lc_manager s = d_lifecycle d' \<and>
    mset (lc_jobs s) = mset (d_jobs d') \<and> lc_executed s = d_shutdown_requested d' \<and>
    lc_main s = (if r = None then MDone else MSelect)"
proof -
  have "daemon_ok d1" by (rule daemon_boot_ok[OF assms(1,4)])
  moreover have "d1 = d\<lparr>d_lifecycle := fst (transition state_booting ''runtime directories ready'' (d_lifecycle d) w)\<rparr>"
    using assms(4) by (auto simp: daemon_boot_def transition_manager Let_def dest!: transition_eq split: prod.splits option.splits sum.splits)
  ultimately have m1: "matches MReady d1 (lc_init (d_lifecycle d) w)"
    using assms(2,3) by (simp add: matches_def lc_init_def)
  from assms(4,5) obtain d2 w2 d4 w4 where run: "daemon_steps early d1 w1 = Some (d2, w2)"
      "daemon_steps late (fst (daemon_ready d2 w2)) (snd (daemon_ready d2 w2)) = Some (d4, w4)"
      "daemon_finish wk d4 w4 = (r, d', w')"
    by (auto simp: daemon_run_def split: option.splits prod.splits)
  obtain s2 where s2: "lc_reach (lc_init (d_lifecycle d) w) s2" "matches MReady d2 s2"
    using matches_steps[OF m1 run(1)] by blast
  let ?s3 = "(moved state_ready ''all subsystems started'' s2)\<lparr>lc_main := MSelect\<rparr>"
  have "lc_step s2 ?s3" by (rule main_ready) (use s2(2) in \<open>simp add: matches_def\<close>)
  moreover have "matches MSelect (fst (daemon_ready d2 w2)) ?s3"
    using s2(2) by (auto simp: matches_def daemon_ready_def daemon_ok_def moved_manager transition_manager split_beta)
  ultimately obtain s4 where s4: "lc_reach s2 s4" "matches MSelect d4 s4"
    using matches_steps[OF _ run(2)] by (meson lc_path)
  have r4: "lc_reach (lc_init (d_lifecycle d) w) s4" using s2(1) s4(1) by (rule rtranclp_trans)
  show ?thesis
  proof (cases r)
    case (Some e)
    then have "d' = d4" using run(3) by (cases wk) (auto simp: daemon_finish_def split: prod.splits)
    then show ?thesis using r4 s4(2) Some by (auto simp: matches_def)
  next
    case None
    let ?s5 = "s4\<lparr>lc_main := MClosing\<rparr>"
    let ?s6 = "(moved state_shutdown ''shutting down'' ?s5)\<lparr>lc_main := MDone\<rparr>"
    have "lc_step s4 ?s5" by (rule main_wake) (use s4(2) in \<open>simp add: matches_def\<close>)
    moreover have "lc_step ?s5 ?s6" by (rule main_close) simp
    ultimately have "lc_reach (lc_init (d_lifecycle d) w) ?s6" using r4 by simp
    moreover have "lc_manager ?s6 = d_lifecycle d'" "d_jobs d' = d_jobs d4" "d_shutdown_requested d' = d_shutdown_requested d4"
      using run(3) None s4(2)
      by (cases wk; auto simp: daemon_finish_def matches_def moved_manager dest!: transition_eq split: prod.splits)+
    ultimately show ?thesis using s4(2) None by (intro exI[of _ ?s6]) (simp add: matches_def)
  qed
qed

theorem run_is_a_schedule_witness:
  "\<exists>s. lc_reach (lc_init (new_lifecycle_manager boot_world) boot_world) s \<and> lc_main s = MDone"
proof -
  let ?c = "default_config\<lparr>dc_listen_mode := ''tcp''\<rparr>"
  let ?d = "new_daemon_with_config ?c boot_world"
  let ?n = "\<lparr>n_open = [], n_local_cid = 2, n_calls = 0, n_fail = \<lambda>k. None\<rparr>"
  have ok: "daemon_ok ?d" by (rule new_daemon_ok)
  have d: "d_jobs ?d = []" "\<not> d_shutdown_requested ?d" "d_lifecycle ?d = new_lifecycle_manager boot_world"
    by (simp_all add: new_daemon_with_config_def Let_def)
  have c: "d_listener ?d = None" "dc_listen_mode (d_config ?d) = ''tcp''" "dc_vsock_port (d_config ?d) = default_vsock_port"
      "dc_runtime_dirs (d_config ?d) = default_runtime_dirs"
    by (simp_all add: new_daemon_with_config_def default_config_def Let_def)
  have e: "fst (ensure_runtime_dirs default_runtime_dirs boot_world) = None"
    by (rule ensure_runtime_dirs_succeeds) (use boot_facts boot_no_file in simp_all)
  then obtain w1 where w1: "ensure_runtime_dirs default_runtime_dirs boot_world = (None, w1)"
    by (cases "ensure_runtime_dirs default_runtime_dirs boot_world") simp
  obtain lm w2 where t: "transition state_booting ''runtime directories ready'' (d_lifecycle ?d) w1 = (lm, w2)" by force
  have "\<exists>l n'. create_listener (?d\<lparr>d_lifecycle := lm\<rparr>) ?n = (Inr l, n')"
    by (simp add: create_listener_def Let_def c listen_tcp_def new_tcp_listener_unfold open_call_ok default_vsock_port_def)
  then obtain l n1 where "create_listener (?d\<lparr>d_lifecycle := lm\<rparr>) ?n = (Inr l, n1)" by blast
  then have b: "daemon_boot ?d boot_world ?n = (Inr l, ?d\<lparr>d_lifecycle := lm\<rparr>, w2, n1)"
    unfolding daemon_boot_def c(4) w1 by (simp only: prod.case option.case t Let_def sum.case)
  obtain r d' w' where run: "daemon_run ?d [Poll (NoReply (ErrMsg ''refused''))] [RunJob 0] ContextDone boot_world ?n = Some (r, d', w')"
    by (rule daemon_run_total[OF ok])
  then have "r = None" using b by (auto simp: daemon_run_def daemon_finish_def split: option.splits prod.splits)
  then show ?thesis using run_is_a_schedule[OF ok d(1,2) b run] d(3) by auto
qed

end
