(* ===== verification/ServingRun.thy ===== *)
theory ServingRun
  imports Serializable RunSchedule
begin

text \<open>
  The server and the daemon put together: the handler of the theory Serving is HandleMessage with
  its accesses (theory Handlers). Whatever the calls of the connections do to each other, every
  host gets the right kind of answer to each of its messages, and the lifecycle state goes
  through a schedule of the theory Interleaving. Calls that do not interrupt each other make the
  steps of a run of the theory Run; calls that do can lose a mount.
\<close>

subsection \<open>Every interleaving\<close>

text \<open>What the accesses of the handler keep, the server keeps.\<close>

definition conns_ok :: "('s \<Rightarrow> bool) \<Rightarrow> ('s \<Rightarrow> 's \<Rightarrow> bool) \<Rightarrow> 's serving \<Rightarrow> bool" where
  "conns_ok I Q s \<longleftrightarrow> (\<forall>k<length (sv_conns s). \<forall>b. cn_call (sv_conns s ! k) = Some b \<longrightarrow> acts_ok I Q (hc_rest b))"

lemma conns_ok_set:
  "conns_ok I Q s \<Longrightarrow> (\<And>b. cn_call c = Some b \<Longrightarrow> acts_ok I Q (hc_rest b)) \<Longrightarrow> conns_ok I Q (set_conn k c (s\<lparr>sv_state := x\<rparr>))"
  by (simp add: conns_ok_def) (metis nth_list_update_eq nth_list_update_neq)

lemma conns_ok_put:
  "conns_ok I Q s \<Longrightarrow> (\<And>b. cn_call c = Some b \<Longrightarrow> acts_ok I Q (hc_rest b)) \<Longrightarrow> conns_ok I Q (set_conn k c s)"
  using conns_ok_set[of I Q s c k "sv_state s"] by simp

lemma acts_step:
  assumes "srv_step h fails s s'" and "\<And>env. acts_ok I Q (h env)" and "conns_ok I Q s" and "I (sv_state s)"
  shows "conns_ok I Q s' \<and> (sv_state s' = sv_state s \<or> Q (sv_state s) (sv_state s'))"
  using assms(1,3,4)
proof (induction rule: srv_step.induct)
  case (accept s input)
  then show ?case by (auto simp: conns_ok_def nth_append new_conn_def less_Suc_eq)
next
  case (conn_line s k c l ls)
  have "acts_ok I Q (hc_rest b)" if "cn_call (take_line h (fails k) l (c\<lparr>cn_pending := ls\<rparr>)) = Some b" for b
    using that conn_line.hyps(2) assms(2) by (auto simp: take_line_def split: if_splits option.splits prod.splits)
  then show ?case using conn_line.prems(1) by (simp add: conns_ok_put)
next
  case (conn_access s k c b f p s1)
  have "acts_ok I Q (Act f)" using conn_access by (auto simp: conns_ok_def running_def)
  then have "acts_ok I Q p" "Q (sv_state s) s1" using conn_access.hyps(4) conn_access.prems(2) by (auto dest!: spec)
  then have "conns_ok I Q (set_conn k (c\<lparr>cn_call := Some (b\<lparr>hc_made := Suc (hc_made b), hc_rest := p\<rparr>)\<rparr>)
      (s\<lparr>sv_state := s1\<rparr>))"
    by (intro conns_ok_set[OF conn_access.prems(1)]) auto
  then show ?case using \<open>Q (sv_state s) s1\<close> by simp
next
  case (conn_answer s k c b r go out1)
  then show ?case by (auto intro!: conns_ok_put)
next
  case (conn_end s k c)
  then show ?case by (auto intro!: conns_ok_put)
qed (simp_all add: conns_ok_def)

text \<open>A memory step of the daemon is a step or none of the lifecycle schedule.\<close>

lemma memory_matches:
  assumes "matches pc d t" and "memory_step d d'"
  shows "\<exists>t'. lc_reach t t' \<and> matches pc d' t'"
  using assms matches_handler[OF assms(1)] by (auto simp: memory_step_def)

text \<open>The reply to a line: one of the right kind for its message, or the complaint it calls for.\<close>

definition own_answer :: "string \<Rightarrow> line_reply \<Rightarrow> bool" where
  "own_answer l r \<longleftrightarrow>
     (if l = [] then r = NoResponse
      else
        (case receive_line l of
           None \<Rightarrow> \<exists>text. r = ErrorAck (error_ack '''' text)
         | Some (env, Some e) \<Rightarrow> \<exists>text. r = ErrorAck (error_ack '''' text)
         | Some (env, None) \<Rightarrow>
             (\<exists>v. r = Response v \<and> right_result env (Inr (Some v))) \<or>
             (\<exists>e. r = ErrorAck (error_ack (env_type env) (error_text e)) \<and> right_result env (Inl e))))"

lemma right_reply: "right_result env x \<Longrightarrow>
   (\<exists>v. reply_to env x = Response v \<and> right_result env (Inr (Some v))) \<or>
   (\<exists>e. reply_to env x = ErrorAck (error_ack (env_type env) (error_text e)) \<and> right_result env (Inl e))"
proof (cases x)
  case (Inr r)
  assume "right_result env x"
  moreover from this Inr have "r \<noteq> None" by (auto simp: right_result_def)
  ultimately show ?thesis using Inr by auto
qed auto

lemma line_answer_own: "line_answer (message_prog C) l r \<Longrightarrow> own_answer l r"
  using right_reply[OF message_prog_right[of C]]
  by (auto simp: line_answer_def own_answer_def malformed_reply_def split: if_splits option.splits prod.splits)

lemma serving_tracks:
  assumes "srv_reach (message_prog C) fails (serving_init (d, e)) s" and "matches pc d t"
  shows "\<exists>t'. lc_reach t t' \<and> matches pc (fst (sv_state s)) t' \<and>
    conns_ok (\<lambda>s. daemon_ok (fst s)) (\<lambda>s s'. memory_step (fst s) (fst s')) s \<and>
    d_lifecycle (fst (sv_state s)) = d_lifecycle d \<and>
    d_shutdown_requested (fst (sv_state s)) = d_shutdown_requested d"
  using assms(1)
proof (induction rule: rtranclp_induct)
  case base
  show ?case using assms(2) by (intro exI[of _ t]) (simp add: serving_init_def conns_ok_def)
next
  case (step s u)
  then obtain t1 where t1: "lc_reach t t1" "matches pc (fst (sv_state s)) t1"
      "conns_ok (\<lambda>s. daemon_ok (fst s)) (\<lambda>s s'. memory_step (fst s) (fst s')) s"
      "d_lifecycle (fst (sv_state s)) = d_lifecycle d"
      "d_shutdown_requested (fst (sv_state s)) = d_shutdown_requested d"
    by blast
  have "daemon_ok (fst (sv_state s))" using t1(2) by (simp add: matches_def)
  note a = acts_step[OF step.hyps(2) message_prog_quiet t1(3) this]
  then have m: "memory_step (fst (sv_state s)) (fst (sv_state u))" by auto
  then have "d_lifecycle (fst (sv_state u)) = d_lifecycle d"
    "d_shutdown_requested (fst (sv_state u)) = d_shutdown_requested d"
    using t1(4,5) mounts_only_lifecycle mounts_only_requested by (auto simp: memory_step_def)
  moreover obtain t2 where "lc_reach t1 t2" "matches pc (fst (sv_state u)) t2"
    using memory_matches[OF t1(2) m] by blast
  ultimately show ?case using a t1(1) by (meson rtranclp_trans)
qed

text \<open>C5: A daemon that serves any number of connections at the same time, with the accesses of their
  calls interleaved in any way and any behaviour of the system calls and commands. Its invariants
  hold at every moment; its lifecycle state is not touched and no shutdown is requested, while
  its pending jobs are those of a schedule of the goroutines; and on each connection the answers
  sent are those to a first part of its own lines, one for each message and in their order: a
  pong for a ping, a health report for a query, an acknowledgement that names the command, or
  the error. All bytes of them are sent while no write fails, and the first ones when one does.\<close>

theorem concurrent_serving:
  assumes "matches pc d t" and "srv_reach (message_prog C) fails (serving_init (d, e)) s"
  shows "daemon_ok (fst (sv_state s)) \<and> d_lifecycle (fst (sv_state s)) = d_lifecycle d \<and>
    d_shutdown_requested (fst (sv_state s)) = d_shutdown_requested d \<and>
    (\<exists>t'. lc_reach t t' \<and> matches pc (fst (sv_state s)) t') \<and>
    (\<forall>k<length (sv_conns s). \<exists>past rs. prefix past (fst (scan_lines (cn_input (sv_conns s ! k)))) \<and>
       list_all2 own_answer past rs \<and> sent_ok (fails k) (concat (map line_envelopes rs)) (cn_out (sv_conns s ! k)))"
proof -
  obtain t' where t': "lc_reach t t'" "matches pc (fst (sv_state s)) t'"
      "d_lifecycle (fst (sv_state s)) = d_lifecycle d" "d_shutdown_requested (fst (sv_state s)) = d_shutdown_requested d"
    using serving_tracks[OF assms(2,1)] by blast
  have "\<exists>past rs. prefix past (fst (scan_lines (cn_input c))) \<and> list_all2 own_answer past rs \<and>
      sent_ok (fails k) (concat (map line_envelopes rs)) (cn_out c)"
    if i: "isolated (message_prog C) (fails k) c" for k c
  proof -
    obtain past rs where p: "conn_at (fails k) past (concat (map line_envelopes rs)) c"
        "list_all2 (line_answer (message_prog C)) past rs"
      using i by (auto simp: isolated_def)
    have "list_all2 own_answer past rs" by (rule list_all2_mono[OF p(2)]) (rule line_answer_own)
    moreover have "prefix past (fst (scan_lines (cn_input c)))"
      using p(1) unfolding conn_at_def by (auto split: option.splits intro: prefixI[OF sym])
    ultimately show ?thesis using p(1) by (auto simp: conn_at_def)
  qed
  then have "\<forall>k<length (sv_conns s). \<exists>past rs. prefix past (fst (scan_lines (cn_input (sv_conns s ! k)))) \<and>
       list_all2 own_answer past rs \<and> sent_ok (fails k) (concat (map line_envelopes rs)) (cn_out (sv_conns s ! k))"
    using serving_isolated[OF assms(2)] by (auto simp: all_isolated_def)
  then show ?thesis using t' by (auto simp: matches_def)
qed

text \<open>One host, one ping, answered.\<close>

theorem concurrent_serving_witness:
  "\<exists>s. srv_reach (message_prog world_calls) (\<lambda>k n. None) (serving_init (new_daemon (quiet_world []), quiet_world [])) s \<and>
     sv_conns s \<noteq> [] \<and> daemon_ok (fst (sv_state s)) \<and>
     co_sent (cn_out (hd (sv_conns s))) = wire_text [\<lparr>env_type = msg_pong, env_payload = None\<rparr>]"
proof -
  let ?d = "new_daemon (quiet_world [])" and ?w = "quiet_world []" and ?h = "message_prog world_calls" and ?f = "\<lambda>k n. None"
  let ?pong = "\<lparr>env_type = msg_pong, env_payload = None\<rparr> :: envelope"
  let ?t = "\<lparr>lc_manager = d_lifecycle ?d, lc_world = ?w, lc_main = MSelect, lc_poller = PWait, lc_jobs = [], lc_executed = False\<rparr>"
  let ?s0 = "serving_init (?d, ?w)" and ?c0 = "new_conn ping_line :: (daemon \<times> world) conn"
  let ?s1 = "?s0\<lparr>sv_conns := sv_conns ?s0 @ [?c0], sv_wg := Suc (sv_wg ?s0)\<rparr>"
  let ?c1 = "take_line ?h (\<lambda>n. None) ping_line (?c0\<lparr>cn_pending := []\<rparr>)"
  let ?s2 = "set_conn 0 ?c1 ?s1"
  let ?b = "\<lparr>hc_line = ping_line, hc_env = \<lparr>env_type = msg_ping, env_payload = None\<rparr>, hc_made = 0,
    hc_rest = Ret (Inr (Some ?pong))\<rparr> :: (daemon \<times> world) hcall"
  have c: "cn_open ?c0" "cn_call ?c0 = None" "cn_pending ?c0 = [ping_line]" "cn_out ?c0 = new_conn_out"
    by (simp_all add: new_conn_def ping_line_facts)
  have c1: "cn_call ?c1 = Some ?b" "cn_open ?c1" "cn_out ?c1 = new_conn_out"
    using c by (simp_all add: take_line_def ping_line_facts message_prog_def)
  obtain go out1 where o: "send_reply (\<lambda>n. None) (Response ?pong) new_conn_out = (go, out1)" by force
  then have sent: "co_sent out1 = wire_text [?pong]" by (auto simp: encode_def new_conn_out_def)
  let ?s3 = "set_conn 0 (?c1\<lparr>cn_call := None, cn_out := out1, cn_open := go\<rparr>) ?s2"
  have i: "sv_conns ?s0 = []" "\<not> sv_cancelled ?s0" "sv_pc ?s0 = Accepting" by (simp_all add: serving_init_def)
  have "srv_step ?h ?f ?s0 ?s1" by (rule accept) (simp add: i)
  moreover have "srv_step ?h ?f ?s1 ?s2" by (rule conn_line[of _ 0 ?c0]) (use c i in \<open>simp_all add: running_def\<close>)
  moreover have "srv_step ?h ?f ?s2 ?s3"
    by (rule conn_answer[of _ 0 ?c1 ?b "Inr (Some ?pong)"]) (use c1 i o in \<open>simp_all add: running_def\<close>)
  ultimately have r: "srv_reach ?h ?f ?s0 ?s3" by (meson converse_rtranclp_into_rtranclp rtranclp.rtrancl_refl)
  have "daemon_ok ?d" unfolding new_daemon_def by (rule new_daemon_ok)
  moreover have "d_jobs ?d = []" "\<not> d_shutdown_requested ?d" by (simp_all add: new_daemon_def new_daemon_with_config_def Let_def)
  ultimately have m: "matches MSelect ?d ?t" by (simp add: matches_def)
  have "daemon_ok (fst (sv_state ?s3))" using concurrent_serving[OF m r] by blast
  moreover have "sv_conns ?s3 \<noteq> []" "co_sent (cn_out (hd (sv_conns ?s3))) = wire_text [?pong]" using i sent by simp_all
  ultimately show ?thesis using r by blast
qed

subsection \<open>Calls that do not interrupt each other make a run\<close>

text \<open>The steps of a run that the lines of the hosts stand for: a line that is no message is none.\<close>

fun message_events :: "string list \<Rightarrow> daemon_event list" where
  "message_events [] = []"
| "message_events (l # ls) =
     (case receive_line l of Some (env, None) \<Rightarrow> Message env # message_events ls | _ \<Rightarrow> message_events ls)"

lemma receive_empty: "receive_line [] = None"
  by (simp add: receive_line_def unmarshal_text_def first_value_def skip_ws_def)

lemma daemon_alone: "alone (message_prog world_calls) = daemon_handler"
proof (intro ext)
  fix env and s :: "daemon \<times> world"
  show "alone (message_prog world_calls) env s = daemon_handler env s"
    by (cases s) (simp add: alone_def daemon_handler_def message_prog_alone split_beta)
qed

lemma line_is_a_step:
  "snd (process_line daemon_handler l (d, w)) =
     (case receive_line l of Some (env, None) \<Rightarrow> snd (handle_message d env w) | _ \<Rightarrow> (d, w))"
  by (auto simp: process_line_def daemon_handler_def split: option.split prod.split sum.split)

lemma log_is_a_run:
  "daemon_steps (message_events (map snd es)) d w = Some (snd (replies_log daemon_handler es (d, w)))"
proof (induction es arbitrary: d w)
  case (Cons e es)
  obtain k l where e: "e = (k, l)" by force
  show ?case
  proof (cases "l = []")
    case True
    then show ?thesis using Cons by (simp add: e receive_empty replies_log_Cons del: replies_log.simps)
  next
    case False
    obtain d1 w1 where p: "snd (process_line daemon_handler l (d, w)) = (d1, w1)" by force
    then have "daemon_steps (message_events (map snd (e # es))) d w = daemon_steps (message_events (map snd es)) d1 w1"
      using line_is_a_step[of l d w] by (auto simp: e split: option.splits prod.splits)
    then show ?thesis using Cons[of d1 w1] False p by (simp add: e replies_log_Cons del: replies_log.simps)
  qed
qed simp

text \<open>While no call is interrupted, the daemon that serves connections makes the steps of a run, one for
  each message in the order of their calls.\<close>

theorem serving_is_a_run:
  assumes "serial_reach (message_prog world_calls) fails (serving_init (d, w)) s" and "\<And>k. \<not> under_way s k"
  shows "\<exists>es :: (nat \<times> string) list. daemon_steps (message_events (map snd es)) d w = Some (sv_state s)"
proof -
  obtain es where "serial (message_prog world_calls) fails (d, w) es s" using serving_serial[OF assms(1)] by blast
  then have "sv_state s = snd (replies_log daemon_handler es (d, w))" using assms(2) by (simp add: serial_def daemon_alone)
  then show ?thesis using log_is_a_run[of es d w] by (intro exI[of _ es]) simp
qed

subsection \<open>Calls that do can lose a mount\<close>

text \<open>Some accesses of a program, with nothing in between.\<close>

fun advance :: "nat \<Rightarrow> ('s, 'a) prog \<Rightarrow> 's \<Rightarrow> ('s, 'a) prog \<times> 's" where
  "advance (Suc n) (Act f) s = advance n (fst (f s)) (snd (f s))"
| "advance n p s = (p, s)"

lemma advance_access [simp]:
  "advance (Suc n) (sys f k) (d, e) = advance n (k (fst (f e))) (d, snd (f e))"
  "advance (Suc n) (look g k) (d, e) = advance n (k (g d)) (d, e)"
  "advance (Suc n) (change h p) (d, e) = advance n p (h d, e)"
  "advance 0 p s = (p, s)"
  by (simp_all add: sys_def look_def change_def act_def split_beta)

lemma advance_mount:
  assumes "mount_check m = None" and "\<And>p x e. fst (c_mkdir_all C p x e) = None" and "\<And>c n xs e. fst (c_run C c n xs e) = None"
  shows "\<exists>e1. advance 5 (mount_prog C m k) (d, e) = (change (track (mm_mounts (d_mounts d) @ [m])) (k None), (d, e1))"
  using assms by (simp add: mount_prog_def Let_def try_call_def eval_nat_numeral)

text \<open>The accesses as steps of the server.\<close>

definition call_of :: "'s serving \<Rightarrow> nat \<Rightarrow> ('s, handled_result) prog option" where
  "call_of s k = (if k < length (sv_conns s) \<and> cn_open (sv_conns s ! k) then map_option hc_rest (cn_call (sv_conns s ! k)) else None)"

lemma access_step:
  assumes "call_of s k = Some (Act f)"
  shows "\<exists>u. srv_step h fails s u \<and> call_of u = (call_of s)(k \<mapsto> fst (f (sv_state s))) \<and> sv_state u = snd (f (sv_state s))"
proof -
  let ?c = "sv_conns s ! k" and ?p = "fst (f (sv_state s))" and ?x = "snd (f (sv_state s))"
  obtain b where b: "k < length (sv_conns s)" "cn_open ?c" "cn_call ?c = Some b" "hc_rest b = Act f"
    using assms by (auto simp: call_of_def split: if_splits)
  let ?u = "set_conn k (?c\<lparr>cn_call := Some (b\<lparr>hc_made := Suc (hc_made b), hc_rest := ?p\<rparr>)\<rparr>) (s\<lparr>sv_state := ?x\<rparr>)"
  have "srv_step h fails s ?u" by (rule conn_access[OF _ b(3,4)]) (use b in \<open>simp_all add: running_def\<close>)
  moreover have "call_of ?u = (call_of s)(k \<mapsto> ?p)"
    using b by (auto simp: call_of_def fun_eq_iff nth_list_update)
  ultimately show ?thesis by (intro exI[of _ ?u]) simp
qed

lemma accesses:
  "call_of s k = Some p \<Longrightarrow> advance n p (sv_state s) = (q, x) \<Longrightarrow>
   \<exists>u. srv_reach h fails s u \<and> call_of u = (call_of s)(k \<mapsto> q) \<and> sv_state u = x"
proof (induction n p "sv_state s" arbitrary: s rule: advance.induct)
  case (1 n f)
  obtain u where u: "srv_step h fails s u" "call_of u = (call_of s)(k \<mapsto> fst (f (sv_state s)))" "sv_state u = snd (f (sv_state s))"
    using access_step[OF "1.prems"(1)] by blast
  then obtain v where "srv_reach h fails u v" "call_of v = (call_of u)(k \<mapsto> q)" "sv_state v = x"
    using "1.hyps"[of u] "1.prems"(2) by auto
  then show ?case using u(1,2) by (metis converse_rtranclp_into_rtranclp fun_upd_upd)
qed (auto simp: fun_upd_idem intro: rtranclp.rtrancl_refl)

text \<open>Two connections whose calls to mount have started. Both can be acknowledged with only the first
  one tracked, although by themselves, in either order, both would be: the first reads the list,
  the second reads and stores it, then the first stores its own.\<close>

theorem overlapping_mounts_lose_one:
  assumes "mount_check m1 = None" and "mount_check m2 = None"
    and "\<And>p x e. fst (c_mkdir_all C p x e) = None" and "\<And>c n xs e. fst (c_run C c n xs e) = None"
    and "j \<noteq> k" and "call_of s j = Some (mount_prog C m1 (\<lambda>r. Ret (send_ack msg_mount r)))"
    and "call_of s k = Some (mount_prog C m2 (\<lambda>r. Ret (send_ack msg_mount r)))"
  shows "\<exists>u. srv_reach (message_prog C) fails s u \<and>
    call_of u j = Some (Ret (send_ack msg_mount None)) \<and> call_of u k = Some (Ret (send_ack msg_mount None)) \<and>
    mm_mounts (d_mounts (fst (sv_state u))) = mm_mounts (d_mounts (fst (sv_state s))) @ [m1]"
proof -
  let ?h = "message_prog C" and ?ack = "Ret (send_ack msg_mount None) :: 'a handling"
  let ?ms = "mm_mounts (d_mounts (fst (sv_state s)))"
  obtain e1 where a1: "advance 5 (mount_prog C m1 (\<lambda>r. Ret (send_ack msg_mount r))) (sv_state s) =
      (change (track (?ms @ [m1])) ?ack, (fst (sv_state s), e1))"
    using advance_mount[OF assms(1,3,4), of "\<lambda>r. Ret (send_ack msg_mount r)" "fst (sv_state s)" "snd (sv_state s)"] by auto
  obtain u1 where u1: "srv_reach ?h fails s u1" "call_of u1 = (call_of s)(j \<mapsto> change (track (?ms @ [m1])) ?ack)"
      "sv_state u1 = (fst (sv_state s), e1)"
    using accesses[OF assms(6) a1] by blast
  obtain e2 where a2: "advance 5 (mount_prog C m2 (\<lambda>r. Ret (send_ack msg_mount r))) (sv_state u1) =
      (change (track (?ms @ [m2])) ?ack, (fst (sv_state s), e2))"
    using advance_mount[OF assms(2,3,4), of "\<lambda>r. Ret (send_ack msg_mount r)" "fst (sv_state s)" e1] u1(3) by auto
  have "call_of u1 k = Some (mount_prog C m2 (\<lambda>r. Ret (send_ack msg_mount r)))" using u1(2) assms(5,7) by simp
  from accesses[OF this a2] obtain u2 where u2: "srv_reach ?h fails u1 u2"
      "call_of u2 = (call_of u1)(k \<mapsto> change (track (?ms @ [m2])) ?ack)" "sv_state u2 = (fst (sv_state s), e2)"
    by blast
  have store: "advance 1 (change (track ms) ?ack) (d, e) = (?ack, (track ms d, e))" for ms d e
    using advance_access(3)[of 0] by simp
  have "call_of u2 k = Some (change (track (?ms @ [m2])) ?ack)" using u2(2) by simp
  from accesses[OF this, of 1] obtain u3 where u3: "srv_reach ?h fails u2 u3" "call_of u3 = (call_of u2)(k \<mapsto> ?ack)"
      "sv_state u3 = (track (?ms @ [m2]) (fst (sv_state s)), e2)"
    using store u2(3) by metis
  have "call_of u3 j = Some (change (track (?ms @ [m1])) ?ack)" using u3(2) u2(2) u1(2) assms(5) by simp
  from accesses[OF this, of 1] obtain u4 where u4: "srv_reach ?h fails u3 u4" "call_of u4 = (call_of u3)(j \<mapsto> ?ack)"
      "sv_state u4 = (track (?ms @ [m1]) (track (?ms @ [m2]) (fst (sv_state s))), e2)"
    using store u3(3) by metis
  have "srv_reach ?h fails s u4" using u1(1) u2(1) u3(1) u4(1) by (meson rtranclp_trans)
  moreover have "call_of u4 j = Some ?ack" "call_of u4 k = Some ?ack" using u4(2) u3(2) assms(5) by simp_all
  moreover have "mm_mounts (d_mounts (fst (sv_state u4))) = ?ms @ [m1]" using u4(3) by (simp add: track_def)
  ultimately show ?thesis by blast
qed

end
