(* ===== verification/RunEffects.thy ===== *)
theory RunEffects
  imports Run
begin

text \<open>
  What a whole run of the daemon keeps. The interface is that of a relation between worlds which
  every call of the program respects; the theorem about runs is proved once inside it and read
  off for the messages pushed to the host and for the paths that a run may touch.
\<close>

subsection \<open>The interface\<close>

text \<open>
  \<open>fit\<close> says which commanders respect the relation, \<open>zone\<close> is where the paths of the daemon's own
  configuration have to lie. The daemon is put together with one commander, which its shutdown
  coordinator shares.
\<close>

definition placed :: "path set \<Rightarrow> daemon \<Rightarrow> bool" where
  "placed zone d \<longleftrightarrow>
     (\<forall>n. (base n = n \<longrightarrow> resolve (join2 (sm_secret_dir (d_secrets d)) n) \<in> zone) \<and>
        (inject_name_ok n \<longrightarrow> resolve (join2 (sm_secret_dir (d_secrets d)) n @ ''.tmp'') \<in> zone)) \<and>
     resolve (is_socket_path (d_ipc d)) \<in> zone \<and> ipc_ok (d_ipc d) \<and> resolve config_path \<in> zone \<and>
     (\<forall>(p, m) \<in> set (dir_specs (dc_runtime_dirs (d_config d))). {q. prefix q (resolve p)} \<subseteq> zone)"

definition wired :: "(commander \<Rightarrow> bool) \<Rightarrow> path set \<Rightarrow> daemon \<Rightarrow> bool" where
  "wired fit zone d \<longleftrightarrow> fit (mm_commander (d_mounts d)) \<and> placed zone d \<and> d_sshkeys d = new_ssh_key_manager \<and>
     (\<exists>mode. d_shutdown d = new_shutdown_coordinator (Some (mm_commander (d_mounts d))) mode)"

lemma wired_new:
  "fit exec_run \<Longrightarrow> (case dc_commander c of None \<Rightarrow> True | Some run \<Rightarrow> fit run) \<Longrightarrow>
   placed zone (new_daemon_with_config c w) \<Longrightarrow> wired fit zone (new_daemon_with_config c w)"
  by (auto simp: wired_def new_daemon_with_config_def Let_def new_mount_manager_def split: option.splits)

lemma mounts_only_wired: "mounts_only d d' \<Longrightarrow> wired fit zone d \<Longrightarrow> wired fit zone d'"
  unfolding mounts_only_def wired_def placed_def by (cases d; cases d') auto

lemma wired_frame:
  "wired fit zone d \<Longrightarrow> wired fit zone (d\<lparr>d_lifecycle := lm\<rparr>)" "wired fit zone d \<Longrightarrow> wired fit zone (d\<lparr>d_jobs := js\<rparr>)"
  "wired fit zone d \<Longrightarrow> is_socket_path s = is_socket_path (d_ipc d) \<Longrightarrow> ipc_ok s \<Longrightarrow> wired fit zone (d\<lparr>d_ipc := s\<rparr>)"
  by (simp_all add: wired_def placed_def)

lemma list_secrets_tick: "snd (list_secrets sm w) = w\<lparr>w_tick := Suc (w_tick w)\<rparr>"
  by (simp add: list_secrets_def os_read_dir_def call_unfold
      split: prod.split option.split sum.split node.split fault.split)

locale run_effects = call_effects +
  fixes fit :: "commander \<Rightarrow> bool" and zone :: "path set" and good :: "world \<Rightarrow> bool"
  assumes R_run: "fit c \<Longrightarrow> R P w (snd (c n as w))"
    and R_kill: "R P w (snd (kill_pid1 w))"
    and R_listen_unix: "R {resolve p} w (snd (net_listen_unix p w))"
    and R_unlink_file: "R {resolve p} w (unlink p w)"
    and zone_mounts: "mount_valid m \<Longrightarrow> {q. prefix q (resolve (clean (mp_guest_path m)))} \<subseteq> zone"
    and zone_keys: "good w \<Longrightarrow> accepted_key new_ssh_key_manager kp w = Some (home, i, j) \<Longrightarrow>
      {q. prefix q (resolve (join2 home ''.ssh''))} \<union> {resolve (join2 (join2 home ''.ssh'') ''authorized_keys''),
        resolve (join2 (join2 home ''.ssh'') ''authorized_keys'' @ ''.tmp'')} \<subseteq> zone"
    and R_good: "R zone w w' \<Longrightarrow> good w \<Longrightarrow> good w'"
begin

abbreviation E :: "world \<Rightarrow> world \<Rightarrow> bool" where
  "E \<equiv> R zone"

lemma E_step: "E w u \<Longrightarrow> E u v \<Longrightarrow> E w v"
  by (rule R_trans)

lemma E_calls:
  "resolve p \<in> zone \<Longrightarrow> E w (snd (os_write_file p s m w))" "resolve p \<in> zone \<Longrightarrow> E w (snd (os_remove p w))"
  "resolve p \<in> zone \<Longrightarrow> E w (snd (os_chmod p m w))"
  "{q. prefix q (resolve p)} \<subseteq> zone \<Longrightarrow> E w (snd (os_mkdir_all p m w))"
  "resolve p \<in> zone \<Longrightarrow> E w (snd (chown_to_group p g w))"
  "resolve p \<in> zone \<Longrightarrow> E w (snd (net_listen_unix p w))" "resolve p \<in> zone \<Longrightarrow> E w (unlink p w)"
  using R_then(1,3,4)[OF R_refl, of p zone] R_then_dirs[OF R_refl, of p zone] chown_to_group_R[of p zone]
    R_mono[OF R_listen_unix[of p w], of zone] R_mono[OF R_unlink_file[of p w], of zone]
  by simp_all

text \<open>What the configuration of the daemon gives.\<close>

lemma wired_paths:
  assumes "wired fit zone d"
  shows "fit (mm_commander (d_mounts d))" "d_sshkeys d = new_ssh_key_manager"
    "resolve config_path \<in> zone" "resolve (is_socket_path (d_ipc d)) \<in> zone" "ipc_ok (d_ipc d)"
    "base n = n \<Longrightarrow> resolve (join2 (sm_secret_dir (d_secrets d)) n) \<in> zone"
    "inject_name_ok n \<Longrightarrow> resolve (join2 (sm_secret_dir (d_secrets d)) n @ ''.tmp'') \<in> zone"
    "\<forall>(p, m) \<in> set (dir_specs (dc_runtime_dirs (d_config d))). {q. prefix q (resolve p)} \<subseteq> zone"
  using assms by (auto simp: wired_def placed_def)

lemma mount_E:
  assumes "fit (mm_commander mm)"
  shows "E w (snd (snd (mount mm p w)))"
proof -
  let ?gp = "clean (mp_guest_path p)" and ?c = "mm_commander mm"
  obtain r1 w1 where m1: "os_mkdir_all ?gp 0x1ED w = (r1, w1)" by force
  obtain r2 w2 where m2: "?c ''mount'' (mount_args p ?gp) w1 = (r2, w2)" by force
  obtain r3 w3 where m3: "?c ''chown'' [''agent:agent'', ?gp] w2 = (r3, w3)" by force
  show ?thesis
  proof (cases "mount_check p")
    case None
    then have "{q. prefix q (resolve ?gp)} \<subseteq> zone" using zone_mounts mount_check_valid by blast
    then have "E w (snd (os_mkdir_all ?gp 0x1ED w))" by (rule E_calls(4))
    then have e: "E w w1" "E w1 w2" "E w2 w3" using R_run[OF assms] m1 m2 m3 by (metis snd_conv)+
    have "E w w2" "E w w3" using E_step[OF e(1,2)] E_step[OF E_step[OF e(1,2)] e(3)] .
    then show ?thesis using m1 m2 m3 e None by (cases r1; cases r2) (simp_all add: mount_def Let_def)
  qed (simp add: mount_def R_refl)
qed

lemma umount_E: "fit c \<Longrightarrow> E w (umount_loop c ms w)"
proof (induction ms arbitrary: w)
  case (Cons m ms)
  from Cons.prems have "E w (snd (c ''umount'' [clean (mp_guest_path m)] w))" by (rule R_run)
  from E_step[OF this Cons.IH[OF Cons.prems]] show ?case by (simp add: split_beta Let_def)
qed (simp add: R_refl)

lemma poweroff_E: "fit c \<Longrightarrow> E w (snd (poweroff_for mode c kill_pid1 w))"
  using R_run R_kill R_refl by (simp add: poweroff_for_def systemctl_poweroff_def signal_init_poweroff_def)

lemma execute_E:
  assumes "fit c" and "mm_commander mm = c" and "sc = new_shutdown_coordinator (Some c) mode"
    and "lm_send lm = None" and "execute sc p mm lm w = (r, mm', lm', w')"
  shows "E w w'"
proof -
  let ?w2 = "umount_loop c (rev (mm_mounts mm)) w"
  let ?w3 = "snd (c ''sync'' [] ?w2)"
  have "w' = snd (poweroff_for mode c kill_pid1 ?w3)"
    using assms(2-5)
    by (auto simp: execute_def new_shutdown_coordinator_def new_shutdown_coordinator_with_killer_def
        unmount_all_def split_beta Let_def transition_def)
  moreover have "E w ?w2" "E ?w2 ?w3" "E ?w3 (snd (poweroff_for mode c kill_pid1 ?w3))"
    using umount_E[OF assms(1)] R_run[OF assms(1)] poweroff_E[OF assms(1)] .
  ultimately show ?thesis by (blast intro: E_step)
qed

subsection \<open>Messages and requests\<close>

lemma inject_E:
  assumes "wired fit zone d"
  shows "E w (snd (snd (inject (d_secrets d) p w)))"
proof (cases "inject_name_ok (sp_name p)")
  case True
  then have "base (sp_name p) = sp_name p" by (simp add: inject_name_ok_def)
  note n = wired_paths(6)[OF assms this] wired_paths(7)[OF assms True]
  obtain r p' w' where "inject (d_secrets d) p w = (r, p', w')" using prod_cases3 by blast
  then show ?thesis using R_mono[OF inject_R[OF _ refl]] n by simp
next
  case False
  then show ?thesis using inject_bad_name[of p "d_secrets d" w] R_refl by auto
qed

lemma remove_E:
  assumes "wired fit zone d"
  shows "E w (snd (remove_secret (d_secrets d) n w))"
proof (cases "base n = n")
  case True
  obtain r w' where "remove_secret (d_secrets d) n w = (r, w')" by force
  then show ?thesis using R_mono[OF remove_secret_R] wired_paths(6)[OF assms True] by simp
next
  case False
  then show ?thesis by (simp add: remove_secret_def Let_def R_refl)
qed

lemma list_E: "E w (snd (list_secrets sm w))"
  by (simp add: list_secrets_tick R_tick)

lemma ssh_key_E:
  assumes "good w"
  shows "E w (snd (inject_authorized_key new_ssh_key_manager p w))"
proof (cases "accepted_key new_ssh_key_manager p w")
  case None
  then have "inject_authorized_key new_ssh_key_manager p w = (fst (inject_authorized_key new_ssh_key_manager p w), w)"
    using inject_key_accepted[of new_ssh_key_manager p w] by simp
  then show ?thesis using R_refl by (metis snd_conv)
next
  case (Some a)
  obtain h i j where a: "a = (h, i, j)" using prod_cases3 by blast
  then have "inject_authorized_key new_ssh_key_manager p w = install_key h i j (kp_public_key p) w"
    using inject_key_accepted[of new_ssh_key_manager p w] Some by simp
  then show ?thesis using R_mono[OF install_key_R[OF refl]] zone_keys[OF assms] Some a by simp
qed

lemma command_E:
  assumes "\<And>p. E w (snd (snd (run p d w)))"
  shows "E w (snd (snd (command t what dec zero run env d w)))"
proof -
  obtain p x where p: "decode_payload dec env zero = (p, x)" by force
  show ?thesis using assms[of p] R_refl by (cases x; cases "run p d w") (simp_all add: command_def p)
qed

lemma ops_E:
  assumes "wired fit zone d" and "good w"
  shows "E w (snd (snd (set_config_op p1 d w)))" "E w (snd (snd (inject_op p2 d w)))"
    "E w (snd (snd (ssh_key_op p3 d w)))" "E w (snd (snd (mount_op p4 d w)))"
  using E_calls(1)[OF wired_paths(3)[OF assms(1)], of w "cp_content p1" "0x1A4"] inject_E[OF assms(1), of w p2]
    ssh_key_E[OF assms(2), of p3] mount_E[OF wired_paths(1)[OF assms(1)], of w p4] wired_paths(2)[OF assms(1)]
  by (simp_all add: set_config_op_def inject_op_def ssh_key_op_def mount_op_def case_prod_beta)

lemma message_E:
  assumes "wired fit zone d" and "good w"
  shows "E w (snd (snd (handle_message d env w)))"
proof -
  consider "env_type env = msg_ping" | "env_type env = msg_get_health" | "env_type env = msg_set_config"
    | "env_type env = msg_inject_secret" | "env_type env = msg_inject_ssh_key" | "env_type env = msg_mount"
    | "env_type env = msg_shutdown" | "env_type env \<notin> set (msg_ping # msg_get_health # commands)"
    by (auto simp: commands_def)
  then show ?thesis
    by cases (simp_all add: handle_message_simps handle_message_unknown command_E ops_E[OF assms] R_refl)
qed

lemma request_E:
  assumes "wired fit zone d"
  shows "E w (snd (snd (serve_request rq d w)))"
proof (cases "dispatch rq")
  case (Answer a)
  then show ?thesis by (simp add: serve_request_def R_refl)
next
  case (Handle r p)
  have c: "fit (mm_commander (d_mounts d))" using assms by (simp add: wired_def)
  have i: "E w w1" if "inject (d_secrets d) q w = (x, p1, w1)" for q x p1 w1
    using inject_E[OF assms, of w q] that by simp
  have m: "E w w1" if "mount (d_mounts d) q w = (x, mm, w1)" for q x mm w1
    using mount_E[OF c, of w q] that by simp
  have d: "E w w1" if "remove_secret (d_secrets d) q w = (x, w1)" for q x w1
    using remove_E[OF assms, of w q] that by simp
  have l: "E w w1" if "list_secrets (d_secrets d) w = (x, w1)" for x w1
    using list_E[of w "d_secrets d"] that by simp
  show ?thesis
    using Handle i m d l R_refl
    by (cases r) (auto simp: serve_request_def run_route_def handle_ping_def handle_get_health_def
        handle_inject_secret_def handle_list_secrets_def handle_delete_secret_def handle_list_mounts_def
        handle_list_agents_def handle_mount_def handle_shutdown_def Let_def
        split: prod.split option.split sum.split)
qed

subsection \<open>The steps of a run\<close>

lemma ipc_start_E:
  assumes "resolve (is_socket_path s) \<in> zone"
  shows "E w (snd (snd (ipc_start s w)))"
proof -
  let ?p = "is_socket_path s"
  obtain r1 w1 where c1: "os_remove ?p w = (r1, w1)" by force
  obtain r2 w2 where c2: "net_listen_unix ?p w1 = (r2, w2)" by force
  obtain r3 w3 where c3: "os_chmod ?p 0x1B0 w2 = (r3, w3)" by force
  obtain r4 w4 where c4: "chown_to_group ?p admin_group w3 = (r4, w4)" by force
  have e: "E w w1" "E w1 w2" "E w2 w3" "E w3 w4" "E w3 (unlink ?p w3)"
    using E_calls(2)[OF assms, of w] E_calls(6)[OF assms, of w1] E_calls(3)[OF assms, of w2 "0x1B0"]
      E_calls(5)[OF assms, of w3 admin_group] E_calls(7)[OF assms, of w3] c1 c2 c3 c4 by simp_all
  have e2: "E w w2" using E_step[OF e(1,2)] .
  have e3: "E w w3" using E_step[OF e2 e(3)] .
  show ?thesis
    using c1 c2 c3 c4 e2 E_step[OF e3 e(4)] E_step[OF e3 e(5)]
    by (cases r2; cases r3) (simp_all add: ipc_start_def close_unix_def Let_def)
qed

lemma ipc_close_E:
  assumes "resolve (is_socket_path s) \<in> zone" and "ipc_ok s"
  shows "E w (snd (ipc_close s w))"
proof -
  have rm: "E w (snd (os_remove (is_socket_path s) w1))" if "E w w1" for w1
    using E_step[OF that E_calls(2)[OF assms(1)]] .
  have "E w (snd (close_unix l w))" if "is_listener s = Some l" for l
    using that assms E_calls(7)[OF assms(1)] R_refl by (simp add: close_unix_def ipc_ok_def)
  then show ?thesis
    using rm R_refl by (cases "is_listener s") (simp_all add: ipc_close_def Let_def split_beta)
qed

lemma job_E:
  assumes "wired fit zone d" and "lm_send (d_lifecycle d) = None" and "shutdown_job p d w = Some (d', w')"
  shows "E w w' \<and> wired fit zone d'"
proof -
  let ?c = "mm_commander (d_mounts d)"
  obtain mode where c: "fit ?c" "d_shutdown d = new_shutdown_coordinator (Some ?c) mode"
    using assms(1) by (auto simp: wired_def)
  obtain r mm lm w1 where e: "execute (d_shutdown d) (Some p) (d_mounts d) (d_lifecycle d) w = (r, mm, lm, w1)"
    using prod_cases4 by blast
  have "E w w1" by (rule execute_E[OF c(1) refl c(2) assms(2) e])
  moreover have "w' = w1" "d_mounts d' = mm" "d_shutdown d' = d_shutdown d" "d_sshkeys d' = d_sshkeys d"
      "d_secrets d' = d_secrets d" "d_ipc d' = d_ipc d" "d_config d' = d_config d"
    using assms(3) e by (auto simp: shutdown_job_def request_shutdown_def Let_def split: if_splits option.splits)
  moreover have "wired fit zone d'"
    using assms(1) execute_fields(2)[OF e] calculation(2-) by (simp add: wired_def placed_def)
  ultimately show ?thesis by simp
qed

lemma step_E:
  assumes "wired fit zone d" and "daemon_ok d" and "good w" and "daemon_step e d w = Some (d', w')"
  shows "E w w' \<and> wired fit zone d'"
proof (cases e)
  case IpcStart
  then show ?thesis
    using assms ipc_start_E[OF wired_paths(4)[OF assms(1)], of w] wired_frame(3)[OF assms(1) ipc_start_path]
      ipc_ok_start[OF wired_paths(5)[OF assms(1)], of w]
    by (auto split: prod.splits) (metis fst_conv snd_conv)+
next
  case (Message env)
  then show ?thesis
    using assms message_E[OF assms(1,3), of env] mounts_only_wired[OF handle_message_frame assms(1), of env w] by auto
next
  case (Request rq)
  then show ?thesis
    using assms request_E[OF assms(1), of w rq] mounts_only_wired[OF serve_request_frame assms(1), of rq w] by auto
next
  case (Poll rep)
  have "lm_send (d_lifecycle d) = None" using assms(2) by (simp add: daemon_ok_def)
  then have "snd (poll (daemon_poller d) rep (d_lifecycle d) w) = w"
    by (simp add: poll_def Let_def replace_agent_statuses_def split: sum.split)
  then show ?thesis using assms Poll R_refl wired_frame(1)[OF assms(1)] by (auto split: prod.splits)
next
  case (RunJob i)
  show ?thesis
  proof (cases "i < length (d_jobs d)")
    case True
    let ?d = "d\<lparr>d_jobs := take i (d_jobs d) @ drop (Suc i) (d_jobs d)\<rparr>"
    have "wired fit zone ?d" "lm_send (d_lifecycle ?d) = None"
      using assms(1,2) wired_frame(2) by (simp_all add: daemon_ok_def)
    then show ?thesis using job_E[of ?d] assms(4) RunJob True by simp
  qed (use assms RunJob R_refl in simp)
qed

lemma steps_E:
  "wired fit zone d \<Longrightarrow> daemon_ok d \<Longrightarrow> good w \<Longrightarrow> daemon_steps es d w = Some (d', w') \<Longrightarrow>
   E w w' \<and> wired fit zone d' \<and> daemon_ok d'"
proof (induction es arbitrary: d w)
  case (Cons e es)
  obtain d1 w1 where s: "daemon_step e d w = Some (d1, w1)" "daemon_ok d1"
    using daemon_step_ok[OF Cons.prems(2)] by blast
  then have "E w w1" "wired fit zone d1" using step_E[OF Cons.prems(1-3) s(1)] by simp_all
  then show ?case using Cons.IH[of d1 w1] Cons.prems(3,4) s E_step R_good by auto
qed (simp add: R_refl)

lemma boot_E:
  assumes "wired fit zone d" and "daemon_ok d" and "daemon_boot d w n = (b, d', w', n')"
  shows "E w w' \<and> wired fit zone d' \<and> daemon_ok d'"
proof -
  obtain re wa where e: "ensure_runtime_dirs (dc_runtime_dirs (d_config d)) w = (re, wa)" by force
  have "E w wa"
    using ensure_runtime_dirs_R[OF wired_paths(8)[OF assms(1)], of w] e by simp
  moreover have "lm_send (d_lifecycle d) = None" using assms(2) by (simp add: daemon_ok_def)
  ultimately show ?thesis
    using assms e daemon_boot_ok[OF assms(2,3)] wired_frame(1)[OF assms(1)]
    by (auto simp: daemon_boot_def Let_def split: option.splits prod.splits sum.splits dest: arg_cong[of _ _ snd])
qed

lemma ready_E:
  assumes "wired fit zone d" and "daemon_ok d" and "daemon_ready d w = (d', w')"
  shows "w' = w \<and> wired fit zone d' \<and> daemon_ok d'"
proof -
  obtain lm w1 where t: "transition state_ready ''all subsystems started'' (d_lifecycle d) w = (lm, w1)" by force
  have "lm_send (d_lifecycle d) = None" using assms(2) by (simp add: daemon_ok_def)
  then have "w1 = w" using transition_no_sender[of "d_lifecycle d" state_ready "''all subsystems started''" w] t by simp
  then show ?thesis
    using assms(1,3) t daemon_ready_ok[OF assms(2), of w] wired_frame(1)[OF assms(1)] by (auto simp: daemon_ready_def)
qed

lemma finish_E:
  assumes "wired fit zone d" and "daemon_ok d" and "daemon_finish wk d w = (r, d', w')"
  shows "E w w'"
proof -
  have "lm_send (d_lifecycle d) = None" using assms(2) by (simp add: daemon_ok_def)
  then have "E w (snd (ipc_close (d_ipc d) (snd (transition state_shutdown ''shutting down'' (d_lifecycle d) w))))"
    using ipc_close_E[OF wired_paths(4,5)[OF assms(1)]] by simp
  then show ?thesis
    using assms(3) R_refl by (cases wk) (auto simp: daemon_finish_def split: prod.splits)
qed

text \<open>A run, from its start to its end.\<close>

lemma run_E:
  assumes "wired fit zone d" and "daemon_ok d" and "good w" and "daemon_run d early late wk w n = Some (r, d', w')"
  shows "E w w'"
proof -
  obtain b d1 w1 n1 where boot: "daemon_boot d w n = (b, d1, w1, n1)" using prod_cases4 by blast
  note b1 = boot_E[OF assms(1,2) boot]
  have g1: "good w1" using R_good b1 assms(3) by blast
  show ?thesis
  proof (cases b)
    case (Inl x)
    then show ?thesis using assms(4) boot b1 by (simp add: daemon_run_def)
  next
    case (Inr l)
    obtain d2 w2 where s1: "daemon_steps early d1 w1 = Some (d2, w2)" using daemon_steps_ok b1 by blast
    then have m1: "E w1 w2" "wired fit zone d2" "daemon_ok d2" using steps_E b1 g1 by blast+
    have g2: "good w2" using R_good m1(1) g1 by blast
    obtain d3 w3 where rd: "daemon_ready d2 w2 = (d3, w3)" by force
    note r3 = ready_E[OF m1(2,3) rd]
    obtain d4 w4 where s2: "daemon_steps late d3 w3 = Some (d4, w4)" using daemon_steps_ok r3 by blast
    then have m2: "E w3 w4" "wired fit zone d4" "daemon_ok d4" using steps_E r3 g2 by blast+
    have "daemon_finish wk d4 w4 = (r, d', w')"
      using assms(4) boot Inr s1 rd s2 by (simp add: daemon_run_def)
    then have "E w4 w'" by (rule finish_E[OF m2(2,3)])
    then show ?thesis using b1 m1(1) m2(1) r3 E_step by metis
  qed
qed

end

subsection \<open>What the host is never told\<close>

text \<open>The lifecycle messages pushed to the host, out of the trace.\<close>

fun pushes_of :: "event list \<Rightarrow> envelope list" where
  "pushes_of [] = []"
| "pushes_of (Push v # es) = v # pushes_of es"
| "pushes_of (_ # es) = pushes_of es"

definition pushes :: "world \<Rightarrow> envelope list" where
  "pushes w = pushes_of (w_trace w)"

lemma pushes_of_append [simp]: "pushes_of (a @ b) = pushes_of a @ pushes_of b"
  by (induction a rule: pushes_of.induct) auto

lemma pushes_env: "env_of w' = env_of w \<Longrightarrow> pushes w' = pushes w"
  using env_of_D(1)[of w' w] by (simp add: pushes_def)

interpretation mute_calls: call_effects "\<lambda>P w w'. pushes w' = pushes w"
  by unfold_locales ((simp; fail) | (rule pushes_env, simp add: world_frame))+

lemma listen_unix_env: "env_of (snd (net_listen_unix p w)) = env_of w"
  by (simp add: net_listen_unix_def call_unfold split: option.split fault.split)

lemma unlink_env: "env_of (unlink p w) = env_of w"
  by (simp add: unlink_def call_unfold split: option.split node.split)

interpretation mute: run_effects "\<lambda>P w w'. pushes w' = pushes w" command_runner UNIV "\<lambda>w. True"
proof unfold_locales
  show "command_runner c \<Longrightarrow> pushes (snd (c n as w)) = pushes w" for c n as w
    by (simp add: pushes_def command_runner.run_trace)
  show "pushes (snd (kill_pid1 w)) = pushes w" for w
    by (simp add: pushes_def kill_pid1_trace)
  show "pushes (snd (net_listen_unix p w)) = pushes w" "pushes (unlink p w) = pushes w" for p w
    by (rule pushes_env, rule listen_unix_env unlink_env)+
qed simp_all

lemma placed_anywhere: "placed UNIV (new_daemon_with_config c w)"
  by (simp add: placed_def new_daemon_with_config_def Let_def)

text \<open>C27: The host is never told about a change of state, and never sees the state degraded. Over a
  whole run of a new daemon, with the system's commander or any that only runs commands,
  whatever messages, requests, polls and jobs there are, no lifecycle message is pushed, and
  the state at the end is one of booting, ready, healthy and shutdown.\<close>

theorem run_never_pushes_lifecycle:
  assumes "case dc_commander c of None \<Rightarrow> True | Some run \<Rightarrow> command_runner run"
    and "daemon_run (new_daemon_with_config c w0) early late wk w n = Some (r, d', w')"
  shows "pushes w' = pushes w \<and> lm_state (d_lifecycle d') \<noteq> state_degraded"
proof
  let ?d = "new_daemon_with_config c w0"
  have "wired command_runner UNIV ?d" by (rule wired_new[OF exec_cmd.command_runner_axioms assms(1) placed_anywhere])
  from mute.run_E[OF this new_daemon_ok TrueI assms(2)] show "pushes w' = pushes w" .
  have "daemon_ok d'" using daemon_run_total[OF new_daemon_ok, of c w0 early late wk w n] assms(2) by auto
  then show "lm_state (d_lifecycle d') \<noteq> state_degraded" by (auto simp: daemon_ok_def state_defs)
qed

text \<open>A network of a new process, for the concrete runs.\<close>

definition quiet_net :: net where
  "quiet_net = \<lparr>n_open = [], n_local_cid = 2, n_calls = 0, n_fail = \<lambda>k. None\<rparr>"

theorem run_never_pushes_lifecycle_witness:
  "\<exists>r d' w'. daemon_run (new_daemon_with_config default_config boot_world) [Poll (NoReply (ErrnoErr ENOENT))] [RunJob 0]
      ContextDone boot_world quiet_net = Some (r, d', w') \<and> pushes w' = []"
proof -
  obtain r d' w' where run: "daemon_run (new_daemon_with_config default_config boot_world)
      [Poll (NoReply (ErrnoErr ENOENT))] [RunJob 0] ContextDone boot_world quiet_net = Some (r, d', w')"
    using daemon_run_total[OF new_daemon_ok] by blast
  from run_never_pushes_lifecycle[OF _ this] have "pushes w' = pushes boot_world"
    by (simp add: default_config_def)
  moreover have "pushes boot_world = []" by (simp add: pushes_def boot_world_def quiet_world_def)
  ultimately show ?thesis using run by metis
qed

subsection \<open>What a run leaves alone\<close>

text \<open>
  Commands that leave the files and the accounts of the model alone; what they do to the machine
  is not in it.
\<close>

definition keeps_files :: "commander \<Rightarrow> bool" where
  "keeps_files c \<longleftrightarrow>
     (\<forall>n as w. let w' = snd (c n as w) in
        w_fs w' = w_fs w \<and> w_hist w' = w_hist w \<and> w_users w' = w_users w)"

lemma keeps_files_exec: "keeps_files exec_run"
  by (simp add: keeps_files_def exec_run_def call_unfold emit_def split: option.split fault.split)

lemma keeps_files_mock: "keeps_files (mock_run fail_on)"
  by (simp add: keeps_files_def mock_run_def emit_def)

text \<open>
  The paths a daemon with the default directories may write: its own below /run/stereos and
  /etc/stereos, the keys of the accounts, and, for the mounts, everything outside the system's
  directories.
\<close>

definition key_paths :: "string \<Rightarrow> path set" where
  "key_paths home = {q. prefix q (resolve (join2 home ''.ssh''))} \<union>
     {resolve (join2 (join2 home ''.ssh'') ''authorized_keys''),
      resolve (join2 (join2 home ''.ssh'') ''authorized_keys'' @ ''.tmp'')}"

definition daemon_zone :: "(string \<times> user_entry) list \<Rightarrow> path set" where
  "daemon_zone us =
     {q. prefix q [''run'', ''stereos''] \<or> prefix [''run'', ''stereos''] q} \<union>
     {q. prefix q [''etc'', ''stereos'', ''jcard.toml'']} \<union>
     (\<Union>u\<in>snd ` set us. key_paths (ue_home u)) \<union>
     {c # cs | c cs. c \<notin> set system_names}"

definition keeps_to :: "path set \<Rightarrow> world \<Rightarrow> world \<Rightarrow> bool" where
  "keeps_to P w w' \<longleftrightarrow> w_users w' = w_users w \<and> touches P w w'"

lemma keeps_to_env: "env_of w' = env_of w \<Longrightarrow> touches P w w' \<Longrightarrow> keeps_to P w w'"
  unfolding keeps_to_def by (rule conjI[OF env_of_D(5)])

lemma keeps_to_D: "keeps_to P w w' \<Longrightarrow> touches P w w'" "keeps_to P w w' \<Longrightarrow> w_users w' = w_users w"
  unfolding keeps_to_def by (rule conjunct2, assumption) (rule conjunct1, assumption)

lemma keeps_to_trans:
  assumes "keeps_to P w u" and "keeps_to P u v"
  shows "keeps_to P w v"
proof -
  have "touches P w v" by (rule touches_trans[OF keeps_to_D(1)[OF assms(1)] keeps_to_D(1)[OF assms(2)]])
  moreover have "w_users v = w_users w" using keeps_to_D(2)[OF assms(1)] keeps_to_D(2)[OF assms(2)] by (rule trans[rotated])
  ultimately show ?thesis by (simp only: keeps_to_def simp_thms)
qed

lemma keeps_to_mono:
  assumes "keeps_to P w u" and "P \<subseteq> Q"
  shows "keeps_to Q w u"
  unfolding keeps_to_def
  by (rule conjI[OF keeps_to_D(2)[OF assms(1)] touches_mono[OF keeps_to_D(1)[OF assms(1)] assms(2)]])

interpretation keep_calls: call_effects keeps_to
proof unfold_locales
  show "keeps_to P w w" for P w by (simp add: keeps_to_def)
  show "keeps_to P w (w\<lparr>w_tick := n\<rparr>)" for P w n by (simp add: keeps_to_def)
qed (rule keeps_to_trans keeps_to_mono, assumption, assumption
    | rule keeps_to_env, simp add: world_frame,
      rule touch.R_write_file touch.R_rename touch.R_remove touch.R_chmod touch.R_chown touch.R_mkdir_all)+

text \<open>What the default configuration gives, and where the keys and the mounts go.\<close>

lemma default_paths:
  "resolve config_path = [''etc'', ''stereos'', ''jcard.toml'']"
  "resolve socket_path = [''run'', ''stereos'', ''stereosd.sock'']"
  "rd_secrets default_runtime_dirs = ''/run/stereos/secrets''"
  "resolve (join2 ''/run/stereos/secrets'' ''/'') = [''run'', ''stereos'', ''secrets'']"
  "resolve (join2 ''/run/stereos/secrets'' ''/'' @ ''.tmp'') = [''run'', ''stereos'', ''secrets.tmp'']"
  "resolve (join2 ''/run/stereos/secrets'' ''.'') = [''run'', ''stereos'', ''secrets'']"
  "resolve (join2 ''/run/stereos/secrets'' ''.'' @ ''.tmp'') = [''run'', ''stereos'', ''secrets.tmp'']"
  "resolve (join2 ''/run/stereos/secrets'' ''..'') = [''run'', ''stereos'']"
  "resolve ''/run/stereos/secrets'' = [''run'', ''stereos'', ''secrets'']"
  by code_simp+

lemma secret_paths:
  assumes "base n = n"
  shows "prefix [''run'', ''stereos''] (resolve (join2 ''/run/stereos/secrets'' n))"
    and "inject_name_ok n \<Longrightarrow> prefix [''run'', ''stereos''] (resolve (join2 ''/run/stereos/secrets'' n @ ''.tmp''))"
proof -
  consider "n = ''/''" | "n = ''.''" | "n = ''..''" | "comp_ok n"
    using assms by (auto simp: base_eq_iff comp_ok_def)
  then have "prefix [''run'', ''stereos''] (resolve (join2 ''/run/stereos/secrets'' n)) \<and>
      (inject_name_ok n \<longrightarrow> prefix [''run'', ''stereos''] (resolve (join2 ''/run/stereos/secrets'' n @ ''.tmp'')))"
  proof cases
    case 4
    have a: "is_abs ''/run/stereos/secrets''" by code_simp
    have ok: "comp_ok (n @ ''.tmp'')" by (rule comp_ok_extend[OF 4]) simp_all
    have "resolve (join2 ''/run/stereos/secrets'' n) = [''run'', ''stereos'', ''secrets''] @ [n]"
      using resolve_join2_name[OF a 4] default_paths(9) by (simp only:)
    moreover have "resolve (join2 ''/run/stereos/secrets'' n @ ''.tmp'') =
        resolve ''/run/stereos/secrets'' @ [n @ ''.tmp'']"
      unfolding join2_name[OF a 4] path_string_snoc_append
      by (rule resolve_path_string) (simp only: comps_ok_snoc resolve_ok ok simp_thms)
    ultimately show ?thesis unfolding default_paths(9) by (simp add: prefix_def)
  qed (simp_all add: default_paths inject_name_ok_def contains_def)
  then show "prefix [''run'', ''stereos''] (resolve (join2 ''/run/stereos/secrets'' n))"
    "inject_name_ok n \<Longrightarrow> prefix [''run'', ''stereos''] (resolve (join2 ''/run/stereos/secrets'' n @ ''.tmp''))"
    by simp_all
qed

lemma placed_default:
  assumes "dc_socket_path c = socket_path" and "dc_runtime_dirs c = default_runtime_dirs"
  shows "placed (daemon_zone us) (new_daemon_with_config c w)"
proof -
  have "prefix q [''etc'', ''stereos''] \<Longrightarrow> prefix q [''etc'', ''stereos'', ''jcard.toml'']" for q
    using prefix_order.trans[of q "[''etc'', ''stereos'']" "[''etc'', ''stereos'', ''jcard.toml'']"] by simp
  moreover have "prefix q (resolve (rd_secrets default_runtime_dirs)) \<Longrightarrow>
      prefix q [''run'', ''stereos''] \<or> prefix [''run'', ''stereos''] q" for q
    using prefix_same_cases[of q "[''run'', ''stereos'', ''secrets'']" "[''run'', ''stereos'']"] boot_facts(4) by auto
  moreover have "resolve (join2 ''/run/stereos/secrets'' n) \<in> daemon_zone us" if "base n = n" for n
    using secret_paths(1)[OF that] unfolding daemon_zone_def by blast
  moreover have "resolve (join2 ''/run/stereos/secrets'' n @ ''.tmp'') \<in> daemon_zone us" if "inject_name_ok n" for n
    using secret_paths(2)[OF _ that] that unfolding daemon_zone_def inject_name_ok_def by blast
  ultimately show ?thesis
    using assms default_paths(1-3)
    by (auto simp: placed_def new_daemon_with_config_def Let_def daemon_zone_def dir_specs_def boot_facts(3-5)
        new_secret_manager_def new_ipc_server_def ipc_ok_def)
qed

lemma mount_paths:
  assumes "mount_valid m"
  shows "{q. prefix q (resolve (clean (mp_guest_path m)))} \<subseteq> daemon_zone us"
proof -
  obtain c cs where r: "resolve (clean (mp_guest_path m)) = c # cs" "c \<notin> set system_names"
    using assms by (auto simp: mount_valid_def guest_path_ok_def resolve_clean_abs split: list.splits)
  show ?thesis
  proof
    fix q assume "q \<in> {q. prefix q (resolve (clean (mp_guest_path m)))}"
    then show "q \<in> daemon_zone us"
      using r by (cases q) (auto simp: daemon_zone_def)
  qed
qed

lemma key_zone:
  assumes "accepted_key new_ssh_key_manager p w = Some (home, i, j)"
  shows "key_paths home \<subseteq> daemon_zone (w_users w)"
proof -
  have "\<exists>u\<in>snd ` set (w_users w). ue_home u = home"
    using assms by (force simp: accepted_key_def new_ssh_key_manager_def os_user_lookup_def
        split: if_splits sum.splits option.splits dest: map_of_SomeD)
  then show ?thesis by (auto simp: daemon_zone_def)
qed

interpretation keep: run_effects keeps_to keeps_files "daemon_zone us" "\<lambda>w. w_users w = us"
proof unfold_locales
  show "keeps_files c \<Longrightarrow> keeps_to P w (snd (c n as w))" for c P n as w
    by (simp add: keeps_files_def keeps_to_def observed_same Let_def)
  show "keeps_to P w (snd (kill_pid1 w))" for P w
    by (simp add: keeps_to_def observed_same kill_pid1_def sys_kill_def call_unfold emit_def
        split: option.split fault.split)
  show "keeps_to {resolve p} w (snd (net_listen_unix p w))" "keeps_to {resolve p} w (unlink p w)" for p w
    by (rule keeps_to_env[OF listen_unix_env touches_listen_unix], rule keeps_to_env[OF unlink_env touches_unlink])
  show "mount_valid m \<Longrightarrow> {q. prefix q (resolve (clean (mp_guest_path m)))} \<subseteq> daemon_zone us" for m
    by (rule mount_paths)
  show "w_users w = us \<Longrightarrow> accepted_key new_ssh_key_manager kp w = Some (home, i, j) \<Longrightarrow>
      {q. prefix q (resolve (join2 home ''.ssh''))} \<union> {resolve (join2 (join2 home ''.ssh'') ''authorized_keys''),
        resolve (join2 (join2 home ''.ssh'') ''authorized_keys'' @ ''.tmp'')} \<subseteq> daemon_zone us" for w kp home i j
    using key_zone unfolding key_paths_def by blast
  show "keeps_to (daemon_zone us) w w' \<Longrightarrow> w_users w = us \<Longrightarrow> w_users w' = us" for w w'
    by (simp add: keeps_to_def)
qed

lemma run_keeps_to_zone:
  assumes "case dc_commander c of None \<Rightarrow> True | Some run \<Rightarrow> keeps_files run"
    and "dc_socket_path c = socket_path" and "dc_runtime_dirs c = default_runtime_dirs"
  shows "wired keeps_files (daemon_zone us) (new_daemon_with_config c w0)"
    and "daemon_run (new_daemon_with_config c w0) early late wk w n = Some (r, d', w') \<Longrightarrow>
      keeps_to (daemon_zone (w_users w)) w w'"
proof -
  show w: "wired keeps_files (daemon_zone us) (new_daemon_with_config c w0)" for us
    by (rule wired_new[OF keeps_files_exec assms(1) placed_default[OF assms(2,3)]])
  show "daemon_run (new_daemon_with_config c w0) early late wk w n = Some (r, d', w') \<Longrightarrow>
      keeps_to (daemon_zone (w_users w)) w w'"
    by (rule keep.run_E[OF w new_daemon_ok refl])
qed

end
