(* ===== verification/Confinement.thy ===== *)
theory Confinement
  imports ServingRun RunEffects
begin

text \<open>
  Where the daemon writes. A run of calls that do not overlap stays within the daemon's zone by
  the theorem on runs of RunEffects; here the accesses of the handler are shown to, one by one, so
  that connections served at the same time stay there as well.
\<close>

subsection \<open>Accesses that stay in the zone\<close>

definition confined :: "(string \<times> user_entry) list \<Rightarrow> daemon \<times> world \<Rightarrow> bool" where
  "confined us s \<longleftrightarrow> placed (daemon_zone us) (fst s) \<and> keeps_files (mm_commander (d_mounts (fst s))) \<and>
     d_sshkeys (fst s) = new_ssh_key_manager \<and> w_users (snd s) = us"

definition stays :: "(string \<times> user_entry) list \<Rightarrow> daemon \<times> world \<Rightarrow> daemon \<times> world \<Rightarrow> bool" where
  "stays us s s' \<longleftrightarrow> confined us s' \<and> keeps_to (daemon_zone us) (snd s) (snd s')"

abbreviation careful :: "(string \<times> user_entry) list \<Rightarrow> world handling \<Rightarrow> bool" where
  "careful us \<equiv> acts_ok (confined us) (stays us)"

lemma careful_sys:
  assumes "\<And>w. keeps_to (daemon_zone us) w (snd (f w))"
    and "\<And>w. w_users w = us \<Longrightarrow> careful us (k (fst (f w)))"
  shows "careful us (sys f k)"
  unfolding sys_def acts_ok_act
proof (intro allI impI conjI)
  fix s assume s: "confined us s"
  obtain x e where f: "f (snd s) = (x, e)" by force
  have e: "keeps_to (daemon_zone us) (snd s) e" using assms(1)[of "snd s"] f by simp
  have "w_users e = us" using keeps_to_D(2)[OF e] s by (simp add: confined_def)
  then show "stays us s (snd (let (x, e) = f (snd s) in (x, fst s, e)))"
    using s e f by (simp add: stays_def confined_def)
  show "careful us (k (fst (let (x, e) = f (snd s) in (x, fst s, e))))"
    using assms(2)[of "snd s"] s f by (simp add: confined_def)
qed

lemma keeps_to_refl: "keeps_to P w w"
  by (simp add: keeps_to_def)

lemma careful_look:
  assumes "\<And>d w. confined us (d, w) \<Longrightarrow> careful us (k (g d))"
  shows "careful us (look g k)"
  using assms keeps_to_refl by (auto simp: look_def stays_def)

lemma careful_change:
  assumes "\<And>d w. confined us (d, w) \<Longrightarrow> confined us (h d, w)" and "careful us p"
  shows "careful us (change h p)"
  using assms keeps_to_refl by (auto simp: change_def stays_def)

lemma careful_try:
  assumes "\<And>w. keeps_to (daemon_zone us) w (snd (f w))" and "\<And>e. careful us (failed e)" and "careful us rest"
  shows "careful us (try_call f failed rest)"
  unfolding try_call_def by (rule careful_sys[OF assms(1)]) (simp add: assms(2,3) split: option.split)

lemma zone_calls:
  "resolve p \<in> P \<Longrightarrow> resolve q \<in> P \<Longrightarrow> keeps_to P w (snd (os_rename p q w))"
  "resolve p \<in> P \<Longrightarrow> keeps_to P w (snd (os_remove p w))"
  "resolve p \<in> P \<Longrightarrow> keeps_to P w (snd (os_chmod p m w))"
  "resolve p \<in> P \<Longrightarrow> keeps_to P w (snd (os_chown p i j w))"
  "{q. prefix q (resolve p)} \<subseteq> P \<Longrightarrow> keeps_to P w (snd (os_mkdir_all p m w))"
  by (rule keep_calls.R_then[OF keeps_to_refl] keep_calls.R_then_dirs[OF keeps_to_refl]; assumption)+

lemma zone_open:
  assumes "resolve p \<in> P"
  shows "keeps_to P w (snd (open_trunc p m w))" and "keeps_to P w (snd (write_close p s w))"
proof -
  have P: "{resolve p} \<subseteq> P" using assms by simp
  show "keeps_to P w (snd (open_trunc p m w))"
    by (rule keeps_to_mono[OF keeps_to_env[OF _ touches_open_trunc] P]) (simp add: world_frame)
  show "keeps_to P w (snd (write_close p s w))"
    by (rule keeps_to_mono[OF keeps_to_env[OF _ touches_write_close] P]) (simp add: world_frame)
qed

lemma careful_write_file:
  assumes "resolve p \<in> daemon_zone us" and "\<And>e. careful us (failed e)" and "careful us rest"
  shows "careful us (write_file_prog world_calls p s m failed rest)"
  unfolding write_file_prog_def
proof (rule careful_sys)
  show "keeps_to (daemon_zone us) w (snd (c_open world_calls p m w))" for w
    using zone_open(1)[OF assms(1), of w m]
    by (cases "open_trunc p m w"; cases "fst (open_trunc p m w)") (simp_all add: world_calls_def)
  have "fst (c_open world_calls p m w) = Inr f \<Longrightarrow> f = p" for w f
    by (auto simp: world_calls_def split: prod.splits option.splits)
  moreover have "careful us (try_call (c_write world_calls p s) failed rest)"
    by (rule careful_try) (use zone_open(2)[OF assms(1)] assms(2,3) in \<open>simp_all add: world_calls_def\<close>)
  ultimately show "careful us (case fst (c_open world_calls p m w) of Inl e \<Rightarrow> failed e
      | Inr f \<Rightarrow> try_call (c_write world_calls f s) failed rest)" for w
    using assms(2) by (cases "fst (c_open world_calls p m w)") auto
qed

subsection \<open>The operations\<close>

lemma careful_inject:
  assumes "\<And>r. careful us (k r)"
  shows "careful us (inject_prog world_calls p k)"
proof (cases "inject_name_ok (sp_name p)")
  case True
  then have n: "base (sp_name p) = sp_name p" by (simp add: inject_name_ok_def)
  have "careful us (look d_secrets (\<lambda>sm.
           (let target = join2 (sm_secret_dir sm) (sp_name p); tmp = target @ ''.tmp'' in
            write_file_prog world_calls tmp (sp_value p) (secret_mode p)
              (\<lambda>e. k (Some (ErrWrap (''write secret '' @ go_quote (sp_name p) @ '': '') e)))
            (try_call (c_rename world_calls tmp target)
              (\<lambda>e. sys (c_remove world_calls tmp) (\<lambda>ignored.
                 k (Some (ErrWrap (''rename secret '' @ go_quote (sp_name p) @ '': '') e))))
            (k None)))))"
  proof (rule careful_look)
    fix d :: daemon and w
    let ?t = "join2 (sm_secret_dir (d_secrets d)) (sp_name p)"
    assume "confined us (d, w)"
    then have z: "resolve ?t \<in> daemon_zone us" "resolve (?t @ ''.tmp'') \<in> daemon_zone us"
      using True n by (simp_all add: confined_def placed_def)
    show "careful us (let target = ?t; tmp = target @ ''.tmp'' in
            write_file_prog world_calls tmp (sp_value p) (secret_mode p)
              (\<lambda>e. k (Some (ErrWrap (''write secret '' @ go_quote (sp_name p) @ '': '') e)))
            (try_call (c_rename world_calls tmp target)
              (\<lambda>e. sys (c_remove world_calls tmp) (\<lambda>ignored.
                 k (Some (ErrWrap (''rename secret '' @ go_quote (sp_name p) @ '': '') e))))
            (k None)))"
      unfolding Let_def world_calls_sel
      by (intro careful_write_file careful_try careful_sys zone_calls z assms)
  qed
  moreover have "sp_name p \<noteq> ''''" "\<not> contains (sp_name p) ''..''" using True by (simp_all add: inject_name_ok_def)
  ultimately show ?thesis unfolding inject_prog_def Let_def n by (simp only: simp_thms if_False)
next
  case False
  then show ?thesis using assms by (auto simp: inject_prog_def inject_name_ok_def Let_def)
qed

lemma careful_install:
  assumes "key_paths home \<subseteq> daemon_zone us" and "\<And>r. careful us (k r)"
  shows "careful us (install_prog world_calls home i j key k)"
proof -
  let ?d = "join2 home ''.ssh''"
  have "resolve ?d \<in> key_paths home" "{q. prefix q (resolve ?d)} \<subseteq> key_paths home"
    "resolve (join2 ?d ''authorized_keys'') \<in> key_paths home"
    "resolve (join2 ?d ''authorized_keys'' @ ''.tmp'') \<in> key_paths home"
    by (auto simp: key_paths_def)
  then have z: "resolve ?d \<in> daemon_zone us" "{q. prefix q (resolve ?d)} \<subseteq> daemon_zone us"
    "resolve (join2 ?d ''authorized_keys'') \<in> daemon_zone us"
    "resolve (join2 ?d ''authorized_keys'' @ ''.tmp'') \<in> daemon_zone us"
    using assms(1) by blast+
  show ?thesis
    unfolding install_prog_def Let_def world_calls_sel
    by (intro careful_write_file careful_try careful_sys zone_calls z assms(2))
qed

lemma careful_ssh_key:
  assumes "\<And>r. careful us (k r)"
  shows "careful us (ssh_key_prog world_calls p k)"
proof -
  let ?k = "\<lambda>r. case r of
           Inl e \<Rightarrow> k (Some (ErrWrap (''lookup user '' @ go_quote (kp_user p) @ '': '') e))
         | Inr u \<Rightarrow>
        (case go_atoi (ue_uid u) of
           Inl e \<Rightarrow> k (Some (ErrWrap (''parse uid '' @ go_quote (ue_uid u) @ '': '') e))
         | Inr uid \<Rightarrow>
        (case go_atoi (ue_gid u) of
           Inl e \<Rightarrow> k (Some (ErrWrap (''parse gid '' @ go_quote (ue_gid u) @ '': '') e))
         | Inr gid \<Rightarrow> install_prog world_calls (ue_home u) uid gid (kp_public_key p) k))"
  have "careful us (?k (os_user_lookup (kp_user p) w))" if "w_users w = us" for w
  proof (cases "os_user_lookup (kp_user p) w")
    case (Inr u)
    then have "u \<in> snd ` set us"
      using that by (force simp: os_user_lookup_def split: option.splits dest: map_of_SomeD)
    then have "key_paths (ue_home u) \<subseteq> daemon_zone us" by (auto simp: daemon_zone_def)
    then show ?thesis using Inr careful_install assms by (simp split: sum.split)
  qed (simp add: assms)
  then have "careful us (sys (\<lambda>e. (c_user world_calls new_ssh_key_manager (kp_user p) e, e)) ?k)"
    by (intro careful_sys) (simp_all add: keeps_to_refl new_ssh_key_manager_def)
  then have "careful us (look d_sshkeys (\<lambda>km. sys (\<lambda>e. (c_user world_calls km (kp_user p) e, e)) ?k))"
    by (intro careful_look) (simp add: confined_def)
  then show ?thesis unfolding ssh_key_prog_def using assms by (simp only: if_split) blast
qed

lemma careful_mount:
  assumes "\<And>r. careful us (k r)"
  shows "careful us (mount_prog world_calls m k)"
proof (cases "mount_check m")
  case None
  let ?gp = "clean (mp_guest_path m)"
  have z: "{q. prefix q (resolve ?gp)} \<subseteq> daemon_zone us" by (rule mount_paths) (use None mount_check_valid in simp)
  have "careful us (change (track (ms @ [m])) (k None))" for ms
    by (rule careful_change) (use assms in \<open>simp_all add: confined_def track_def placed_def\<close>)
  then have t: "careful us (look (\<lambda>d. mm_mounts (d_mounts d)) (\<lambda>ms. change (track (ms @ [m])) (k None)))"
    by (intro careful_look)
  have "careful us (look (\<lambda>d. mm_commander (d_mounts d)) (\<lambda>c.
           try_call (c_run world_calls c ''mount'' (mount_args m ?gp))
             (\<lambda>e. k (Some (ErrWrap (''mount '' @ mp_tag m @ '' at '' @ ?gp @ '': '') e)))
          (sys (c_run world_calls c ''chown'' [''agent:agent'', ?gp]) (\<lambda>ignored.
           look (\<lambda>d. mm_mounts (d_mounts d)) (\<lambda>ms. change (track (ms @ [m])) (k None))))))"
  proof (rule careful_look)
    fix d :: daemon and w
    assume "confined us (d, w)"
    then have "keeps_to (daemon_zone us) v (snd (mm_commander (d_mounts d) n as v))" for n as v
      by (intro keep.R_run) (simp add: confined_def)
    then show "careful us (try_call (c_run world_calls (mm_commander (d_mounts d)) ''mount'' (mount_args m ?gp))
             (\<lambda>e. k (Some (ErrWrap (''mount '' @ mp_tag m @ '' at '' @ ?gp @ '': '') e)))
          (sys (c_run world_calls (mm_commander (d_mounts d)) ''chown'' [''agent:agent'', ?gp]) (\<lambda>ignored.
           look (\<lambda>d. mm_mounts (d_mounts d)) (\<lambda>ms. change (track (ms @ [m])) (k None)))))"
      unfolding world_calls_sel by (intro careful_try careful_sys assms t)
  qed
  then show ?thesis
    using None assms z unfolding mount_prog_def Let_def world_calls_sel
    by (auto intro!: careful_try zone_calls)
qed (simp add: mount_prog_def assms)

lemma careful_config: "(\<And>r. careful us (k r)) \<Longrightarrow> careful us (set_config_prog world_calls p k)"
  unfolding set_config_prog_def
  by (rule careful_write_file) (simp_all add: default_paths(1) daemon_zone_def)

lemma careful_command:
  assumes "\<And>p k. (\<And>r. careful us (k r)) \<Longrightarrow> careful us (run p k)"
  shows "careful us (command_prog t what dec zero run env)"
  using assms by (simp add: command_prog_def split: prod.split option.split)

lemma careful_message: "careful us (message_prog world_calls env)"
proof -
  have "careful us (change (shutdown_op env) (Ret x))" for x
    by (rule careful_change) (simp_all add: confined_def placed_def shutdown_op_def start_job_def)
  moreover have "careful us (health_prog world_calls)"
    using keeps_to_refl by (simp add: health_prog_def stays_def)
  ultimately show ?thesis
    by (simp add: message_prog_def Let_def careful_command careful_config careful_inject careful_ssh_key careful_mount)
qed

subsection \<open>Connections at the same time\<close>

lemma serving_stays:
  assumes "srv_reach (message_prog world_calls) fails (serving_init (d, w)) s" and "confined us (d, w)"
  shows "stays us (d, w) (sv_state s) \<and> conns_ok (confined us) (stays us) s"
  using assms(1)
proof (induction rule: rtranclp_induct)
  case base
  then show ?case using assms(2) by (simp add: serving_init_def conns_ok_def stays_def keeps_to_refl)
next
  case (step s u)
  then have "stays us (d, w) (sv_state s)" by blast
  then have s: "confined us (sv_state s)" "conns_ok (confined us) (stays us) s" using step.IH by (simp add: stays_def, blast)
  note a = acts_step[OF step.hyps(2) careful_message s(2,1)]
  moreover have "stays us (d, w) (sv_state u)"
    using a \<open>stays us (d, w) (sv_state s)\<close> by (auto simp: stays_def intro: keeps_to_trans)
  ultimately show ?case by blast
qed

text \<open>A boot stays in the zone as well, and leaves a daemon that does.\<close>

lemma boot_confined:
  assumes "case dc_commander c of None \<Rightarrow> True | Some run \<Rightarrow> keeps_files run"
    and "dc_socket_path c = socket_path" and "dc_runtime_dirs c = default_runtime_dirs"
    and "daemon_boot (new_daemon_with_config c w0) w n = (b, d1, w1, n1)"
  shows "keeps_to (daemon_zone (w_users w)) w w1 \<and> confined (w_users w) (d1, w1)"
proof -
  note e = keep.boot_E[OF run_keeps_to_zone(1)[OF assms(1-3), of "w_users w"] new_daemon_ok assms(4)]
  then have "w_users w1 = w_users w" using keeps_to_D(2) by blast
  then show ?thesis using e by (simp add: confined_def wired_def)
qed

text \<open>C20: The daemon writes within its own zone: /run/stereos and what is below it, the directories
  above, /etc/stereos with the configuration file, the .ssh paths of the accounts, and what is
  neither the root nor below one of the system's directories (/nix, /etc, /bin, /boot, /dev,
  /proc, /sys, /run). For a new daemon with the default directories and any commander that
  leaves files and accounts alone, whatever calls fail, no file system that becomes visible has
  another entry than the first at a path outside the zone: neither in a whole run, whatever its
  messages, requests, polls and shutdown jobs are, when no two of them overlap; nor after its
  boot while any connections are served at the same time, however their calls interleave.\<close>

theorem run_spares_system_dirs:
  assumes "case dc_commander c of None \<Rightarrow> True | Some run \<Rightarrow> keeps_files run"
    and "dc_socket_path c = socket_path" and "dc_runtime_dirs c = default_runtime_dirs"
    and "q \<notin> daemon_zone (w_users w)"
  shows "(\<forall>r d' w'. daemon_run (new_daemon_with_config c w0) early late wk w n = Some (r, d', w') \<longrightarrow>
      observed (\<lambda>f. lookup f q = lookup (w_fs w) q) w w' \<and> lookup (w_fs w') q = lookup (w_fs w) q) \<and>
    (\<forall>b d1 w1 n1 s. daemon_boot (new_daemon_with_config c w0) w n = (b, d1, w1, n1) \<and>
        srv_reach (message_prog world_calls) fails (serving_init (d1, w1)) s \<longrightarrow>
      observed (\<lambda>f. lookup f q = lookup (w_fs w) q) w (snd (sv_state s)) \<and>
      lookup (w_fs (snd (sv_state s))) q = lookup (w_fs w) q)"
proof -
  have seen: "observed (\<lambda>f. lookup f q = lookup (w_fs w) q) w v \<and> lookup (w_fs v) q = lookup (w_fs w) q"
    if "keeps_to (daemon_zone (w_users w)) w v" for v
    using touches_observed[OF keeps_to_D(1)[OF that] assms(4)] touches_now[OF keeps_to_D(1)[OF that] assms(4)] ..
  have "keeps_to (daemon_zone (w_users w)) w (snd (sv_state s))"
    if "daemon_boot (new_daemon_with_config c w0) w n = (b, d1, w1, n1)"
      "srv_reach (message_prog world_calls) fails (serving_init (d1, w1)) s" for b d1 w1 n1 s
    using boot_confined[OF assms(1-3) that(1)] serving_stays[OF that(2), of "w_users w"]
    by (auto simp: stays_def intro: keeps_to_trans)
  then show ?thesis using run_keeps_to_zone(2)[OF assms(1-3)] seen by blast
qed

text \<open>A machine with a file of the system's.\<close>

definition shadow_world :: world where
  "shadow_world = boot_world\<lparr>w_fs := w_fs boot_world @
     [([''etc''], Dir \<lparr>m_mode = 0x1ED, m_uid = 0, m_gid = 0\<rparr>),
      ([''etc'', ''shadow''], File \<lparr>m_mode = 0x180, m_uid = 0, m_gid = 0\<rparr> ''secret'')]\<rparr>"

theorem run_spares_system_dirs_witness:
  "\<exists>r d' w'. daemon_run (new_daemon_with_config default_config shadow_world) [IpcStart]
      [Message \<lparr>env_type = msg_mount, env_payload = Some (enc_mount
         \<lparr>mp_tag = ''t'', mp_guest_path = ''/work/../etc/shadow'', mp_fs_type = ''9p'', mp_read_only = False\<rparr>)\<rparr>,
       Message \<lparr>env_type = msg_inject_secret, env_payload = Some (enc_secret
         \<lparr>sp_name = ''../../etc/shadow'', sp_value = ''x'', sp_mode = 0\<rparr>)\<rparr>]
      ContextDone shadow_world quiet_net = Some (r, d', w') \<and>
    lookup (w_fs w') [''etc'', ''shadow''] = Some (File \<lparr>m_mode = 0x180, m_uid = 0, m_gid = 0\<rparr> ''secret'')"
proof -
  let ?early = "[IpcStart]" and ?late = "[Message \<lparr>env_type = msg_mount, env_payload = Some (enc_mount
         \<lparr>mp_tag = ''t'', mp_guest_path = ''/work/../etc/shadow'', mp_fs_type = ''9p'', mp_read_only = False\<rparr>)\<rparr>,
       Message \<lparr>env_type = msg_inject_secret, env_payload = Some (enc_secret
         \<lparr>sp_name = ''../../etc/shadow'', sp_value = ''x'', sp_mode = 0\<rparr>)\<rparr>]"
  obtain r d' w' where run: "daemon_run (new_daemon_with_config default_config shadow_world) ?early ?late
      ContextDone shadow_world quiet_net = Some (r, d', w')"
    using daemon_run_total[OF new_daemon_ok] by blast
  have "w_users shadow_world = []" by (simp add: shadow_world_def boot_world_def quiet_world_def)
  then have "[''etc'', ''shadow''] \<notin> daemon_zone (w_users shadow_world)"
    by (simp add: daemon_zone_def system_names_def)
  from run_spares_system_dirs[of default_config, OF _ _ _ this] run
  have "lookup (w_fs w') [''etc'', ''shadow''] = lookup (w_fs shadow_world) [''etc'', ''shadow'']"
    unfolding default_config_def by simp
  moreover have "lookup (w_fs shadow_world) [''etc'', ''shadow''] =
      Some (File \<lparr>m_mode = 0x180, m_uid = 0, m_gid = 0\<rparr> ''secret'')"
    by (simp add: shadow_world_def boot_world_def quiet_world_def lookup_def)
  ultimately show ?thesis using run by metis
qed

end
