(* ===== verification/Version.thy ===== *)
theory Version
  imports GoStrings
begin

text \<open>
  The build-time version information (pkg/version) and the commands that print it. The
  linker replaces the defaults; the platform is where the program runs.
\<close>

record build_info =
  bi_version :: string
  bi_git_commit :: string
  bi_build_date :: string

definition default_build :: build_info where
  "default_build = \<lparr>bi_version = ''dev'', bi_git_commit = ''unknown'', bi_build_date = ''unknown''\<rparr>"

definition info :: "build_info \<Rightarrow> string \<Rightarrow> string \<Rightarrow> string" where
  "info b goos goarch =
     ''stereosd '' @ bi_version b @ '' (commit: '' @ bi_git_commit b @ '', built: '' @ bi_build_date b @
     '', '' @ goos @ ''/'' @ goarch @ '')''"

end
