(* ===== verification/Cmd.thy ===== *)
theory Cmd
  imports Run Version
begin

text \<open>
  The command line (cmd/root, cmd/run, cmd/version, main.go): the commands with their flags, and
  what the program does when one of them is chosen. How arguments become a choice is cobra's:
  \<open>parse\<close> stands for it, and gives the chosen command with the flags that were set, or an error.
  The long descriptions, and what cobra itself prints about an error, are not modelled.
\<close>

record flag =
  fg_name :: string
  fg_default :: string
  fg_usage :: string

datatype command =
  Command (cm_use: string) (cm_short: string) (cm_flags: "flag list") (cm_subs: "command list")

definition run_short_desc :: string where
  "run_short_desc = ''Start the stereosd daemon''"

definition version_short_desc :: string where
  "version_short_desc = ''Print version information''"

definition root_short_desc :: string where
  "root_short_desc = ''StereOS daemon control plane''"

definition new_run_cmd :: command where
  "new_run_cmd = Command ''run'' run_short_desc
     [\<lparr>fg_name = ''listen-mode'', fg_default = ''auto'',
       fg_usage = ''Control plane listener mode: \"vsock\", \"tcp\", or \"auto\" (try vsock, fall back to tcp)''\<rparr>,
      \<lparr>fg_name = ''poweroff'', fg_default = ''systemctl'',
       fg_usage = ''Shutdown power-off strategy: \"systemctl\" (systemd) or \"signal-init\" (SIGTERM PID 1, for capstan)''\<rparr>]
     []"

definition new_version_cmd :: command where
  "new_version_cmd = Command ''version'' version_short_desc [] []"

definition new_root_cmd :: command where
  "new_root_cmd = Command ''stereosd'' root_short_desc [] [new_run_cmd, new_version_cmd]"

text \<open>The value of a flag: what was set, or its default.\<close>

definition flag_value :: "command \<Rightarrow> (string \<times> string) list \<Rightarrow> string \<Rightarrow> string" where
  "flag_value c opts f =
     (case map_of opts f of
        Some v \<Rightarrow> v
      | None \<Rightarrow> (case filter (\<lambda>g. fg_name g = f) (cm_flags c) of [] \<Rightarrow> '''' | g # gs \<Rightarrow> fg_default g))"

text \<open>What a process leaves: its exit code, and what it wrote to its two outputs.\<close>

record process_end =
  pe_code :: int
  pe_stdout :: string
  pe_stderr :: string

definition exit_with :: "go_error option \<Rightarrow> string \<Rightarrow> process_end" where
  "exit_with r out =
     (case r of
        None \<Rightarrow> \<lparr>pe_code = 0, pe_stdout = out, pe_stderr = ''''\<rparr>
      | Some e \<Rightarrow> \<lparr>pe_code = 1, pe_stdout = out, pe_stderr = ''stereosd: '' @ error_text e @ [newline]\<rparr>)"

type_synonym invocation = "string \<times> (string \<times> string) list"

text \<open>
  The program; a command other than the two prints its help. \<open>None\<close> is a panic of the daemon.
\<close>

definition main ::
  "(command \<Rightarrow> string list \<Rightarrow> go_error + invocation) \<Rightarrow> string list \<Rightarrow> build_info \<Rightarrow> string \<Rightarrow> string \<Rightarrow> string \<Rightarrow>
   daemon_event list \<Rightarrow> daemon_event list \<Rightarrow> wake \<Rightarrow> world \<Rightarrow> net \<Rightarrow> process_end option" where
  "main parse args b goos goarch help early late wk w n =
     (case parse new_root_cmd args of
        Inl e \<Rightarrow> Some (exit_with (Some e) '''')
      | Inr (chosen, opts) \<Rightarrow>
          (if chosen = cm_use new_run_cmd then
             map_option (\<lambda>r. exit_with r '''')
               (run_daemon (flag_value new_run_cmd opts ''listen-mode'') (flag_value new_run_cmd opts ''poweroff'')
                  early late wk w n)
           else if chosen = cm_use new_version_cmd then
             Some (exit_with None (info b goos goarch @ [newline]))
           else Some (exit_with None help)))"

text \<open>
  Without flags the daemon tries both transports and powers off with systemctl; a mode it does
  not know ends the process before the daemon is made; and no choice makes the process panic.
\<close>

lemma run_defaults:
  "flag_value new_run_cmd [] ''listen-mode'' = ''auto''"
  "flag_value new_run_cmd [] ''poweroff'' = poweroff_systemctl"
  by (simp_all add: flag_value_def new_run_cmd_def poweroff_systemctl_def)

lemma main_unknown_mode:
  assumes "parse new_root_cmd args = Inr (''run'', opts)" and "map_of opts ''poweroff'' = Some mode"
    and "validate_poweroff_mode mode = Some e"
  shows "main parse args b goos goarch help early late wk w n = Some (exit_with (Some e) '''')"
  using assms by (simp add: main_def new_run_cmd_def flag_value_def run_daemon_def)

lemma main_never_panics: "main parse args b goos goarch help early late wk w n \<noteq> None"
proof -
  have "run_daemon lm pm early late wk w n \<noteq> None" for lm pm
  proof -
    let ?c = "default_config\<lparr>dc_listen_mode := lm, dc_poweroff_mode := pm\<rparr>"
    obtain r d' w' where "daemon_run (new_daemon_with_config ?c w) early late wk w n = Some (r, d', w')"
      using daemon_run_total[OF new_daemon_ok] by blast
    then show ?thesis by (simp add: run_daemon_def Let_def split: option.split)
  qed
  then show ?thesis by (simp add: main_def split: sum.split prod.split)
qed

end
