(* ===== verification/Build.thy ===== *)
theory Build
  imports GoErrors
begin

text \<open>
  The build module (.dagger/main.go): the container in which the flake is checked, and the two
  pipelines that run in it. The Dagger SDK is generated and not in the repository: the calls of
  it that the module makes are a parameter.
\<close>

subsection \<open>The SDK\<close>

text \<open>Containers \<open>'c\<close>, directories \<open>'d\<close> and cache volumes \<open>'v\<close>; a container is a value that every
  call makes anew. Asking for the output runs the pipeline.\<close>

record ('c, 'd, 'v) dagger =
  dg_container :: 'c
  dg_from :: "'c \<Rightarrow> string \<Rightarrow> 'c"
  dg_directory :: "'c \<Rightarrow> string \<Rightarrow> 'd"
  dg_cache_volume :: "string \<Rightarrow> 'v"
  dg_with_env_variable :: "'c \<Rightarrow> string \<Rightarrow> string \<Rightarrow> 'c"
  dg_with_mounted_cache :: "'c \<Rightarrow> string \<Rightarrow> 'v \<Rightarrow> 'd \<Rightarrow> 'c"
  dg_with_directory :: "'c \<Rightarrow> string \<Rightarrow> 'd \<Rightarrow> 'c"
  dg_with_workdir :: "'c \<Rightarrow> string \<Rightarrow> 'c"
  dg_with_exec :: "'c \<Rightarrow> string list \<Rightarrow> 'c"
  dg_stdout :: "'c \<Rightarrow> go_error + string"

subsection \<open>The module\<close>

record 'd stereosd_module =
  sm_source :: 'd

definition new_module :: "'d \<Rightarrow> 'd stereosd_module" where
  "new_module source = \<lparr>sm_source = source\<rparr>"

definition git_setup :: string where
  "git_setup =
     ''git init && '' @
       ''git config user.email '' @ [CHR 0x27] @ ''ci@stereos.ai'' @ [CHR 0x27] @ '' && '' @
       ''git config user.name '' @ [CHR 0x27] @ ''CI'' @ [CHR 0x27] @ '' && '' @
       ''git add -A && '' @
       ''git commit -m init-flake''"

definition nix_os_container :: "('c, 'd, 'v) dagger \<Rightarrow> 'd \<Rightarrow> 'c" where
  "nix_os_container dag src =
     (let base_nix = dg_directory dag (dg_from dag (dg_container dag) ''nixos/nix:latest'') ''/nix'';
          c1 = dg_from dag (dg_container dag) ''nixos/nix:latest'';
          c2 = dg_with_env_variable dag c1 ''NIX_CONFIG'' ''experimental-features = nix-command flakes'';
          c3 = dg_with_mounted_cache dag c2 ''/nix'' (dg_cache_volume dag ''nix'') base_nix;
          c4 = dg_with_directory dag c3 ''/workspace'' src;
          c5 = dg_with_workdir dag c4 ''/workspace'';
          c6 = dg_with_exec dag c5 [''sh'', ''-c'', git_setup]
      in dg_with_exec dag c6 [''nix'', ''develop'', ''--command'', ''true''])"

definition wrap_nix_dev :: "string list \<Rightarrow> string list" where
  "wrap_nix_dev args = [''nix'', ''develop'', ''--command''] @ args"

definition module_build :: "('c, 'd, 'v) dagger \<Rightarrow> 'd stereosd_module \<Rightarrow> go_error + string" where
  "module_build dag m =
     dg_stdout dag (dg_with_exec dag (nix_os_container dag (sm_source m)) [''nix'', ''build''])"

definition module_test :: "('c, 'd, 'v) dagger \<Rightarrow> 'd stereosd_module \<Rightarrow> go_error + string" where
  "module_test dag m =
     dg_stdout dag (dg_with_exec dag (nix_os_container dag (sm_source m))
       (wrap_nix_dev [''ginkgo'', ''run'', ''--succinct'', ''-p'', ''./...'']))"

subsection \<open>What the pipelines run\<close>

text \<open>For an SDK that keeps, with a container, the commands it runs and the directories mounted or
  copied into it: both pipelines run their command last, after the source is in the working
  directory under a repository of its own, and with the same preparation.\<close>

lemma pipeline_commands:
  assumes "\<And>c img. execs (dg_from dag c img) = []"
    and "\<And>c k v. execs (dg_with_env_variable dag c k v) = execs c"
    and "\<And>c p v d. execs (dg_with_mounted_cache dag c p v d) = execs c"
    and "\<And>c p d. execs (dg_with_directory dag c p d) = execs c"
    and "\<And>c p. execs (dg_with_workdir dag c p) = execs c"
    and "\<And>c a. execs (dg_with_exec dag c a) = execs c @ [a]"
  shows "execs (dg_with_exec dag (nix_os_container dag src) a) =
    [[''sh'', ''-c'', git_setup], wrap_nix_dev [''true''], a]"
  by (simp add: nix_os_container_def Let_def assms wrap_nix_dev_def)

text \<open>An SDK whose containers are their commands, a failing one making the output an error.\<close>

definition recording_sdk :: "(string list \<Rightarrow> go_error option) \<Rightarrow> (string list list, unit, unit) dagger" where
  "recording_sdk fails =
     \<lparr>dg_container = [], dg_from = (\<lambda>c img. []), dg_directory = (\<lambda>c p. ()), dg_cache_volume = (\<lambda>n. ()),
      dg_with_env_variable = (\<lambda>c k v. c), dg_with_mounted_cache = (\<lambda>c p v d. c),
      dg_with_directory = (\<lambda>c p d. c), dg_with_workdir = (\<lambda>c p. c), dg_with_exec = (\<lambda>c a. c @ [a]),
      dg_stdout = (\<lambda>c. case List.map_filter fails c of [] \<Rightarrow> Inr [] | e # es \<Rightarrow> Inl e)\<rparr>"

text \<open>With it, a check passes exactly when the preparation and its own command succeed.\<close>

lemma module_checks:
  "module_build (recording_sdk fails) m = Inr [] \<longleftrightarrow>
     fails [''sh'', ''-c'', git_setup] = None \<and> fails (wrap_nix_dev [''true'']) = None \<and> fails [''nix'', ''build''] = None"
  "module_test (recording_sdk fails) m = Inr [] \<longleftrightarrow>
     fails [''sh'', ''-c'', git_setup] = None \<and> fails (wrap_nix_dev [''true'']) = None \<and>
     fails (wrap_nix_dev [''ginkgo'', ''run'', ''--succinct'', ''-p'', ''./...'']) = None"
proof -
  have p: "dg_with_exec (recording_sdk fails) (nix_os_container (recording_sdk fails) src) a =
      [[''sh'', ''-c'', git_setup], wrap_nix_dev [''true''], a]" for src a
    using pipeline_commands[of id "recording_sdk fails" src a] by (simp add: recording_sdk_def)
  have out: "dg_stdout (recording_sdk fails) [a, b, c] = Inr [] \<longleftrightarrow> fails a = None \<and> fails b = None \<and> fails c = None" for a b c
    by (simp add: recording_sdk_def List.map_filter_def split: option.split)
  show "module_build (recording_sdk fails) m = Inr [] \<longleftrightarrow>
     fails [''sh'', ''-c'', git_setup] = None \<and> fails (wrap_nix_dev [''true'']) = None \<and> fails [''nix'', ''build''] = None"
    by (simp only: module_build_def p out)
  show "module_test (recording_sdk fails) m = Inr [] \<longleftrightarrow>
     fails [''sh'', ''-c'', git_setup] = None \<and> fails (wrap_nix_dev [''true'']) = None \<and>
     fails (wrap_nix_dev [''ginkgo'', ''run'', ''--succinct'', ''-p'', ''./...'']) = None"
    by (simp only: module_test_def p out)
qed

end
