(* ===== verification/Spec2Isabelle.thy ===== *)
theory Spec2Isabelle
  imports MountRace SecretRace KeyRace Truncation Confinement Cmd Build
begin

text \<open>
  A verification development for stereosd, the daemon that runs inside every StereOS instance
  and bridges it to the host: it reports its lifecycle, mounts shared directories, stores
  secrets and SSH keys it is handed, polls the agent daemon, and shuts the machine down.

  The program and its model. Everything under pkg/ is modelled, with the commands and the build module; the theories follow the
  packages and files, one theory per file, in the order in which they use each other.

    \<^item> Prelude: lemma collections and generic facts.
    \<^item> GoStrings, GoErrors, GoPath: the functions of strings, strconv, fmt, errors and
      path/filepath the program calls, with the behaviour of the Go library (Clean and Base on
      every string, quoting with %q, trimming, splitting).
    \<^item> GoJson, GoJsonText: encoding/json. GoJson moves JSON values into and out of typed
      payloads, with Go's rules for missing, null, repeated and mistyped members. GoJsonText is
      the text: the encoder with its escapes and the parser with its depth limit.
    \<^item> GoOS, GoOSFacts: the world. A record of the file system (a map from paths to files with
      content, mode and owner, and directories), the users and groups, the clock, and a trace of
      commands and signals. Every call may fail, as the field \<open>w_faults\<close> decides; a write may
      fail half way. \<open>observed\<close> quantifies over every state another process can see while a call
      runs. GoOSFacts has what each call leaves unchanged.
    \<^item> Net: the open descriptors of the process, for the listeners.
    \<^item> Commander (pkg/mounts.go, Commander): the interface that runs system commands.
    \<^item> KeyedStore: the contract of a store of named values.
    \<^item> Protocol, Wire (pkg/protocol.go): the envelope, the payloads and their encoding, and
      the protocol as lines of text.
    \<^item> Lifecycle (pkg/lifecycle.go): state, boot time, cached agents, callback.
    \<^item> Mounts (pkg/mounts.go): checks of a mount, its command line, the tracked mounts.
    \<^item> Secrets (pkg/secrets.go): Inject, List, Remove.
    \<^item> SSHKeys (pkg/sshkeys.go): validation of a request and the file authorized_keys.
    \<^item> Dirs (pkg/dirs.go): the runtime directories.
    \<^item> Shutdown (pkg/shutdown.go): the sequence of a shutdown and the ways to power off.
    \<^item> Agentd (pkg/agentd.go): the client of the agent daemon and the poller.
    \<^item> Vsock (pkg/vsock), Tcp (pkg/tcp): the two listeners of the control plane.
    \<^item> IpcServer, Ipc (pkg/ipc.go): the socket of the HTTP API; its routes and handlers.
    \<^item> Daemon (pkg/stereosd.go): configuration, construction, choice of the listener,
      HandleMessage, and the goroutine of a shutdown.
    \<^item> Server (pkg/server.go): the scanner, the loop over the lines of a connection, the loop
      over connections.
    \<^item> Scanning, Truncation (pkg/server.go, handleConnection): the scanner with its buffer and the
      reads of the transport; streams that end in the middle of a message.
    \<^item> Programs: a goroutine as its sequence of atomic accesses to what it shares, between which
      any other may run. Handlers (pkg/stereosd.go, HandleMessage, with Inject, Mount and
      InjectAuthorizedKey): the handler as such a program, over the memory of the daemon and an
      environment whose calls are parameters; run by itself it is \<open>handle_message\<close> of Daemon
      (message_prog_alone).
    \<^item> Serving (pkg/server.go, Serve): the server with all its connections and its wait group. The
      calls of the handler for different connections interleave access by access, as nothing
      in the program orders them. Serializable: schedules in which they do not interrupt each
      other.
    \<^item> Run (pkg/stereosd.go, Run; runDaemon): a run of the daemon from boot to end, for runs in
      which no two messages, requests, polls and shutdown jobs overlap in time.
    \<^item> RunEffects: what a whole run keeps, for any relation the calls respect. Confinement: the
      same for the paths touched while connections are served at the same time.
    \<^item> Interleaving, MountRace, SecretRace, KeyRace: the goroutines of a run taken apart into
      their accesses to the lifecycle state, to the slice of mounts, to the directory of secrets
      and to a user's .ssh directory.
    \<^item> RunSchedule: Run as schedules of Interleaving. ServingRun: the server of Serving with the
      handler of Handlers, against the schedules of Interleaving and the runs of Run.
    \<^item> Version, Cmd (pkg/version, cmd/, main.go): the version string and the commands.
    \<^item> Build (.dagger/main.go): the pipelines that build and test the flake.

  How the code is rendered. A Go struct is a record with its fields in the order of the
  source; a method is a function that takes the record and the world and returns the results,
  the changed record and the changed world. An error is a value of \<open>go_error\<close>, a result with
  an error a sum or an option. A panic is \<open>None\<close>. Strings are lists of bytes; sizes, ports,
  modes and durations keep their width (\<open>32 word\<close> for a mode or a port) or their range
  (\<open>int\<close> with the conversion written out). A string type of Go (message types, states) is
  open, so it is a string with named constants. Mutable objects that are shared between
  managers (the mount and the lifecycle manager) are fields of the daemon and are passed to
  the coordinator and returned by it. A goroutine that was started and has not run is an entry
  of a list in the daemon; the scheduler's choice is an argument.

  How the parts meet. The transport delivers a line to Server, which parses it with Wire and
  gives the envelope to Daemon's \<open>handle_message\<close>, which calls the managers and answers; Ipc
  reaches the same managers over HTTP. Poller, shutdown jobs and the main goroutine move the
  lifecycle. The interfaces between them are locales, interpreted on the model: \<open>command_runner\<close>
  (the system's commander and the mock), \<open>path_store\<close> (the file system), \<open>file_effects\<close> and
  \<open>call_effects\<close> (what any relation between worlds that the file calls respect gives for whole
  operations; interpreted as the frame of the environment, the paths touched, well-formedness,
  the messages pushed, and the paths touched with the accounts kept), \<open>keyed_store\<close> (the secret store), \<open>listener_provider\<close> (vsock and TCP
  listeners, by themselves and behind the daemon's listener type), \<open>message_handler\<close> (the
  daemon as the handler of the server) and \<open>run_effects\<close> (\<open>call_effects\<close> with the commands,
  the signals, the socket and the paths of the configuration, interpreted as the messages pushed
  and as the paths that a run may touch).

  What is shown.

    \<^item> Secrets refines a map under any sequence of operations with any failing calls; a reader
      sees the old or the whole new value; nothing but the secret and its temporary file is
      touched. The names that break this, dot, root and a name ending in .tmp, are theorems too.
    \<^item> Mounts: the checks on the text are equivalent to a statement about path components;
      the manager is a stack of the successful mounts.
    \<^item> SSHKeys: an accepted request replaces the file atomically, a refused one changes nothing.
    \<^item> Dirs: the modes after success, confinement, and idempotence.
    \<^item> Shutdown: the order of the steps whatever fails; which modes have a strategy.
    \<^item> Protocol, Wire, Agentd: encoding, writing, parsing and decoding are inverse on every
      payload that the types allow.
    \<^item> Server: a conversation as the host sees it; each line is answered once; the limit of the
      scanner; what a failing connection has sent; the accept loop and its clients.
    \<^item> Scanning: the lines do not depend on how the transport cuts the stream into reads.
      Truncation: a proper part of a message never parses, so a connection that is cut anywhere
      hands the handler exactly the messages that had arrived whole.
    \<^item> Daemon and Ipc: each message and request reaches its component, and the two
      interfaces agree; a DELETE path reaches every name; a GET changes nothing.
    \<^item> Vsock, Tcp, Daemon: no descriptor is leaked, and the mode decides the transport.
    \<^item> IpcServer: mode and freshness of the socket, and its removal in whatever order the
      draining, the return of Serve and Close come.
    \<^item> Serving: Serve waits for its connections exactly when it returns without an error; each
      connection gets the answers of its own calls. Serializable: when the calls of the handler
      do not interrupt each other, connections at the same time are served as if their lines had
      come one after the other. ServingRun: when they do, the invariants of the daemon and the
      kind and order of the answers are kept (concurrent_serving), but the result can be that of
      no order (overlapping_mounts_lose_one).
    \<^item> Run, RunEffects: how a run ends, whatever its goroutines have done; that a run whose messages,
      requests, polls and jobs do not overlap never panics, who can ask for a shutdown in it and
      what that does, and that the state degraded and the push of lifecycle messages never
      happen. Confinement: the daemon writes only its own directories, the keys of the accounts
      and below accepted mount points, in such a run and while connections are served at the same
      time.
    \<^item> Interleaving: what is final in every interleaving of the goroutines, and the schedule
      that overwrites the state shutdown. RunSchedule: every run goes through one of these
      schedules; ServingRun: so do the pending jobs of a daemon that serves connections at the
      same time.
    \<^item> MountRace: one shutdown and one mount are safe in every interleaving, every schedule
      ends, and the schedules in which mounts lose entries and two shutdowns crash the daemon.
    \<^item> SecretRace: injections under names that do not meet are isolated in every interleaving,
      and the schedule in which two of the same secret mix their values; every outcome of the
      sequential Inject is a schedule of one injection (inject_is_a_schedule).
    \<^item> KeyRace: an SSH key injection by itself is atomic, two at the same time can leave an empty
      authorized_keys after one was acknowledged; every outcome of the sequential installation is
      a schedule of one injection (key_installation_is_a_schedule).

  Bounds and fuel. The JSON parser recurses on a fuel of twice the length of its input and one,
  which is enough as every call but one consumes a byte; the depth limit is 10000 as in
  encoding/json. The scanner's limit is 1 MiB and its first buffer 64 KiB as in the source. No other definition has fuel;
  a run is a finite sequence of steps, which is what can be observed of it at any moment. The
  bound on schedules of mounts and shutdowns is stated by its theorem, not assumed.

  Not modelled, and why. Symbolic links and mount points in the file system: the program
  never makes or follows one on purpose, and a path is its cleaned text. Headers, timeouts and
  the five seconds of draining of the HTTP server, and the transport below a request: net/http.
  Reads, writes and deadlines of a connection: calls of os.File, a parameter of Vsock; the
  server is modelled on what they return. What the commands mount, umount, chown, sync and systemctl do to the
  machine: they are events of the trace and their results are the environment's. The log.
  The method Output of Commander, which has no caller. The parsing of arguments, which is
  cobra's and a parameter of Cmd, and the long descriptions of the commands. The Dagger SDK,
  which is generated and a parameter of Build.
  The requests of the HTTP API that overlap with each other or with messages: Ipc and Run have
  them as whole steps; the races of the managers behind them are in MountRace, SecretRace and
  KeyRace. The CLOEXEC flag and the backlog of the vsock socket.
  Tests are not modelled. In MountRace an access to a slice header or to a slot is atomic;
  torn reads of the several words of a header, which a data race in Go allows, are not.
\<close>

end
